(* ===== verification/Prelude.thy ===== *)
theory Prelude
  imports Main
begin

text \<open>
  What every component shares: the result type for code that can throw, its combinators and
  their simplification rules, and the list facts the component proofs rest on (first match,
  first occurrences, order-preserving selection).
\<close>

section \<open>Results of code that can throw\<close>

text \<open>A call that throws \<open>e\<close> is \<open>Inl e\<close>; one that returns \<open>x\<close> is \<open>Inr x\<close>.\<close>

type_synonym ('e, 'a) res = "'e + 'a"

definition and_then :: "('e, 'a) res \<Rightarrow> ('a \<Rightarrow> ('e, 'b) res) \<Rightarrow> ('e, 'b) res" where
  "and_then r f = (case r of Inl e \<Rightarrow> Inl e | Inr x \<Rightarrow> f x)"

definition check :: "bool \<Rightarrow> 'e \<Rightarrow> ('e, unit) res" where
  "check b e = (if b then Inr () else Inl e)"

fun check_all :: "('a \<Rightarrow> ('e, unit) res) \<Rightarrow> 'a list \<Rightarrow> ('e, unit) res" where
  "check_all f [] = Inr ()"
| "check_all f (x # xs) = and_then (f x) (\<lambda>_. check_all f xs)"

definition returns :: "('e, 'a) res \<Rightarrow> bool" where
  "returns r = (case r of Inl _ \<Rightarrow> False | Inr _ \<Rightarrow> True)"

named_theorems res_simps \<open>rules that evaluate results\<close>

lemma and_then_simps [simp, res_simps]:
  "and_then (Inl e) f = Inl e"
  "and_then (Inr x) f = f x"
  by (simp_all add: and_then_def)

lemma and_then_Inr_iff [simp]:
  "and_then r f = Inr y \<longleftrightarrow> (\<exists>x. r = Inr x \<and> f x = Inr y)"
  by (cases r) simp_all

lemma and_then_assoc: "and_then (and_then r f) g = and_then r (\<lambda>x. and_then (f x) g)"
  by (cases r) simp_all

lemma check_simps [simp, res_simps]:
  "check True e = Inr ()"
  "check False e = Inl e"
  by (simp_all add: check_def)

lemma check_Inr_iff [simp]: "check b e = Inr u \<longleftrightarrow> b"
  by (simp add: check_def)

lemma check_Inl_iff [simp]: "check b e = Inl e' \<longleftrightarrow> \<not> b \<and> e' = e"
  by (auto simp: check_def)

lemma check_all_Inr_iff [simp]:
  "check_all f xs = Inr u \<longleftrightarrow> (\<forall>x \<in> set xs. f x = Inr ())"
  by (induction xs) auto

lemma returns_simps [simp, res_simps]:
  "returns (Inr x)"
  "\<not> returns (Inl e)"
  by (simp_all add: returns_def)

lemma returns_iff: "returns r \<longleftrightarrow> (\<exists>x. r = Inr x)"
  by (cases r) simp_all

lemma returns_and_then [simp]:
  "returns (and_then r f) \<longleftrightarrow> (\<exists>x. r = Inr x \<and> returns (f x))"
  by (cases r) simp_all

section \<open>Lists\<close>

text \<open>\<open>Array.prototype.find\<close> is \<^const>\<open>find\<close>; what it returns, as an elimination rule.\<close>

lemma find_SomeD: "find P xs = Some x \<Longrightarrow> x \<in> set xs \<and> P x"
  by (induction xs) (auto split: if_splits)

lemma find_None_iff_ball: "find P xs = None \<longleftrightarrow> (\<forall>x \<in> set xs. \<not> P x)"
  by (auto simp: find_None_iff)

lemma find_cong_on: "(\<And>x. x \<in> set xs \<Longrightarrow> P x = Q x) \<Longrightarrow> find P xs = find Q xs"
  by (induction xs) auto

lemma ex_image_eq: "(\<exists>x \<in> A. \<exists>y \<in> B. f x = g y) \<longleftrightarrow> (\<exists>y \<in> B. g y \<in> f ` A)"
proof
  assume "\<exists>x \<in> A. \<exists>y \<in> B. f x = g y"
  then obtain x y where "x \<in> A" "y \<in> B" "f x = g y" by blast
  then have "y \<in> B" "g y \<in> f ` A" by (simp_all add: image_eqI [of _ _ x])
  then show "\<exists>y \<in> B. g y \<in> f ` A" by blast
next
  assume "\<exists>y \<in> B. g y \<in> f ` A"
  then obtain x y where "x \<in> A" "y \<in> B" "g y = f x" by blast
  then show "\<exists>x \<in> A. \<exists>y \<in> B. f x = g y" by (intro bexI [of _ x] bexI [of _ y]) simp_all
qed

lemma ne_Nil_iff_mem: "xs \<noteq> [] \<longleftrightarrow> (\<exists>x. x \<in> set xs)"
  using last_in_set by auto

text \<open>\<open>[...new Set(xs)]\<close>: the first occurrence of each element, in order.\<close>

fun uniq_from :: "'a list \<Rightarrow> 'a list \<Rightarrow> 'a list" where
  "uniq_from seen [] = []"
| "uniq_from seen (x # xs) =
     (if x \<in> set seen then uniq_from seen xs else x # uniq_from (x # seen) xs)"

definition uniq :: "'a list \<Rightarrow> 'a list" where
  "uniq xs = uniq_from [] xs"

lemma set_uniq_from: "set (uniq_from seen xs) = set xs - set seen"
  by (induction seen xs rule: uniq_from.induct) auto

lemma distinct_uniq_from: "distinct (uniq_from seen xs)"
  by (induction seen xs rule: uniq_from.induct) (auto simp: set_uniq_from)

lemma set_uniq [simp]: "set (uniq xs) = set xs"
  by (simp add: uniq_def set_uniq_from)

lemma distinct_uniq [simp]: "distinct (uniq xs)"
  by (simp add: uniq_def distinct_uniq_from)

lemma uniq_from_id: "distinct xs \<Longrightarrow> set xs \<inter> set seen = {} \<Longrightarrow> uniq_from seen xs = xs"
  by (induction seen xs rule: uniq_from.induct) auto

lemma uniq_id [simp]: "distinct xs \<Longrightarrow> uniq xs = xs"
  by (simp add: uniq_def uniq_from_id)

lemma uniq_Nil_iff [simp]: "uniq xs = [] \<longleftrightarrow> xs = []"
  by (metis set_empty set_uniq)

lemma uniq_idem [simp]: "uniq (uniq xs) = uniq xs"
  by simp

lemma uniq_from_cong: "set seen = set seen' \<Longrightarrow> uniq_from seen xs = uniq_from seen' xs"
proof (induction xs arbitrary: seen seen')
  case (Cons x xs)
  have "x \<in> set seen \<longleftrightarrow> x \<in> set seen'" using Cons.prems by blast
  moreover have "uniq_from (x # seen) xs = uniq_from (x # seen') xs"
    by (rule Cons.IH) (simp add: Cons.prems)
  moreover have "uniq_from seen xs = uniq_from seen' xs" by (rule Cons.IH) (rule Cons.prems)
  ultimately show ?case by (simp only: uniq_from.simps)
qed simp

lemma uniq_from_append: "uniq_from seen (xs @ ys) = uniq_from seen xs @ uniq_from (xs @ seen) ys"
proof (induction seen xs rule: uniq_from.induct)
  case (2 seen x xs)
  then show ?case
    using uniq_from_cong [of "xs @ seen" "x # xs @ seen" ys]
      uniq_from_cong [of "xs @ x # seen" "x # xs @ seen" ys]
    by auto
qed simp

lemma uniq_append: "uniq (uniq xs @ ys) = uniq (xs @ ys)"
  using uniq_from_cong [of "uniq xs" xs ys]
  by (simp add: uniq_def uniq_from_append uniq_from_id distinct_uniq_from set_uniq_from)

text \<open>\<open>Array.prototype.sort\<close> with a comparison function is stable: insertion in order.\<close>

fun insort_cmp :: "('a \<Rightarrow> 'a \<Rightarrow> bool) \<Rightarrow> 'a \<Rightarrow> 'a list \<Rightarrow> 'a list" where
  "insort_cmp le x [] = [x]"
| "insort_cmp le x (y # ys) = (if le x y then x # y # ys else y # insort_cmp le x ys)"

definition sort_cmp :: "('a \<Rightarrow> 'a \<Rightarrow> bool) \<Rightarrow> 'a list \<Rightarrow> 'a list" where
  "sort_cmp le xs = foldr (insort_cmp le) xs []"

lemma set_insort_cmp [simp]: "set (insort_cmp le x xs) = insert x (set xs)"
  by (induction xs) auto

lemma set_sort_cmp [simp]: "set (sort_cmp le xs) = set xs"
  unfolding sort_cmp_def by (induction xs) auto

lemma sort_cmp_Nil [simp]: "sort_cmp le [] = []"
  by (simp add: sort_cmp_def)

lemma sort_cmp_Nil_iff [simp]: "sort_cmp le xs = [] \<longleftrightarrow> xs = []"
  by (metis set_empty set_sort_cmp)

lemma length_insort_cmp [simp]: "length (insort_cmp le x xs) = Suc (length xs)"
  by (induction xs) auto

lemma length_sort_cmp [simp]: "length (sort_cmp le xs) = length xs"
  unfolding sort_cmp_def by (induction xs) auto

text \<open>With a total, transitive comparison the result is ordered.\<close>

definition total_preorder :: "('a \<Rightarrow> 'a \<Rightarrow> bool) \<Rightarrow> bool" where
  "total_preorder le \<longleftrightarrow> (\<forall>x y. le x y \<or> le y x) \<and> (\<forall>x y z. le x y \<longrightarrow> le y z \<longrightarrow> le x z)"

lemma total_preorderD:
  assumes "total_preorder le"
  shows "le x y \<or> le y x" and "le x y \<Longrightarrow> le y z \<Longrightarrow> le x z" and "le x x"
  using assms unfolding total_preorder_def by blast+

lemma sorted_wrt_insort_cmp:
  assumes "total_preorder le" and "sorted_wrt le xs"
  shows "sorted_wrt le (insort_cmp le x xs)"
  using assms(2)
proof (induction xs)
  case (Cons y ys)
  then show ?case using total_preorderD [OF assms(1)] by fastforce
qed simp

lemma sorted_wrt_sort_cmp: "total_preorder le \<Longrightarrow> sorted_wrt le (sort_cmp le xs)"
  unfolding sort_cmp_def by (induction xs) (auto intro: sorted_wrt_insort_cmp)

lemma sort_cmp_hd_least:
  assumes "total_preorder le" and "sort_cmp le xs = y # ys" and "x \<in> set xs"
  shows "le y x"
proof -
  have "sorted_wrt le (y # ys)" using sorted_wrt_sort_cmp [OF assms(1), of xs] assms(2) by simp
  moreover have "x \<in> set (y # ys)" using assms(2,3) set_sort_cmp [of le xs] by metis
  ultimately show ?thesis using total_preorderD(3) [OF assms(1)] by auto
qed

lemma sort_cmp_hd_mem: "sort_cmp le xs = y # ys \<Longrightarrow> y \<in> set xs"
  by (metis list.set_intros(1) set_sort_cmp)

end
