(* ===== verification/JsString.thy ===== *)
theory JsString
  imports Prelude "HOL-Library.Word" "HOL-Library.List_Lexorder"
begin

text \<open>
  ECMAScript strings: sequences of 16-bit code units, so that \<open>length\<close>, \<open>slice\<close> and
  \<open>charCodeAt\<close> count what the source counts and surrogates can be told apart. The operations
  of \<open>String.prototype\<close> that the modelled files use, and the regular-expression shapes they
  use, as functions that list every way to match, in the engine's order of preference.
\<close>

section \<open>Code units and literals\<close>

type_synonym unit16 = "16 word"
type_synonym js_string = "unit16 list"

text \<open>A literal of the source whose characters are all below 256.\<close>

definition js :: "string \<Rightarrow> js_string" where
  "js s = map of_char s"

lemma unat_of_char [simp]: "unat (of_char c :: unit16) = of_char c"
proof -
  have "(of_char c :: unit16) = of_nat (of_char c)" by (simp add: of_nat_of_char)
  moreover have "(of_char c :: nat) < 65536"
    using nat_of_char_less_256 [of c] by (rule order_less_trans) simp
  ultimately show ?thesis by (simp add: unat_of_nat)
qed

lemma of_char_unit_eq_iff [simp]: "(of_char c :: unit16) = of_char d \<longleftrightarrow> c = d"
  by (metis of_char_eq_iff unat_of_char)

lemma js_eq_iff [simp]: "js s = js t \<longleftrightarrow> s = t"
  unfolding js_def by (rule inj_map_eq_map) (simp add: inj_def)

lemma js_eq_Nil_iff [simp]: "js s = [] \<longleftrightarrow> s = []" "[] = js s \<longleftrightarrow> s = []"
  by (auto simp: js_def)

lemma js_Nil [simp]: "js [] = []"
  by (simp add: js_def)

lemma length_js [simp]: "length (js s) = length s"
  by (simp add: js_def)

lemma js_append: "js (s @ t) = js s @ js t"
  by (simp add: js_def)

section \<open>Operations of strings\<close>

text \<open>\<open>WhiteSpace\<close> and \<open>LineTerminator\<close>: what \<open>trim\<close> removes and \<open>\\s\<close> matches.\<close>

definition is_space :: "unit16 \<Rightarrow> bool" where
  "is_space c \<longleftrightarrow> 9 \<le> c \<and> c \<le> 13 \<or> c = 32 \<or> c = 160 \<or> c = 0x1680 \<or>
     0x2000 \<le> c \<and> c \<le> 0x200A \<or> c = 0x2028 \<or> c = 0x2029 \<or> c = 0x202F \<or>
     c = 0x205F \<or> c = 0x3000 \<or> c = 0xFEFF"

definition trimStart :: "js_string \<Rightarrow> js_string" where
  "trimStart s = dropWhile is_space s"

definition trimEnd :: "js_string \<Rightarrow> js_string" where
  "trimEnd s = rev (dropWhile is_space (rev s))"

definition trim :: "js_string \<Rightarrow> js_string" where
  "trim s = trimEnd (trimStart s)"

definition startsWith :: "js_string \<Rightarrow> js_string \<Rightarrow> bool" where
  "startsWith s p \<longleftrightarrow> take (length p) s = p"

definition endsWith :: "js_string \<Rightarrow> js_string \<Rightarrow> bool" where
  "endsWith s p \<longleftrightarrow> startsWith (rev s) (rev p)"

fun includes_str :: "js_string \<Rightarrow> js_string \<Rightarrow> bool" where
  "includes_str [] p = (p = [])"
| "includes_str (c # s) p = (startsWith (c # s) p \<or> includes_str s p)"

text \<open>\<open>split(sep)\<close> for a separator of one code unit.\<close>

fun split_on :: "unit16 \<Rightarrow> js_string \<Rightarrow> js_string list" where
  "split_on d [] = [[]]"
| "split_on d (c # s) =
     (if c = d then [] # split_on d s
      else case split_on d s of [] \<Rightarrow> [[c]] | w # ws \<Rightarrow> (c # w) # ws)"

fun join :: "js_string \<Rightarrow> js_string list \<Rightarrow> js_string" where
  "join sep [] = []"
| "join sep [w] = w"
| "join sep (w # ws) = w @ sep @ join sep ws"

text \<open>\<open>lastIndexOf\<close> of one code unit.\<close>

fun lastIndexOf :: "js_string \<Rightarrow> unit16 \<Rightarrow> nat option" where
  "lastIndexOf [] d = None"
| "lastIndexOf (c # s) d =
     (case lastIndexOf s d of
        Some i \<Rightarrow> Some (Suc i)
      | None \<Rightarrow> if c = d then Some 0 else None)"

text \<open>\<open>String(n)\<close> of an integer.\<close>

fun digits_of :: "nat \<Rightarrow> js_string" where
  "digits_of n = (if n < 10 then [of_nat (48 + n)] else digits_of (n div 10) @ [of_nat (48 + n mod 10)])"

declare digits_of.simps [simp del]

definition string_of_int :: "int \<Rightarrow> js_string" where
  "string_of_int i = (if i < 0 then 45 # digits_of (nat (- i)) else digits_of (nat i))"

definition is_digit :: "unit16 \<Rightarrow> bool" where
  "is_digit c \<longleftrightarrow> 48 \<le> c \<and> c \<le> 57"

definition digit_val :: "unit16 \<Rightarrow> nat" where
  "digit_val c = unat c - 48"

definition nat_of_digits :: "js_string \<Rightarrow> nat" where
  "nat_of_digits s = foldl (\<lambda>n c. 10 * n + digit_val c) 0 s"

text \<open>\<open>undefined\<close> and the empty string are falsy.\<close>

definition falsy :: "js_string option \<Rightarrow> bool" where
  "falsy v \<longleftrightarrow> v = None \<or> v = Some []"

text \<open>What the URL parser finds in a valid URL.\<close>

record parsed_url =
  protocol :: js_string
  username :: js_string
  password :: js_string
  hostname :: js_string
  url_search :: js_string
  url_hash :: js_string

subsection \<open>Laws\<close>

lemma startsWith_append [simp]: "startsWith (p @ s) p"
  by (simp add: startsWith_def)

lemma startsWith_iff: "startsWith s p \<longleftrightarrow> (\<exists>t. s = p @ t)"
  unfolding startsWith_def by (metis append_eq_conv_conj append_take_drop_id)

lemma includes_str_iff: "includes_str s p \<longleftrightarrow> (\<exists>a b. s = a @ p @ b)"
proof (induction s)
  case Nil
  then show ?case by auto
next
  case (Cons c s)
  have "(\<exists>a b. c # s = a @ p @ b) \<longleftrightarrow> (\<exists>b. c # s = p @ b) \<or> (\<exists>a b. s = a @ p @ b)"
    by (metis append_Cons append_eq_Cons_conv append_Nil)
  with Cons show ?case by (simp add: startsWith_iff)
qed

lemma split_on_ne [simp]: "split_on d s \<noteq> []"
  by (induction s) (auto split: list.splits)

lemma split_on_no_sep: "w \<in> set (split_on d s) \<Longrightarrow> d \<notin> set w"
proof (induction s arbitrary: w)
  case (Cons c s)
  then show ?case by (cases "split_on d s") (auto split: if_splits)
qed simp

lemma split_on_single: "d \<notin> set s \<Longrightarrow> split_on d s = [s]"
  by (induction s) auto

lemma split_on_append_sep: "d \<notin> set w \<Longrightarrow> split_on d (w @ d # s) = w # split_on d s"
  by (induction w) auto

lemma join_split_on: "join [d] (split_on d s) = s"
proof (induction s)
  case (Cons c s)
  then show ?case
    by (cases "split_on d s"; cases "tl (split_on d s)") (auto split: if_splits)
qed simp

lemma split_on_join:
  "ws \<noteq> [] \<Longrightarrow> \<forall>w \<in> set ws. d \<notin> set w \<Longrightarrow> split_on d (join [d] ws) = ws"
proof (induction "[d]" ws rule: join.induct)
  case (3 w v ws)
  then show ?case by (simp add: split_on_append_sep)
qed (simp_all add: split_on_single)

lemma lastIndexOf_append_sep:
  "d \<notin> set t \<Longrightarrow> lastIndexOf (s @ d # t) d = Some (length s)"
proof (induction s)
  case Nil
  then have "lastIndexOf t d = None" by (induction t) auto
  then show ?case by simp
qed simp

lemma digits_of_small: "n < 10 \<Longrightarrow> digits_of n = [of_nat (48 + n)]"
  by (simp add: digits_of.simps)

lemma digits_of_ne [simp]: "digits_of n \<noteq> []"
  by (simp add: digits_of.simps [of n])

lemma unat_digit: "n < 10 \<Longrightarrow> unat (of_nat (48 + n) :: unit16) = 48 + n"
  by (simp add: unat_of_nat del: of_nat_add)

lemma is_digit_of_nat: "n < 10 \<Longrightarrow> is_digit (of_nat (48 + n))"
  using unat_digit [of n] by (simp add: is_digit_def word_le_nat_alt del: of_nat_add)

lemma digits_of_digits: "c \<in> set (digits_of n) \<Longrightarrow> is_digit c"
proof (induction n rule: digits_of.induct)
  case (1 n)
  then show ?case
    by (auto simp: digits_of.simps [of n] simp del: of_nat_add intro: is_digit_of_nat split: if_splits)
qed

lemma nat_of_digits_snoc: "nat_of_digits (s @ [c]) = 10 * nat_of_digits s + digit_val c"
  by (simp add: nat_of_digits_def)

lemma nat_of_digits_of [simp]: "nat_of_digits (digits_of n) = n"
proof (induction n rule: digits_of.induct)
  case (1 n)
  have dv: "m < 10 \<Longrightarrow> digit_val (of_nat (48 + m)) = m" for m
    using unat_digit [of m] by (simp add: digit_val_def del: of_nat_add)
  show ?case
  proof (cases "n < 10")
    case True
    then show ?thesis using dv [of n] by (simp add: digits_of.simps nat_of_digits_def del: of_nat_add)
  next
    case False
    then show ?thesis
      using 1 dv [of "n mod 10"] digits_of.simps [of n]
      by (simp add: nat_of_digits_snoc del: of_nat_add)
  qed
qed

lemma digits_of_inject [simp]: "digits_of m = digits_of n \<longleftrightarrow> m = n"
  by (metis nat_of_digits_of)

lemma trim_Nil [simp]: "trim [] = []"
  by (simp add: trim_def trimStart_def trimEnd_def)

lemma trimEnd_id: "s = [] \<or> \<not> is_space (last s) \<Longrightarrow> trimEnd s = s"
  by (cases s rule: rev_cases) (auto simp: trimEnd_def)

lemma trim_id: "s = [] \<or> \<not> is_space (hd s) \<and> \<not> is_space (last s) \<Longrightarrow> trim s = s"
  by (cases s) (auto simp: trim_def trimStart_def trimEnd_id)

lemma trimEnd_last: "trimEnd s \<noteq> [] \<Longrightarrow> \<not> is_space (last (trimEnd s))"
  unfolding trimEnd_def by (metis hd_dropWhile last_rev rev_is_Nil_conv)

lemma trimEnd_prefix: "\<exists>t. s = trimEnd s @ t"
  unfolding trimEnd_def
  by (metis rev_append rev_rev_ident takeWhile_dropWhile_id)

lemma trim_no_space_ends:
  assumes "trim s \<noteq> []"
  shows "\<not> is_space (hd (trim s))" and "\<not> is_space (last (trim s))"
proof -
  show "\<not> is_space (last (trim s))" using assms trimEnd_last by (simp add: trim_def)
  obtain t where t: "trimStart s = trim s @ t" using trimEnd_prefix by (metis trim_def)
  with assms have ne: "trimStart s \<noteq> []" by auto
  then have "\<not> is_space (hd (trimStart s))" unfolding trimStart_def by (rule hd_dropWhile)
  with t assms show "\<not> is_space (hd (trim s))" by (simp add: hd_append)
qed

lemma trim_trim [simp]: "trim (trim s) = trim s"
  using trim_id trim_no_space_ends by blast

end
