(* ===== verification/JsPattern.thy ===== *)
theory JsPattern
  imports JsString
begin

text \<open>
  Regular expressions as the modelled files write them. A pattern maps a position (whether it is
  the start of the input, and the rest of the input) to the positions where a match can end, in
  the order a backtracking engine tries them. \<open>test\<close> searches every start. Case-insensitive
  literals fold as the engine does: ASCII letters only without the \<open>u\<close> flag; with it also the
  long s (U+017F) and the Kelvin sign (U+212A).
\<close>

type_synonym pos = "bool \<times> js_string"
type_synonym pat = "pos \<Rightarrow> pos list"

definition lower_unit :: "unit16 \<Rightarrow> unit16" where
  "lower_unit c = (if 65 \<le> c \<and> c \<le> 90 then c + 32 else c)"

definition fold_unit :: "unit16 \<Rightarrow> unit16" where
  "fold_unit c = (if c = 0x17F then 115 else if c = 0x212A then 107 else lower_unit c)"

fun p_unit :: "(unit16 \<Rightarrow> bool) \<Rightarrow> pat" where
  "p_unit P (b, []) = []"
| "p_unit P (b, c # s) = (if P c then [(False, s)] else [])"

definition p_seq :: "pat \<Rightarrow> pat \<Rightarrow> pat" where
  "p_seq p q x = concat (map q (p x))"

definition p_alt :: "pat \<Rightarrow> pat \<Rightarrow> pat" where
  "p_alt p q x = p x @ q x"

definition p_eps :: pat where
  "p_eps x = [x]"

definition p_opt :: "pat \<Rightarrow> pat" where
  "p_opt p = p_alt p p_eps"

definition p_bol :: pat where
  "p_bol x = (if fst x then [x] else [])"

definition p_eol :: pat where
  "p_eol x = (if snd x = [] then [x] else [])"

fun p_alts :: "pat list \<Rightarrow> pat" where
  "p_alts [] x = []"
| "p_alts (p # ps) x = p x @ p_alts ps x"

fun p_seqs :: "pat list \<Rightarrow> pat" where
  "p_seqs [] x = [x]"
| "p_seqs (p # ps) x = concat (map (p_seqs ps) (p x))"

text \<open>Greedy repetition of a class of units: the longest match first.\<close>

fun p_star_from :: "(unit16 \<Rightarrow> bool) \<Rightarrow> bool \<Rightarrow> js_string \<Rightarrow> pos list" where
  "p_star_from P b [] = [(b, [])]"
| "p_star_from P b (c # s) = (if P c then p_star_from P False s @ [(b, c # s)] else [(b, c # s)])"

definition p_star :: "(unit16 \<Rightarrow> bool) \<Rightarrow> pat" where
  "p_star P x = p_star_from P (fst x) (snd x)"

definition p_plus :: "(unit16 \<Rightarrow> bool) \<Rightarrow> pat" where
  "p_plus P = p_seq (p_unit P) (p_star P)"

definition p_spaces :: pat where
  "p_spaces = p_plus is_space"

text \<open>Literals: exact, \<open>/i\<close> and \<open>/iu\<close>; the literal is given in lower case for the latter two.\<close>

definition p_lit_by :: "(unit16 \<Rightarrow> unit16) \<Rightarrow> js_string \<Rightarrow> pat" where
  "p_lit_by f w x =
     (if length w \<le> length (snd x) \<and> map f (take (length w) (snd x)) = w
      then [(fst x \<and> w = [], drop (length w) (snd x))] else [])"

definition p_lit :: "string \<Rightarrow> pat" where
  "p_lit w = p_lit_by id (js w)"

definition p_lit_i :: "string \<Rightarrow> pat" where
  "p_lit_i w = p_lit_by lower_unit (js w)"

definition p_lit_iu :: "string \<Rightarrow> pat" where
  "p_lit_iu w = p_lit_by fold_unit (js w)"

fun search_from :: "pat \<Rightarrow> bool \<Rightarrow> js_string \<Rightarrow> bool" where
  "search_from p b [] = (p (b, []) \<noteq> [])"
| "search_from p b (c # s) = (p (b, c # s) \<noteq> [] \<or> search_from p False s)"

definition regex_test :: "pat \<Rightarrow> js_string \<Rightarrow> bool" where
  "regex_test p s = search_from p True s"

text \<open>A pattern between \<open>^\<close> and \<open>$\<close>.\<close>

definition full_match :: "pat \<Rightarrow> js_string \<Rightarrow> bool" where
  "full_match p s \<longleftrightarrow> (\<exists>x \<in> set (p (True, s)). snd x = [])"

lemmas pattern_defs =
  p_seq_def p_alt_def p_eps_def p_opt_def p_bol_def p_eol_def p_star_def p_plus_def p_spaces_def
  p_lit_by_def p_lit_def p_lit_i_def p_lit_iu_def regex_test_def full_match_def
  lower_unit_def fold_unit_def

section \<open>What a search finds\<close>

lemma ex_append_Cons:
  "(\<exists>a z. c # s = a @ z \<and> Q a z) \<longleftrightarrow> Q [] (c # s) \<or> (\<exists>a z. s = a @ z \<and> Q (c # a) z)"
  by (metis append_Cons append_Nil append_eq_Cons_conv)

lemma search_from_iff:
  "search_from p b s \<longleftrightarrow> (\<exists>a z. s = a @ z \<and> p (b \<and> a = [], z) \<noteq> [])"
proof (induction s arbitrary: b)
  case Nil
  then show ?case by simp
next
  case (Cons c s)
  then show ?case
    using ex_append_Cons [of c s "\<lambda>a z. p (b \<and> a = [], z) \<noteq> []"] by simp
qed

lemma regex_test_iff:
  "regex_test p s \<longleftrightarrow> (\<exists>a z. s = a @ z \<and> p (a = [], z) \<noteq> [])"
  by (simp add: regex_test_def search_from_iff)

lemma p_lit_by_iff:
  "y \<in> set (p_lit_by f w (b, s)) \<longleftrightarrow> (\<exists>t. s = t @ snd y \<and> map f t = w \<and> fst y = (b \<and> w = []))"
proof
  assume "y \<in> set (p_lit_by f w (b, s))"
  then have "length w \<le> length s" "map f (take (length w) s) = w"
      "y = (b \<and> w = [], drop (length w) s)"
    by (auto simp: p_lit_by_def split: if_splits)
  then show "\<exists>t. s = t @ snd y \<and> map f t = w \<and> fst y = (b \<and> w = [])"
    by (intro exI [of _ "take (length w) s"]) auto
next
  assume "\<exists>t. s = t @ snd y \<and> map f t = w \<and> fst y = (b \<and> w = [])"
  then obtain t where "s = t @ snd y" "map f t = w" "fst y = (b \<and> w = [])" by blast
  then show "y \<in> set (p_lit_by f w (b, s))"
    by (cases y) (auto simp: p_lit_by_def)
qed

lemma set_p_alts: "set (p_alts ps x) = (\<Union>p \<in> set ps. set (p x))"
  by (induction ps) auto

section \<open>Words between underscores\<close>

text \<open>\<open>(^|_)(w1|w2|...)(_|$)\<close> without regard to case.\<close>

definition p_token :: "string list \<Rightarrow> pat" where
  "p_token ws = p_seq (p_alt p_bol (p_lit ''_'')) (p_seq (p_alts (map p_lit_i ws)) (p_alt (p_lit ''_'') p_eol))"

lemma p_underscore_iff: "y \<in> set (p_lit ''_'' (b, s)) \<longleftrightarrow> s = 95 # snd y \<and> fst y = False"
  unfolding p_lit_def by (auto simp: p_lit_by_iff js_def)

lemma p_token_end_iff: "p_alt (p_lit ''_'') p_eol (b, r) \<noteq> [] \<longleftrightarrow> r = [] \<or> hd r = 95"
  by (cases r) (auto simp: p_alt_def p_eol_def p_lit_def p_lit_by_def js_def)

definition ends_token :: "js_string \<Rightarrow> bool" where
  "ends_token r \<longleftrightarrow> r = [] \<or> hd r = 95"

lemma p_token_ne_iff:
  "p_token ws (b, z) \<noteq> [] \<longleftrightarrow>
     (\<exists>t r w. w \<in> set ws \<and> map lower_unit t = js w \<and> ends_token r \<and>
        (b \<and> z = t @ r \<or> z = 95 # t @ r))"
proof -
  have lit: "y \<in> set (p_alts (map p_lit_i ws) (b', s)) \<longleftrightarrow>
      (\<exists>w \<in> set ws. \<exists>t. s = t @ snd y \<and> map lower_unit t = js w \<and> fst y = (b' \<and> w = []))" for y b' s
    by (auto simp: set_p_alts p_lit_i_def p_lit_by_iff)
  have inner: "p_seq (p_alts (map p_lit_i ws)) (p_alt (p_lit ''_'') p_eol) (b', s) \<noteq> [] \<longleftrightarrow>
      (\<exists>t r w. w \<in> set ws \<and> map lower_unit t = js w \<and> ends_token r \<and> s = t @ r)" for b' s
  proof -
    have "p_seq (p_alts (map p_lit_i ws)) (p_alt (p_lit ''_'') p_eol) (b', s) \<noteq> [] \<longleftrightarrow>
        (\<exists>y \<in> set (p_alts (map p_lit_i ws) (b', s)). p_alt (p_lit ''_'') p_eol y \<noteq> [])"
      by (auto simp: p_seq_def)
    also have "\<dots> \<longleftrightarrow> (\<exists>y \<in> set (p_alts (map p_lit_i ws) (b', s)). ends_token (snd y))"
      by (metis ends_token_def p_token_end_iff prod.collapse)
    also have "\<dots> \<longleftrightarrow> (\<exists>t r w. w \<in> set ws \<and> map lower_unit t = js w \<and> ends_token r \<and> s = t @ r)"
    proof
      assume "\<exists>y \<in> set (p_alts (map p_lit_i ws) (b', s)). ends_token (snd y)"
      then show "\<exists>t r w. w \<in> set ws \<and> map lower_unit t = js w \<and> ends_token r \<and> s = t @ r"
        using lit by blast
    next
      assume "\<exists>t r w. w \<in> set ws \<and> map lower_unit t = js w \<and> ends_token r \<and> s = t @ r"
      then obtain t r w where "w \<in> set ws" "map lower_unit t = js w" "ends_token r" "s = t @ r" by blast
      then show "\<exists>y \<in> set (p_alts (map p_lit_i ws) (b', s)). ends_token (snd y)"
        using lit [of "(b' \<and> w = [], r)"] by (intro bexI [of _ "(b' \<and> w = [], r)"]) auto
    qed
    finally show ?thesis .
  qed
  have "p_token ws (b, z) \<noteq> [] \<longleftrightarrow>
      (\<exists>y \<in> set (p_alt p_bol (p_lit ''_'') (b, z)).
         p_seq (p_alts (map p_lit_i ws)) (p_alt (p_lit ''_'') p_eol) y \<noteq> [])"
    by (auto simp: p_token_def p_seq_def [of "p_alt p_bol (p_lit ''_'')"])
  also have "\<dots> \<longleftrightarrow> (b \<and> p_seq (p_alts (map p_lit_i ws)) (p_alt (p_lit ''_'') p_eol) (b, z) \<noteq> [] \<or>
      (\<exists>r. z = 95 # r \<and> p_seq (p_alts (map p_lit_i ws)) (p_alt (p_lit ''_'') p_eol) (False, r) \<noteq> []))"
    by (auto simp: p_alt_def p_bol_def p_underscore_iff)
  finally show ?thesis unfolding inner by blast
qed

lemma ends_token_split: "ends_token r \<Longrightarrow> 95 \<notin> set t \<Longrightarrow> t \<in> set (split_on 95 (t @ r))"
  by (cases r) (auto simp: ends_token_def split_on_single split_on_append_sep)

lemma split_on_append: "split_on d (a @ d # s) = split_on d a @ split_on d s"
proof (induction a)
  case (Cons c a)
  then show ?case by (cases "split_on d a") auto
qed simp

lemma split_on_member:
  "t \<in> set (split_on 95 s) \<longleftrightarrow>
     95 \<notin> set t \<and> (\<exists>r. ends_token r \<and> (s = t @ r \<or> (\<exists>a. s = a @ 95 # t @ r)))"
  (is "?L \<longleftrightarrow> ?R")
proof
  assume ?L
  moreover from this have "95 \<notin> set t" by (rule split_on_no_sep)
  moreover have "t \<in> set (split_on 95 s) \<Longrightarrow> \<exists>r. ends_token r \<and> (s = t @ r \<or> (\<exists>a. s = a @ 95 # t @ r))"
  proof (induction s rule: length_induct)
    case (1 s)
    show ?case
    proof (cases "95 \<in> set s")
      case False
      with "1.prems" have "s = t @ []" by (simp add: split_on_single)
      then show ?thesis using ends_token_def by blast
    next
      case True
      then obtain u v where s: "s = u @ 95 # v" and u: "95 \<notin> set u" by (meson split_list_first)
      then have "t = u \<or> t \<in> set (split_on 95 v)" using "1.prems" by (simp add: split_on_append_sep)
      then show ?thesis
      proof
        assume "t = u"
        then show ?thesis using s by (intro exI [of _ "95 # v"]) (simp add: ends_token_def)
      next
        assume "t \<in> set (split_on 95 v)"
        moreover have "length v < length s" using s by simp
        ultimately obtain r where "ends_token r" "v = t @ r \<or> (\<exists>a. v = a @ 95 # t @ r)"
          using "1.IH" by blast
        then show ?thesis using s by (metis append.assoc append_Cons)
      qed
    qed
  qed
  ultimately show ?R by blast
next
  assume ?R
  then show ?L using ends_token_split by (auto simp: split_on_append)
qed

theorem p_token_test:
  assumes "\<forall>w \<in> set ws. CHR ''_'' \<notin> set w"
  shows "regex_test (p_token ws) s \<longleftrightarrow>
    (\<exists>t \<in> set (split_on 95 s). \<exists>w \<in> set ws. map lower_unit t = js w)"
proof -
  have no: "95 \<notin> set t" if "map lower_unit t = js w" "w \<in> set ws" for t w
  proof
    assume "95 \<in> set t"
    then have "lower_unit 95 \<in> set (js w)" using that(1) by (metis image_eqI list.set_map)
    then have "(95 :: unit16) \<in> of_char ` set w" by (simp add: lower_unit_def js_def)
    moreover have "(95 :: unit16) = of_char (CHR ''_'')" by simp
    ultimately have "CHR ''_'' \<in> set w" by (metis imageE of_char_unit_eq_iff)
    with assms that(2) show False by blast
  qed
  have "regex_test (p_token ws) s \<longleftrightarrow>
      (\<exists>t r w. w \<in> set ws \<and> map lower_unit t = js w \<and> ends_token r \<and>
         (s = t @ r \<or> (\<exists>a. s = a @ 95 # t @ r)))"
    unfolding regex_test_iff p_token_ne_iff by fastforce
  also have "\<dots> \<longleftrightarrow> (\<exists>t \<in> set (split_on 95 s). \<exists>w \<in> set ws. map lower_unit t = js w)"
    using no by (fastforce simp: split_on_member)
  finally show ?thesis .
qed

end
