(* ===== verification/Action_Approval.thy ===== *)
theory Action_Approval
  imports JsPattern
begin

text \<open>
  Approvals: which tool calls are consequential, how the space's rules resolve a call, the plan
  and judge steps that combine them (\<open>packages/core/src/action-approval.ts\<close>), and the gate the
  executor composes from these parts before a tool runs
  (\<open>packages/adapters/src/executor.ts\<close>). \<open>String.prototype.toLowerCase\<close> is the parameter
  \<open>lower\<close>: its tables are Unicode data, not code of the repository.
\<close>

section \<open>Tool tables\<close>

definition approval_exempt_tools :: "string list" where
  "approval_exempt_tools =
     [''computer_observe'', ''computer_act'', ''browser_navigate'', ''browser_snapshot'',
      ''browser_act'', ''list_files'', ''read_file'', ''write_file'', ''shell'', ''open_path'',
      ''launch_app'', ''remember'', ''request_takeover'', ''request_secret'', ''run_subagent'',
      ''spawn_bot'', ''schedule_create'', ''schedule_list'', ''schedule_cancel'']"

definition approval_required_builtin_tools :: "string list" where
  "approval_required_builtin_tools =
     [''destination.write'', ''delete_bot'', ''archive_bot'', ''secret_request'', ''forget_secret'',
      ''forget_memory'', ''cloud_agent_launch'', ''cloud_agent_reply'', ''cloud_agent_cancel'']"

definition explicit_approval_builtin_tools :: "string list" where
  "explicit_approval_builtin_tools = [''create_space'']"

definition unattended_safe_builtin_tools :: "string list" where
  "unattended_safe_builtin_tools =
     [''board_ready'', ''board_show'', ''browser_snapshot'', ''cloud_agent_status'',
      ''computer_observe'', ''list_files'', ''list_secrets'', ''read_file'', ''recall_memory'',
      ''request_takeover'', ''run_subagent'', ''schedule_list'', ''scratchpad_list'',
      ''skill_read'', ''web_fetch'', ''web_search'']"

definition read_only_words :: "string list" where
  "read_only_words = [''get'', ''list'', ''search'', ''find'', ''read'']"

definition mutating_words :: "string list" where
  "mutating_words =
     [''accept'', ''add'', ''approve'', ''archive'', ''assign'', ''buy'', ''cancel'', ''charge'',
      ''checkout'', ''close'', ''commit'', ''copy'', ''create'', ''delete'', ''deploy'',
      ''disable'', ''enable'', ''execute'', ''forward'', ''grant'', ''invite'', ''link'',
      ''mark'', ''merge'', ''modify'', ''move'', ''patch'', ''pay'', ''post'', ''publish'',
      ''purchase'', ''put'', ''register'', ''reject'', ''remove'', ''rename'', ''replace'',
      ''reply'', ''reset'', ''revoke'', ''run'', ''schedule'', ''send'', ''set'', ''share'',
      ''start'', ''stop'', ''submit'', ''subscribe'', ''trigger'', ''unassign'', ''unlink'',
      ''unsubscribe'', ''update'', ''upload'', ''upsert'', ''write'']"

definition read_only_connector_pattern :: pat where
  "read_only_connector_pattern = p_token read_only_words"

definition mutating_connector_pattern :: pat where
  "mutating_connector_pattern = p_token mutating_words"

definition compound_connector_action_pattern :: pat where
  "compound_connector_action_pattern =
     p_seqs [p_lit ''_'', p_alts [p_lit_i ''and'', p_lit_i ''or'', p_lit_i ''then''], p_lit ''_'']"

definition email_connector_slugs :: "string list" where
  "email_connector_slugs = [''gmail'', ''outlook'', ''microsoft_outlook'']"

definition purchase_connector_slugs :: "string list" where
  "purchase_connector_slugs = [''stripe'', ''shopify'', ''paypal'', ''square'']"

definition has :: "string list \<Rightarrow> js_string \<Rightarrow> bool" where
  "has table s \<longleftrightarrow> s \<in> set (map js table)"

section \<open>Which tools are consequential\<close>

definition connectorKindFromToolName ::
    "(js_string \<Rightarrow> js_string) \<Rightarrow> js_string \<Rightarrow> js_string list \<Rightarrow> js_string" where
  "connectorKindFromToolName lower toolName connectorKinds =
     (let normalizedTool = lower toolName;
          matched = sort_cmp (\<lambda>left right. length right \<le> length left)
            (filter (\<lambda>kind. normalizedTool = kind \<or> startsWith normalizedTool (kind @ js ''_''))
               (map lower connectorKinds))
      in if matched \<noteq> [] \<and> hd matched \<noteq> [] then hd matched
         else lower (hd (split_on 95 toolName)))"

definition connectorToolRequiresApproval :: "js_string \<Rightarrow> bool" where
  "connectorToolRequiresApproval toolName =
     (if regex_test mutating_connector_pattern toolName then True
      else if regex_test compound_connector_action_pattern toolName then True
      else \<not> regex_test read_only_connector_pattern toolName)"

definition toolRequiresExplicitApproval :: "js_string \<Rightarrow> bool" where
  "toolRequiresExplicitApproval toolName = has explicit_approval_builtin_tools toolName"

definition toolRequiresApproval :: "js_string \<Rightarrow> bool \<Rightarrow> bool" where
  "toolRequiresApproval toolName viaConnector =
     (if has approval_exempt_tools toolName then False
      else if toolRequiresExplicitApproval toolName then True
      else if has approval_required_builtin_tools toolName then True
      else if viaConnector then connectorToolRequiresApproval toolName
      else False)"

definition unattendedTriggerToolRequiresApproval :: "js_string \<Rightarrow> js_string \<Rightarrow> bool \<Rightarrow> bool" where
  "unattendedTriggerToolRequiresApproval trigger toolName viaConnector =
     (if trigger \<noteq> js ''webhook'' then False
      else if viaConnector then connectorToolRequiresApproval toolName
      else \<not> has unattended_safe_builtin_tools toolName)"

definition isReadPolicyTool :: "js_string \<Rightarrow> bool" where
  "isReadPolicyTool toolName =
     (if toolRequiresExplicitApproval toolName then False
      else if has unattended_safe_builtin_tools toolName
      then \<not> has [''request_takeover'', ''run_subagent''] toolName
      else \<not> has approval_exempt_tools toolName \<and>
        \<not> has approval_required_builtin_tools toolName \<and>
        \<not> connectorToolRequiresApproval toolName)"

section \<open>Rules\<close>

datatype rule_effect = Always_allow | Require_approval
datatype match_kind = Match_tool | Match_connector | Match_category | Match_other

record approval_rule =
  effect :: rule_effect
  matchKind :: match_kind
  matchValue :: js_string
  rule_botId :: "js_string option"
  scopeKey :: "js_string option"
  rule_id :: "js_string option"

definition line_terminator :: "unit16 \<Rightarrow> bool" where
  "line_terminator c \<longleftrightarrow> c = 10 \<or> c = 13 \<or> c = 0x2028 \<or> c = 0x2029"

definition email_pattern :: pat where
  "email_pattern = p_alts
     [p_seqs [p_lit_i ''send'', p_star (\<lambda>c. \<not> line_terminator c), p_lit_i ''mail''],
      p_lit_i ''gmail_send'', p_lit_i ''outlook_send'']"

definition purchase_pattern :: pat where
  "purchase_pattern = p_alts
     [p_lit_i ''purchase'', p_lit_i ''pay_'', p_lit_i ''charge'', p_lit_i ''checkout'', p_lit_i ''buy_'']"

definition categoryMatches ::
    "(js_string \<Rightarrow> js_string) \<Rightarrow> js_string \<Rightarrow> js_string \<Rightarrow> js_string \<Rightarrow> bool" where
  "categoryMatches lower category toolName connectorKind =
     (let normalized = lower category; consequential = connectorToolRequiresApproval toolName in
      if normalized = js ''email'' then
        (if has email_connector_slugs (lower connectorKind) then consequential
         else consequential \<and> regex_test email_pattern toolName)
      else if normalized = js ''purchase'' then
        (if has purchase_connector_slugs (lower connectorKind) then consequential
         else consequential \<and> regex_test purchase_pattern toolName)
      else False)"

definition ruleMatches ::
    "(js_string \<Rightarrow> js_string) \<Rightarrow> approval_rule \<Rightarrow> js_string \<Rightarrow> js_string \<Rightarrow> bool" where
  "ruleMatches lower rule toolName connectorKind =
     (let val = lower (matchValue rule) in
      case matchKind rule of
        Match_tool \<Rightarrow> lower toolName = val
      | Match_connector \<Rightarrow> lower connectorKind = val
      | Match_category \<Rightarrow> categoryMatches lower (matchValue rule) toolName connectorKind
      | Match_other \<Rightarrow> False)"

definition ruleSpecificity :: "approval_rule \<Rightarrow> nat" where
  "ruleSpecificity rule =
     (let bot = (if falsy (rule_botId rule) then 0 else 3) in
      case matchKind rule of
        Match_tool \<Rightarrow> 3 + bot
      | Match_connector \<Rightarrow> 2 + bot
      | Match_category \<Rightarrow> 1 + bot
      | Match_other \<Rightarrow> 0)"

datatype approval_decision = Ask | Allow
datatype approval_source = Src_require_approval | Src_always_allow | Src_default | Src_space_policy
datatype integration_approval = Ask_first | Integration_allow | Integration_disabled

record approval_input =
  toolName :: js_string
  in_botId :: "js_string option"
  goalId :: "js_string option"
  in_connectorKind :: "js_string option"
  rules :: "approval_rule list"
  integrationApproval :: "integration_approval option"

record approval_resolved =
  decision :: approval_decision
  source :: approval_source
  matchingRules :: "approval_rule list"
  matchedRuleId :: "js_string option"

definition ruleApplies ::
    "(js_string \<Rightarrow> js_string) \<Rightarrow> approval_input \<Rightarrow> js_string \<Rightarrow> approval_rule \<Rightarrow> bool" where
  "ruleApplies lower inp connectorKind rule \<longleftrightarrow>
     (falsy (scopeKey rule) \<or> scopeKey rule = Some (js ''all'') \<or>
      (\<exists>b. in_botId inp = Some b \<and> scopeKey rule = Some (js ''bot:'' @ b)) \<or>
      (\<exists>g. goalId inp = Some g \<and> scopeKey rule = Some (js ''goal:'' @ g))) \<and>
     (falsy (rule_botId rule) \<or> rule_botId rule = in_botId inp) \<and>
     ruleMatches lower rule (toolName inp) connectorKind"

text \<open>An empty rule id is falsy and is not reported.\<close>

definition reported_id :: "approval_rule \<Rightarrow> js_string option" where
  "reported_id rule = (if falsy (rule_id rule) then None else rule_id rule)"

definition resolveActionApprovalDetail ::
    "(js_string \<Rightarrow> js_string) \<Rightarrow> approval_input \<Rightarrow> approval_resolved" where
  "resolveActionApprovalDetail lower inp =
     (if integrationApproval inp = Some Ask_first
      then \<lparr>decision = Ask, source = Src_space_policy, matchingRules = [], matchedRuleId = None\<rparr>
      else
        let connectorKind = (case in_connectorKind inp of Some k \<Rightarrow> k
              | None \<Rightarrow> connectorKindFromToolName lower (toolName inp) []);
            matching = filter (ruleApplies lower inp connectorKind) (rules inp)
        in if matching = []
           then \<lparr>decision = Allow,
                 source = (if integrationApproval inp = Some Integration_allow
                           then Src_space_policy else Src_default),
                 matchingRules = matching, matchedRuleId = None\<rparr>
           else
             let highest = Max (set (map ruleSpecificity matching));
                 winners = filter (\<lambda>rule. ruleSpecificity rule = highest) matching
             in case find (\<lambda>rule. effect rule = Require_approval) winners of
                  Some requiring \<Rightarrow>
                    \<lparr>decision = Ask, source = Src_require_approval, matchingRules = matching,
                     matchedRuleId = reported_id requiring\<rparr>
                | None \<Rightarrow>
                    \<lparr>decision = Allow, source = Src_always_allow, matchingRules = matching,
                     matchedRuleId = (case winners of [] \<Rightarrow> None | w # _ \<Rightarrow> reported_id w)\<rparr>)"

definition resolveActionApproval ::
    "(js_string \<Rightarrow> js_string) \<Rightarrow> approval_input \<Rightarrow> approval_decision" where
  "resolveActionApproval lower inp = decision (resolveActionApprovalDetail lower inp)"

section \<open>The plan, the judge and the executor's gate\<close>

datatype gate_plan = Plan_ask | Plan_allow | Plan_judge
datatype judge_decision = Judge_pass | Judge_ask | Judge_error

definition planActionGate :: "approval_resolved \<Rightarrow> bool \<Rightarrow> bool \<Rightarrow> bool \<Rightarrow> gate_plan" where
  "planActionGate resolved consequential autoReviewEnabled checkerConfigured =
     (if decision resolved = Ask then Plan_ask
      else if source resolved = Src_always_allow then Plan_allow
      else if consequential \<and> autoReviewEnabled \<and> checkerConfigured \<and> source resolved = Src_default
      then Plan_judge
      else Plan_allow)"

definition applyJudgeDecision :: "judge_decision \<Rightarrow> bool \<Rightarrow> approval_decision" where
  "applyJudgeDecision judged consequential =
     (case judged of
        Judge_pass \<Rightarrow> Allow
      | Judge_ask \<Rightarrow> Ask
      | Judge_error \<Rightarrow> if consequential then Ask else Allow)"

text \<open>
  The gate in front of a tool call whose effect was recorded for the first time: the approval
  input, the run's trigger, whether the tool is a connector's, the auto-review preference,
  whether a checker is configured, and what the judge answers if it is asked.
\<close>

record gate_input = approval_input +
  trigger :: js_string
  viaConnector :: bool
  autoReviewPref :: bool
  checkerReady :: bool
  judge :: judge_decision

definition requiresUnattendedApproval :: "gate_input \<Rightarrow> bool" where
  "requiresUnattendedApproval g \<longleftrightarrow>
     integrationApproval g \<noteq> Some Integration_allow \<and>
     unattendedTriggerToolRequiresApproval (trigger g) (toolName g) (viaConnector g)"

definition requiresApprovalByDefault :: "gate_input \<Rightarrow> bool" where
  "requiresApprovalByDefault g \<longleftrightarrow>
     requiresUnattendedApproval g \<or> toolRequiresApproval (toolName g) (viaConnector g)"

definition requiresMandatoryApproval :: "gate_input \<Rightarrow> bool" where
  "requiresMandatoryApproval g \<longleftrightarrow>
     integrationApproval g = Some Ask_first \<or> requiresUnattendedApproval g \<or>
     toolRequiresExplicitApproval (toolName g)"

definition gatePlan :: "(js_string \<Rightarrow> js_string) \<Rightarrow> gate_input \<Rightarrow> gate_plan" where
  "gatePlan lower g =
     (if requiresMandatoryApproval g then Plan_ask
      else planActionGate (resolveActionApprovalDetail lower (approval_input.truncate g))
        (requiresApprovalByDefault g) (autoReviewPref g) (autoReviewPref g \<and> checkerReady g))"

definition gateDecision :: "(js_string \<Rightarrow> js_string) \<Rightarrow> gate_input \<Rightarrow> approval_decision" where
  "gateDecision lower g =
     (case gatePlan lower g of
        Plan_ask \<Rightarrow> Ask
      | Plan_allow \<Rightarrow> Allow
      | Plan_judge \<Rightarrow> applyJudgeDecision (judge g) (requiresApprovalByDefault g))"

section \<open>Ask blocks\<close>

record ask_block =
  block_kind :: js_string
  block_input :: "js_string option"
  approvalEffectId :: "js_string option"
  action_ids :: "js_string list option"

definition isSecretAskBlock :: "ask_block \<Rightarrow> bool" where
  "isSecretAskBlock block \<longleftrightarrow>
     block_kind block = js ''ask'' \<and> block_input block = Some (js ''secret'') \<and>
     falsy (approvalEffectId block)"

definition isApprovalAskBlock :: "ask_block \<Rightarrow> bool" where
  "isApprovalAskBlock block =
     (if block_kind block \<noteq> js ''ask'' \<or> falsy (approvalEffectId block) \<or>
         action_ids block = None \<or> action_ids block = Some []
      then False
      else let ids = set (the (action_ids block)) in
        js ''allow'' \<in> ids \<and> js ''deny'' \<in> ids \<and>
        (\<forall>i \<in> ids. i = js ''allow'' \<or> i = js ''always'' \<or> i = js ''deny''))"

section \<open>Tokens of a connector tool name\<close>

definition tokens :: "js_string \<Rightarrow> js_string list" where
  "tokens s = map (map lower_unit) (split_on 95 s)"

lemma lower_underscore: "map lower_unit t = js w \<Longrightarrow> CHR ''_'' \<notin> set w \<Longrightarrow> 95 \<notin> set t"
proof
  assume a: "map lower_unit t = js w" "CHR ''_'' \<notin> set w" and "95 \<in> set t"
  then have "lower_unit 95 \<in> set (js w)" by (metis image_eqI list.set_map)
  then have "(95 :: unit16) \<in> of_char ` set w" by (simp add: lower_unit_def js_def)
  moreover have "(95 :: unit16) = of_char (CHR ''_'')" by simp
  ultimately show False using a(2) by (metis imageE of_char_unit_eq_iff)
qed

lemma token_pattern_tokens:
  assumes "\<forall>w \<in> set ws. CHR ''_'' \<notin> set w"
  shows "regex_test (p_token ws) s \<longleftrightarrow> (\<exists>w \<in> set ws. js w \<in> set (tokens s))"
  unfolding p_token_test [OF assms] tokens_def set_map by (rule ex_image_eq)

lemma inner_member:
  "t \<in> set (butlast (tl xs)) \<longleftrightarrow> (\<exists>as bs. xs = as @ t # bs \<and> as \<noteq> [] \<and> bs \<noteq> [])"
proof
  assume "t \<in> set (butlast (tl xs))"
  then obtain as bs where ab: "butlast (tl xs) = as @ t # bs" by (meson split_list)
  then have "tl xs \<noteq> []" by auto
  then have "xs = (hd xs # as) @ t # (bs @ [last (tl xs)])"
    using ab by (metis append.assoc append_Cons append_butlast_last_id list.exhaust_sel tl_Nil)
  then show "\<exists>as bs. xs = as @ t # bs \<and> as \<noteq> [] \<and> bs \<noteq> []" by blast
next
  assume "\<exists>as bs. xs = as @ t # bs \<and> as \<noteq> [] \<and> bs \<noteq> []"
  then obtain as bs where "xs = as @ t # bs" "as \<noteq> []" "bs \<noteq> []" by blast
  then show "t \<in> set (butlast (tl xs))" by (cases as) (auto simp: butlast_append)
qed

lemma join_append:
  "as \<noteq> [] \<Longrightarrow> bs \<noteq> [] \<Longrightarrow> join sep (as @ bs) = join sep as @ sep @ join sep bs"
proof (induction sep as rule: join.induct)
  case (2 sep w)
  then show ?case by (cases bs) auto
qed auto

lemma compound_pattern_iff:
  "regex_test compound_connector_action_pattern s \<longleftrightarrow>
     (\<exists>a t r. s = a @ 95 # t @ 95 # r \<and> map lower_unit t \<in> {js ''and'', js ''or'', js ''then''})"
proof -
  have lits: "y \<in> set (p_alts [p_lit_i ''and'', p_lit_i ''or'', p_lit_i ''then''] (b, u)) \<longleftrightarrow>
      fst y = False \<and>
      (\<exists>t. u = t @ snd y \<and> map lower_unit t \<in> {js ''and'', js ''or'', js ''then''})" for y b u
    by (auto simp: p_lit_i_def p_lit_by_iff)
  have "compound_connector_action_pattern (b, z) \<noteq> [] \<longleftrightarrow>
      (\<exists>t r. z = 95 # t @ 95 # r \<and> map lower_unit t \<in> {js ''and'', js ''or'', js ''then''})" for b z
  proof -
    have "compound_connector_action_pattern (b, z) \<noteq> [] \<longleftrightarrow>
        (\<exists>x y v. x \<in> set (p_lit ''_'' (b, z)) \<and>
           y \<in> set (p_alts [p_lit_i ''and'', p_lit_i ''or'', p_lit_i ''then''] x) \<and>
           v \<in> set (p_lit ''_'' y))"
      unfolding compound_connector_action_pattern_def
      by (simp del: p_alts.simps split_paired_Ex) (simp only: ne_Nil_iff_mem, blast)
    also have "\<dots> \<longleftrightarrow> (\<exists>t r. z = 95 # t @ 95 # r \<and> map lower_unit t \<in> {js ''and'', js ''or'', js ''then''})"
    proof
      assume "\<exists>x y v. x \<in> set (p_lit ''_'' (b, z)) \<and>
           y \<in> set (p_alts [p_lit_i ''and'', p_lit_i ''or'', p_lit_i ''then''] x) \<and>
           v \<in> set (p_lit ''_'' y)"
      then obtain x y v where x: "x \<in> set (p_lit ''_'' (b, z))"
          and y: "y \<in> set (p_alts [p_lit_i ''and'', p_lit_i ''or'', p_lit_i ''then''] x)"
          and v: "v \<in> set (p_lit ''_'' y)" by blast
      from x have "z = 95 # snd x" by (simp add: p_underscore_iff)
      moreover from v have "snd y = 95 # snd v" using p_underscore_iff [of v "fst y" "snd y"] by simp
      moreover from y obtain t where "snd x = t @ snd y"
          "map lower_unit t \<in> {js ''and'', js ''or'', js ''then''}"
        using lits [of y "fst x" "snd x"] by auto
      ultimately show "\<exists>t r. z = 95 # t @ 95 # r \<and> map lower_unit t \<in> {js ''and'', js ''or'', js ''then''}"
        by auto
    next
      assume "\<exists>t r. z = 95 # t @ 95 # r \<and> map lower_unit t \<in> {js ''and'', js ''or'', js ''then''}"
      then obtain t r where z: "z = 95 # t @ 95 # r"
          and t: "map lower_unit t \<in> {js ''and'', js ''or'', js ''then''}" by blast
      have "(False, t @ 95 # r) \<in> set (p_lit ''_'' (b, z))"
        "(False, 95 # r) \<in> set (p_alts [p_lit_i ''and'', p_lit_i ''or'', p_lit_i ''then''] (False, t @ 95 # r))"
        "(False, r) \<in> set (p_lit ''_'' (False, 95 # r))"
        using z t by (auto simp: p_underscore_iff lits simp del: p_alts.simps)
      then show "\<exists>x y v. x \<in> set (p_lit ''_'' (b, z)) \<and>
           y \<in> set (p_alts [p_lit_i ''and'', p_lit_i ''or'', p_lit_i ''then''] x) \<and>
           v \<in> set (p_lit ''_'' y)" by blast
    qed
    finally show ?thesis .
  qed
  then show ?thesis unfolding regex_test_iff by blast
qed

lemma compound_pattern_tokens:
  "regex_test compound_connector_action_pattern s \<longleftrightarrow>
     (\<exists>w \<in> {''and'', ''or'', ''then''}. js w \<in> set (butlast (tl (tokens s))))"
proof -
  let ?c = "\<lambda>t. map lower_unit t \<in> {js ''and'', js ''or'', js ''then''}"
  have no: "?c t \<Longrightarrow> 95 \<notin> set t" for t
    using lower_underscore [of t "''and''"] lower_underscore [of t "''or''"]
      lower_underscore [of t "''then''"] by auto
  have "(\<exists>a t r. s = a @ 95 # t @ 95 # r \<and> ?c t) \<longleftrightarrow>
      (\<exists>as t bs. split_on 95 s = as @ t # bs \<and> as \<noteq> [] \<and> bs \<noteq> [] \<and> ?c t)" (is "?L \<longleftrightarrow> ?R")
  proof
    assume ?L
    then obtain a t r where s: "s = a @ 95 # t @ 95 # r" "?c t" by blast
    from no [OF s(2)] have "split_on 95 t = [t]" by (rule split_on_single)
    with s(1) have "split_on 95 s = split_on 95 a @ t # split_on 95 r"
      by (simp add: split_on_append)
    with s(2) show ?R using split_on_ne by blast
  next
    assume ?R
    then obtain as t bs where sp: "split_on 95 s = as @ t # bs" "as \<noteq> []" "bs \<noteq> []" "?c t" by blast
    have "s = join [95] (as @ t # bs)" using sp(1) by (metis join_split_on)
    also have "\<dots> = join [95] as @ 95 # t @ 95 # join [95] bs"
      using sp(2,3) by (cases bs) (simp_all add: join_append)
    finally show ?L using sp(4) by blast
  qed
  also have "\<dots> \<longleftrightarrow> (\<exists>t. t \<in> set (butlast (tl (split_on 95 s))) \<and> ?c t)"
    by (metis inner_member)
  also have "\<dots> \<longleftrightarrow> (\<exists>w \<in> {''and'', ''or'', ''then''}.
      js w \<in> map lower_unit ` set (butlast (tl (split_on 95 s))))"
    by (simp add: image_iff) metis
  finally show ?thesis
    unfolding compound_pattern_iff tokens_def
    by (simp only: map_tl [symmetric] map_butlast [symmetric] set_map)
qed

section \<open>Rule resolution and the gate, by cases\<close>

lemma resolve_none:
  "integrationApproval inp \<noteq> Some Ask_first \<Longrightarrow>
   matchingRules (resolveActionApprovalDetail lower inp) = [] \<Longrightarrow>
   decision (resolveActionApprovalDetail lower inp) = Allow \<and>
   source (resolveActionApprovalDetail lower inp) \<noteq> Src_always_allow"
  by (auto simp: resolveActionApprovalDetail_def Let_def split: if_splits option.splits)

lemma resolve_matching:
  assumes "integrationApproval inp \<noteq> Some Ask_first"
    and m: "matchingRules (resolveActionApprovalDetail lower inp) = rs" and "rs \<noteq> []"
  shows "decision (resolveActionApprovalDetail lower inp) = Ask \<longleftrightarrow>
      (\<exists>r \<in> set rs. effect r = Require_approval \<and> (\<forall>r' \<in> set rs. ruleSpecificity r' \<le> ruleSpecificity r))"
    and "source (resolveActionApprovalDetail lower inp) =
      (if decision (resolveActionApprovalDetail lower inp) = Ask then Src_require_approval else Src_always_allow)"
proof -
  let ?top = "\<lambda>r. ruleSpecificity r = Max (set (map ruleSpecificity rs))"
  have rs: "rs = filter (ruleApplies lower inp (case in_connectorKind inp of Some k \<Rightarrow> k
      | None \<Rightarrow> connectorKindFromToolName lower (toolName inp) [])) (rules inp)"
    using m assms(1) by (auto simp: resolveActionApprovalDetail_def Let_def split: if_splits option.splits)
  have top: "?top r \<longleftrightarrow> (\<forall>r' \<in> set rs. ruleSpecificity r' \<le> ruleSpecificity r)" if "r \<in> set rs" for r
    using that by (auto intro!: Max_eqI [symmetric])
  let ?find = "find (\<lambda>rule. effect rule = Require_approval) (filter ?top rs)"
  have dec: "decision (resolveActionApprovalDetail lower inp) = (if ?find = None then Allow else Ask)"
    and src: "source (resolveActionApprovalDetail lower inp) =
      (if ?find = None then Src_always_allow else Src_require_approval)"
    using assms(1,3) rs by (auto simp: resolveActionApprovalDetail_def Let_def split: option.splits)
  have "?find \<noteq> None \<longleftrightarrow> (\<exists>r \<in> set rs. effect r = Require_approval \<and> ?top r)"
    by (auto simp: find_None_iff)
  with top dec show "decision (resolveActionApprovalDetail lower inp) = Ask \<longleftrightarrow>
      (\<exists>r \<in> set rs. effect r = Require_approval \<and> (\<forall>r' \<in> set rs. ruleSpecificity r' \<le> ruleSpecificity r))"
    by auto
  from dec src show "source (resolveActionApprovalDetail lower inp) =
      (if decision (resolveActionApprovalDetail lower inp) = Ask then Src_require_approval else Src_always_allow)"
    by simp
qed

lemma word_tables_plain:
  "\<forall>w \<in> set read_only_words. CHR ''_'' \<notin> set w"
  "\<forall>w \<in> set mutating_words. CHR ''_'' \<notin> set w"
  by (simp_all add: read_only_words_def mutating_words_def)

section \<open>Properties\<close>

text \<open>
  C19. A connector tool runs without approval exactly when its name, cut at underscores and read
  without regard to case, has one of the read words, none of the mutating words, and no \<open>and\<close>,
  \<open>or\<close> or \<open>then\<close> between two other parts.
\<close>

theorem connector_tool_by_tokens:
  "\<not> connectorToolRequiresApproval tool \<longleftrightarrow>
     (\<exists>w \<in> set read_only_words. js w \<in> set (tokens tool)) \<and>
     (\<forall>w \<in> set mutating_words. js w \<notin> set (tokens tool)) \<and>
     (\<forall>w \<in> {''and'', ''or'', ''then''}. js w \<notin> set (butlast (tl (tokens tool))))"
  unfolding connectorToolRequiresApproval_def read_only_connector_pattern_def
    mutating_connector_pattern_def token_pattern_tokens [OF word_tables_plain(1)]
    token_pattern_tokens [OF word_tables_plain(2)] compound_pattern_tokens
  by auto

theorem connector_tool_by_tokens_witness:
  "\<not> connectorToolRequiresApproval (js ''GMAIL_LIST_threads'')"
proof -
  have "tokens (js ''GMAIL_LIST_threads'') = [js ''gmail'', js ''list'', js ''threads'']"
    by (simp add: tokens_def js_def lower_unit_def)
  then show ?thesis
    using connector_tool_by_tokens [of "js ''GMAIL_LIST_threads''"]
    by (simp add: read_only_words_def mutating_words_def)
qed

text \<open>
  How rules resolve a call: it is asked about exactly when the space says ask first, or when
  some matching rule requires approval and no matching rule is more specific; a call no rule
  matches is allowed.
\<close>

theorem approval_resolution:
  "resolveActionApproval lower inp = Ask \<longleftrightarrow>
     integrationApproval inp = Some Ask_first \<or>
     (let rs = matchingRules (resolveActionApprovalDetail lower inp) in
      \<exists>r \<in> set rs. effect r = Require_approval \<and> (\<forall>r' \<in> set rs. ruleSpecificity r' \<le> ruleSpecificity r))"
proof (cases "integrationApproval inp = Some Ask_first")
  case True
  then show ?thesis by (simp add: resolveActionApproval_def resolveActionApprovalDetail_def)
next
  case False
  let ?d = "resolveActionApprovalDetail lower inp"
  show ?thesis
  proof (cases "matchingRules ?d = []")
    case True
    with resolve_none [OF False True] False show ?thesis by (simp add: resolveActionApproval_def)
  next
    case ne: False
    from resolve_matching(1) [OF False refl ne] False show ?thesis
      by (simp add: resolveActionApproval_def Let_def)
  qed
qed

theorem approval_resolution_witness:
  "resolveActionApproval id
     \<lparr>toolName = js ''x_send'', in_botId = None, goalId = None, in_connectorKind = None,
      rules = [\<lparr>effect = Require_approval, matchKind = Match_tool, matchValue = js ''x_send'',
                rule_botId = None, scopeKey = None, rule_id = None\<rparr>],
      integrationApproval = None\<rparr> = Ask"
  unfolding approval_resolution
  by (simp add: resolveActionApprovalDetail_def Let_def ruleApplies_def ruleMatches_def falsy_def)

text \<open>
  C1. The gate fails closed: when it lets a call run, the call was not one of the mandatory
  approvals (the space asks first, an unattended webhook call that is not read-only, a
  security-boundary tool), and either an always-allow rule beat every rule that requires approval,
  or no rule matched and the call is not consequential, or the space's policy allows it, or
  automatic review is off or has no checker, or the judge passed it. A judge that asks or fails
  never lets a consequential call run.
\<close>

theorem gate_allows_only:
  assumes "gateDecision lower g = Allow"
  shows "\<not> requiresMandatoryApproval g \<and>
    (let d = resolveActionApprovalDetail lower (approval_input.truncate g) in
     decision d = Allow \<and>
     (source d = Src_always_allow \<and> matchingRules d \<noteq> [] \<or>
      matchingRules d = [] \<and>
        (\<not> requiresApprovalByDefault g \<or> integrationApproval g = Some Integration_allow \<or>
         \<not> autoReviewPref g \<or> \<not> checkerReady g \<or> judge g = Judge_pass)))"
proof -
  let ?d = "resolveActionApprovalDetail lower (approval_input.truncate g)"
  have man: "\<not> requiresMandatoryApproval g"
    using assms by (auto simp: gateDecision_def gatePlan_def split: if_splits)
  then have nf: "integrationApproval (approval_input.truncate g) \<noteq> Some Ask_first"
    by (simp add: requiresMandatoryApproval_def approval_input.defs)
  have dec: "decision ?d = Allow"
    using assms man by (cases "decision ?d") (auto simp: gateDecision_def gatePlan_def planActionGate_def)
  show ?thesis
  proof (cases "matchingRules ?d = []")
    case False
    from resolve_matching(2) [OF nf refl False] dec man False show ?thesis by (simp add: Let_def)
  next
    case True
    have src: "source ?d = (if integrationApproval g = Some Integration_allow then Src_space_policy else Src_default)"
      using True nf by (auto simp: resolveActionApprovalDetail_def Let_def approval_input.defs split: if_splits option.splits)
    have "requiresApprovalByDefault g \<Longrightarrow> integrationApproval g \<noteq> Some Integration_allow \<Longrightarrow>
        autoReviewPref g \<Longrightarrow> checkerReady g \<Longrightarrow> judge g = Judge_pass"
      using assms man dec src
      by (cases "judge g") (auto simp: gateDecision_def gatePlan_def planActionGate_def applyJudgeDecision_def)
    with True dec man show ?thesis by (auto simp: Let_def)
  qed
qed

definition sample_gate :: gate_input where
  "sample_gate = \<lparr>toolName = js ''delete_bot'', in_botId = None, goalId = None, in_connectorKind = None,
     rules = [], integrationApproval = None, trigger = js ''user'', viaConnector = False,
     autoReviewPref = True, checkerReady = True, judge = Judge_pass\<rparr>"

lemmas gate_eval =
  gateDecision_def gatePlan_def planActionGate_def applyJudgeDecision_def requiresMandatoryApproval_def
  requiresApprovalByDefault_def requiresUnattendedApproval_def toolRequiresApproval_def
  toolRequiresExplicitApproval_def unattendedTriggerToolRequiresApproval_def has_def
  approval_exempt_tools_def approval_required_builtin_tools_def explicit_approval_builtin_tools_def
  resolveActionApprovalDetail_def approval_input.defs sample_gate_def

theorem gate_allows_only_witness:
  "gateDecision id sample_gate = Allow \<and> requiresApprovalByDefault sample_gate \<and>
   judge sample_gate = Judge_pass"
proof -
  have "gateDecision id sample_gate = Allow" by (simp add: gate_eval)
  from this gate_allows_only [OF this] show ?thesis
    by (auto simp: Let_def) (simp_all add: gate_eval)
qed

text \<open>
  Without automatic review, the default is to run: a consequential built-in tool that no rule
  names is neither asked about nor judged.
\<close>

theorem unreviewed_default_is_allow:
  "requiresApprovalByDefault (sample_gate\<lparr>autoReviewPref := False\<rparr>) \<and>
   gateDecision lower (sample_gate\<lparr>autoReviewPref := False\<rparr>) = Allow"
  by (simp add: gate_eval)

end
