(* ===== verification/JsNumber.thy ===== *)
theory JsNumber
  imports JsString Complex_Main "HOL-Library.Log_Nat"
begin

text \<open>
  ECMAScript numbers as the modelled files use them: a finite double is the rational it stands
  for (the two zeros are one value), beside \<open>NaN\<close> and the infinities. \<open>Number(s)\<close> of a string is
  the \<open>StringToNumber\<close> algorithm: trim, read a decimal, hexadecimal, octal or binary literal or
  \<open>Infinity\<close>, and round the exact value to the nearest double, ties to even.
\<close>

datatype js_num = NaN | Infty bool | Num rat

definition max_safe_integer :: int where
  "max_safe_integer = 2 ^ 53 - 1"

definition is_int :: "rat \<Rightarrow> bool" where
  "is_int r \<longleftrightarrow> of_int \<lfloor>r\<rfloor> = r"

fun is_integer :: "js_num \<Rightarrow> bool" where
  "is_integer (Num r) = is_int r"
| "is_integer _ = False"

fun is_safe_integer :: "js_num \<Rightarrow> bool" where
  "is_safe_integer (Num r) = (is_int r \<and> \<bar>r\<bar> \<le> of_int max_safe_integer)"
| "is_safe_integer _ = False"

section \<open>Rounding to the nearest double\<close>

definition round_half_even :: "rat \<Rightarrow> int" where
  "round_half_even r =
     (let f = \<lfloor>r\<rfloor>; d = r - of_int f in
      if d < 1/2 then f else if d > 1/2 then f + 1 else if even f then f else f + 1)"

text \<open>The exponent of the last place of a value below 1: at least \<open>2^-1074\<close>.\<close>

fun ulp_below_one :: "nat \<Rightarrow> rat \<Rightarrow> nat \<Rightarrow> nat" where
  "ulp_below_one 0 r k = k"
| "ulp_below_one (Suc fuel) r k =
     (if 2 ^ 52 \<le> r * 2 ^ k \<or> 1074 \<le> k then k else ulp_below_one fuel r (Suc k))"

text \<open>The exponent of the last place of \<open>r > 0\<close>: 53 significant bits.\<close>

definition ulp_exp :: "rat \<Rightarrow> int" where
  "ulp_exp r = (if r < 1 then - int (ulp_below_one 1074 r 0) else int (floorlog 2 (nat \<lfloor>r\<rfloor>)) - 53)"

definition scale2 :: "rat \<Rightarrow> int \<Rightarrow> rat" where
  "scale2 r e = (if 0 \<le> e then r * 2 ^ nat e else r / 2 ^ nat (- e))"

definition round_double :: "rat \<Rightarrow> js_num" where
  "round_double r =
     (if r = 0 then Num 0
      else let a = \<bar>r\<bar>; e = ulp_exp a; m = of_int (round_half_even (scale2 a (- e))); v = scale2 m e in
        if v \<ge> 2 ^ 1024 then Infty (r < 0) else Num (if r < 0 then - v else v))"

section \<open>Literals\<close>

definition all_digits :: "js_string \<Rightarrow> bool" where
  "all_digits s \<longleftrightarrow> s \<noteq> [] \<and> (\<forall>c \<in> set s. is_digit c)"

definition hex_val :: "unit16 \<Rightarrow> nat option" where
  "hex_val c =
     (if 48 \<le> c \<and> c \<le> 57 then Some (unat c - 48)
      else if 97 \<le> c \<and> c \<le> 102 then Some (unat c - 87)
      else if 65 \<le> c \<and> c \<le> 70 then Some (unat c - 55) else None)"

fun radix_value :: "nat \<Rightarrow> nat \<Rightarrow> js_string \<Rightarrow> nat option" where
  "radix_value b acc [] = Some acc"
| "radix_value b acc (c # cs) =
     (case hex_val c of
        Some d \<Rightarrow> if d < b then radix_value b (b * acc + d) cs else None
      | None \<Rightarrow> None)"

text \<open>\<open>[+-]?digits\<close>, the exponent part.\<close>

definition exponent_value :: "js_string \<Rightarrow> int option" where
  "exponent_value s =
     (case s of
        [] \<Rightarrow> None
      | c # cs \<Rightarrow>
          if c = 45 then (if all_digits cs then Some (- int (nat_of_digits cs)) else None)
          else if c = 43 then (if all_digits cs then Some (int (nat_of_digits cs)) else None)
          else if all_digits s then Some (int (nat_of_digits s)) else None)"

definition scale10 :: "rat \<Rightarrow> int \<Rightarrow> rat" where
  "scale10 r e = (if 0 \<le> e then r * 10 ^ nat e else r / 10 ^ nat (- e))"

text \<open>\<open>digits\<close>, \<open>digits.digits\<close>, \<open>.digits\<close> or \<open>digits.\<close>\<close>

definition mantissa_value :: "js_string \<Rightarrow> rat option" where
  "mantissa_value s =
     (case split_on 46 s of
        [a] \<Rightarrow> if all_digits a then Some (of_nat (nat_of_digits a)) else None
      | [a, b] \<Rightarrow>
          if (all_digits a \<or> a = []) \<and> (all_digits b \<or> b = []) \<and> a @ b \<noteq> []
          then Some (of_nat (nat_of_digits (a @ b)) / 10 ^ length b) else None
      | _ \<Rightarrow> None)"

definition unsigned_decimal :: "js_string \<Rightarrow> rat option" where
  "unsigned_decimal s =
     (let m = takeWhile (\<lambda>c. c \<noteq> 101 \<and> c \<noteq> 69) s; rest = drop (length m) s in
      case rest of
        [] \<Rightarrow> mantissa_value m
      | _ # ex \<Rightarrow>
          (case (mantissa_value m, exponent_value ex) of
             (Some v, Some e) \<Rightarrow> Some (scale10 v e)
           | _ \<Rightarrow> None))"

definition decimal_literal :: "js_string \<Rightarrow> js_num" where
  "decimal_literal s =
     (let neg = (s \<noteq> [] \<and> hd s = 45); body = (if s \<noteq> [] \<and> (hd s = 45 \<or> hd s = 43) then tl s else s) in
      if body = js ''Infinity'' then Infty neg
      else case unsigned_decimal body of
        Some v \<Rightarrow> round_double (if neg then - v else v)
      | None \<Rightarrow> NaN)"

definition radix_literal :: "nat \<Rightarrow> js_string \<Rightarrow> js_num" where
  "radix_literal b s =
     (if s = [] then NaN
      else case radix_value b 0 s of Some n \<Rightarrow> round_double (of_nat n) | None \<Rightarrow> NaN)"

definition to_number :: "js_string \<Rightarrow> js_num" where
  "to_number str =
     (let s = trim str in
      if s = [] then Num 0
      else if 2 \<le> length s \<and> hd s = 48 \<and> (s ! 1 = 120 \<or> s ! 1 = 88) then radix_literal 16 (drop 2 s)
      else if 2 \<le> length s \<and> hd s = 48 \<and> (s ! 1 = 111 \<or> s ! 1 = 79) then radix_literal 8 (drop 2 s)
      else if 2 \<le> length s \<and> hd s = 48 \<and> (s ! 1 = 98 \<or> s ! 1 = 66) then radix_literal 2 (drop 2 s)
      else decimal_literal s)"

lemma is_int_of_nat [simp]: "is_int (of_nat n)" and is_int_of_int [simp]: "is_int (of_int i)"
  by (simp_all add: is_int_def)

section \<open>Integers below \<open>2^53\<close> are read exactly\<close>

lemma round_half_even_of_int [simp]: "round_half_even (of_int i) = i"
  by (simp add: round_half_even_def Let_def)

lemma ulp_exp_nat_nonpos:
  assumes "0 < n" and "n < 2 ^ 53"
  shows "ulp_exp (of_nat n) \<le> 0"
proof -
  have "floorlog 2 n \<le> 53" using assms by (simp add: floorlog_leI)
  with assms show ?thesis by (simp add: ulp_exp_def)
qed

lemma round_double_nat:
  assumes "n < 2 ^ 53"
  shows "round_double (of_nat n) = Num (of_nat n)"
proof (cases "n = 0")
  case False
  define e where "e = ulp_exp (of_nat n)"
  have e: "e \<le> 0" using assms False ulp_exp_nat_nonpos e_def by simp
  have up: "scale2 (of_nat n) (- e) = of_int (int n * 2 ^ nat (- e))"
    using e by (simp add: scale2_def)
  have down: "scale2 (of_int (int n * 2 ^ nat (- e))) e = of_nat n"
    using e by (cases "e = 0") (simp_all add: scale2_def)
  have small: "\<not> (2 ^ 1024 \<le> (of_nat n :: rat))"
  proof -
    have "n < 2 ^ 1024" by (rule order_less_le_trans [OF assms]) (rule power_increasing, simp_all)
    then show ?thesis by (metis not_le of_nat_less_iff of_nat_numeral of_nat_power)
  qed
  show ?thesis
    unfolding round_double_def Let_def using False small
    by (simp add: e_def [symmetric] up down del: of_int_mult)
qed (simp add: round_double_def)

lemma digits_of_hd_zero: "digits_of n = 48 # s \<Longrightarrow> n = 0 \<and> s = []"
proof (induction n arbitrary: s rule: digits_of.induct)
  case (1 n)
  show ?case
  proof (cases "n < 10")
    case True
    have "(of_nat (48 + n) :: unit16) = 48 \<Longrightarrow> n = 0"
      using arg_cong [where f = unat, of "of_nat (48 + n) :: unit16" 48] unat_digit [OF True]
      by (simp del: of_nat_add)
    with "1.prems" True show ?thesis by (simp add: digits_of_small del: of_nat_add)
  next
    case False
    then have eq: "digits_of n = digits_of (n div 10) @ [of_nat (48 + n mod 10)]"
      by (simp add: digits_of.simps [of n])
    then obtain t where "digits_of (n div 10) = 48 # t"
      using "1.prems" by (metis append_eq_Cons_conv digits_of_ne)
    then have "n div 10 = 0" using "1.IH" [OF False] by blast
    with False show ?thesis by simp
  qed
qed

lemma is_digit_not_space: "is_digit c \<Longrightarrow> \<not> is_space c"
  by (auto simp: is_digit_def is_space_def word_le_nat_alt)

lemma digit_neqs:
  "is_digit c \<Longrightarrow> c \<noteq> 45" "is_digit c \<Longrightarrow> c \<noteq> 43" "is_digit c \<Longrightarrow> c \<noteq> 46"
  "is_digit c \<Longrightarrow> c \<noteq> 101" "is_digit c \<Longrightarrow> c \<noteq> 69" "is_digit c \<Longrightarrow> c \<noteq> 120" "is_digit c \<Longrightarrow> c \<noteq> 88"
  "is_digit c \<Longrightarrow> c \<noteq> 111" "is_digit c \<Longrightarrow> c \<noteq> 79" "is_digit c \<Longrightarrow> c \<noteq> 98" "is_digit c \<Longrightarrow> c \<noteq> 66"
  "is_digit c \<Longrightarrow> c \<noteq> 58" "is_digit c \<Longrightarrow> c \<noteq> 73"
  by (auto simp: is_digit_def)

lemma all_digits_digits_of [simp]: "all_digits (digits_of n)"
  by (auto simp: all_digits_def digits_of_digits)

lemma trim_all_digits: "all_digits s \<Longrightarrow> trim s = s"
  by (rule trim_id) (auto simp: all_digits_def is_digit_not_space)

lemma unsigned_decimal_digits:
  assumes "all_digits s"
  shows "unsigned_decimal s = Some (of_nat (nat_of_digits s))"
proof -
  have whole: "takeWhile (\<lambda>c. c \<noteq> 101 \<and> c \<noteq> 69) s = s"
    using assms by (auto simp: takeWhile_eq_all_conv all_digits_def dest: digit_neqs)
  have "split_on 46 s = [s]"
    using assms by (intro split_on_single) (auto simp: all_digits_def dest: digit_neqs)
  then show ?thesis
    using assms unfolding unsigned_decimal_def whole Let_def by (simp add: mantissa_value_def)
qed

lemma to_number_digits_of:
  assumes "n < 2 ^ 53"
  shows "to_number (digits_of n) = Num (of_nat n)"
proof -
  let ?s = "digits_of n"
  have dig: "\<forall>c \<in> set ?s. is_digit c" and ne: "?s \<noteq> []"
    by (auto simp: digits_of_digits)
  have trim: "trim ?s = ?s" by (rule trim_all_digits) simp
  have noprefix: "\<not> (2 \<le> length ?s \<and> hd ?s = 48)"
  proof
    assume a: "2 \<le> length ?s \<and> hd ?s = 48"
    then obtain t where "?s = 48 # t" using ne by (metis list.exhaust_sel)
    with digits_of_hd_zero a show False by force
  qed
  have hd: "is_digit (hd ?s)" using dig ne by simp
  have "?s \<noteq> js ''Infinity''"
    using hd by (auto simp: js_def is_digit_def)
  then have "decimal_literal ?s = Num (of_nat n)"
    using hd digit_neqs unsigned_decimal_digits [of ?s] round_double_nat [OF assms]
    by (auto simp: decimal_literal_def Let_def)
  then show ?thesis
    unfolding to_number_def Let_def trim using ne noprefix by (simp only: simp_thms if_False) auto
qed

lemma to_number_digits:
  assumes "all_digits s" and "nat_of_digits s < 2 ^ 53"
  shows "to_number s = Num (of_nat (nat_of_digits s))"
proof -
  have dig: "\<forall>c \<in> set s. is_digit c" and ne: "s \<noteq> []" using assms(1) by (simp_all add: all_digits_def)
  have trim: "trim s = s" by (rule trim_all_digits) (rule assms(1))
  have noprefix: "2 \<le> length s \<Longrightarrow> s ! 1 \<notin> {120, 88, 111, 79, 98, 66}"
  proof
    assume "2 \<le> length s" and bad: "s ! 1 \<in> {120, 88, 111, 79, 98, 66}"
    then have "is_digit (s ! 1)" using dig by simp
    with bad show False by (auto simp: is_digit_def)
  qed
  have hd: "is_digit (hd s)" using dig ne by simp
  have "s \<noteq> js ''Infinity''" using hd by (auto simp: js_def is_digit_def)
  then have "decimal_literal s = Num (of_nat (nat_of_digits s))"
    using hd digit_neqs unsigned_decimal_digits [OF assms(1)] round_double_nat [OF assms(2)]
    by (auto simp: decimal_literal_def Let_def)
  then show ?thesis
    unfolding to_number_def Let_def trim using ne noprefix by auto
qed

end
