(* ===== verification/Authority.thy ===== *)
theory Authority
  imports JsPattern JsNumber
begin

text \<open>
  What a caller may do: the integration tool grants and their approvals
  (\<open>packages/core/src/integration-policy.ts\<close>), the authority of a paired device
  (\<open>packages/core/src/remote-policy.ts\<close>), and the authority, locality and token floor of a
  delegation (\<open>packages/core/src/delegation-policy.ts\<close> with the resolver of
  \<open>packages/contracts/src/domain.ts\<close>). The three places that intersect layers of rights keep one
  contract, the locale \<open>authority_ceiling\<close>. \<open>toLowerCase\<close> and the URL parser are parameters.
\<close>

section \<open>The contract of an intersection of rights\<close>

locale authority_ceiling =
  fixes layers :: "'cfg \<Rightarrow> 'a set list"
    and effective :: "'cfg \<Rightarrow> 'a list"
  assumes effective_set: "set (effective cfg) = (if layers cfg = [] then {} else \<Inter> (set (layers cfg)))"
    and effective_distinct: "distinct (effective cfg)"
begin

lemma within_every_layer: "x \<in> set (effective cfg) \<Longrightarrow> l \<in> set (layers cfg) \<Longrightarrow> x \<in> l"
  by (auto simp: effective_set split: if_splits)

lemma granted_iff: "layers cfg \<noteq> [] \<Longrightarrow> x \<in> set (effective cfg) \<longleftrightarrow> (\<forall>l \<in> set (layers cfg). x \<in> l)"
  by (simp add: effective_set)

lemma revoked_anywhere: "l \<in> set (layers cfg) \<Longrightarrow> x \<notin> l \<Longrightarrow> x \<notin> set (effective cfg)"
  using within_every_layer by blast

lemma narrowing:
  assumes "list_all2 (\<subseteq>) (layers cfg) (layers cfg')"
  shows "set (effective cfg) \<subseteq> set (effective cfg')"
proof
  fix x
  assume x: "x \<in> set (effective cfg)"
  then have ne: "layers cfg \<noteq> []" by (auto simp: effective_set split: if_splits)
  then have ne': "layers cfg' \<noteq> []" using assms by auto
  have "x \<in> l'" if "l' \<in> set (layers cfg')" for l'
  proof -
    from that obtain i where i: "i < length (layers cfg')" "layers cfg' ! i = l'"
      by (auto simp: in_set_conv_nth)
    with assms have "layers cfg ! i \<subseteq> l'" "i < length (layers cfg)"
      by (auto simp: list_all2_conv_all_nth)
    with within_every_layer [OF x] show ?thesis by (meson nth_mem subsetD)
  qed
  with ne' show "x \<in> set (effective cfg')" by (simp add: effective_set)
qed

end

section \<open>Integration tools\<close>

definition effectiveTools :: "'a list \<Rightarrow> 'a list \<Rightarrow> 'a list \<Rightarrow> 'a list" where
  "effectiveTools vendorTools spaceGrant botAllowlist =
     filter (\<lambda>i. i \<in> set spaceGrant \<and> i \<in> set botAllowlist) (uniq vendorTools)"

definition effectiveMcpGrantTools ::
    "js_string list \<Rightarrow> js_string list \<Rightarrow> js_string list \<Rightarrow> js_string option \<Rightarrow> bool \<Rightarrow> js_string list" where
  "effectiveMcpGrantTools offered spaceAllowed botAllowed access capturedManifest =
     (let bot = (if access = Some (js ''inherit'') then spaceAllowed else botAllowed) in
      effectiveTools offered (if capturedManifest then spaceAllowed else bot) bot)"

interpretation tools: authority_ceiling
  "\<lambda>(vendor, space, bot). [set vendor, set space, set bot]"
  "\<lambda>(vendor, space, bot). effectiveTools vendor space bot"
  by unfold_locales (auto simp: effectiveTools_def)

definition write_words :: "string list" where
  "write_words =
     [''comment'', ''post'', ''create'', ''merge'', ''deploy'', ''delete'', ''update'', ''transition'',
      ''trigger'', ''cancel'', ''write'', ''remove'', ''send'', ''execute'', ''mutat'', ''publish'',
      ''archive'', ''approve'', ''assign'', ''edit'', ''patch'', ''upload'', ''push'', ''commit'',
      ''revoke'', ''grant'']"

definition write_pattern :: pat where
  "write_pattern = p_alts (map p_lit_i write_words)"

definition read_words :: "string list" where
  "read_words = [''get'', ''list'', ''search'', ''find'', ''read'', ''fetch'']"

datatype tool_kind = Tool_read | Tool_write

definition integrationToolKind :: "js_string \<Rightarrow> js_string \<Rightarrow> tool_kind" where
  "integrationToolKind tool_id description =
     (if \<not> regex_test write_pattern (tool_id @ js '' '' @ description) \<and>
         regex_test (p_alts (map p_lit_i read_words)) tool_id
      then Tool_read else Tool_write)"

datatype tool_approval = Ask_first | Tool_allow | Tool_disabled
datatype tool_risk = Reviewed_read | Risk_write | Risk_unknown

record tool_policy =
  approval :: tool_approval
  risk :: tool_risk

record integration_descriptor =
  available :: bool
  toolPolicies :: "js_string \<rightharpoonup> tool_policy"

text \<open>An argument is a string or some other JSON value.\<close>

datatype arg_value = Arg_string js_string | Arg_other

definition selector_words :: "string list" where
  "selector_words = [''action'', ''operation'', ''method'', ''command'']"

definition selects_write :: "js_string \<times> arg_value \<Rightarrow> bool" where
  "selects_write entry =
     (full_match (p_alts (map p_lit_i selector_words)) (fst entry) \<and>
      (case snd entry of
         Arg_string v \<Rightarrow> \<not> full_match (p_alts (map p_lit_i read_words)) v
       | Arg_other \<Rightarrow> True))"

definition approvalFor ::
    "integration_descriptor \<Rightarrow> js_string \<Rightarrow> (js_string \<times> arg_value) list \<Rightarrow> js_string \<Rightarrow>
     (js_string \<rightharpoonup> tool_approval) \<Rightarrow> tool_approval" where
  "approvalFor descriptor toolId args description spaceToolPolicies =
     (if \<not> available descriptor then Tool_disabled
      else let policy = toolPolicies descriptor toolId in
        if map_option approval policy = Some Tool_disabled then Tool_disabled
        else if regex_test write_pattern (toolId @ js '' '' @ description) then Ask_first
        else if list_ex selects_write args then Ask_first
        else if map_option approval policy = Some Tool_allow \<and> map_option risk policy = Some Reviewed_read
        then Tool_allow
        else if integrationToolKind toolId description = Tool_read \<and>
                spaceToolPolicies toolId = Some Tool_allow
        then Tool_allow else Ask_first)"

section \<open>Paired devices\<close>

datatype device_scope =
    Scope_read | Scope_dispatch | Scope_steer | Scope_stop | Scope_approve | Scope_ordinary
  | Scope_consequential | Scope_delegate

definition all_device_scopes :: "device_scope list" where
  "all_device_scopes = [Scope_read, Scope_dispatch, Scope_steer, Scope_stop, Scope_approve,
     Scope_ordinary, Scope_consequential, Scope_delegate]"

record remote_authority =
  home :: "device_scope list"
  space_layer :: "device_scope list"
  bot_layer :: "device_scope list"
  user_layer :: "device_scope list"
  device :: "device_scope list"

definition authority_values :: "remote_authority \<Rightarrow> device_scope list list" where
  "authority_values a = [home a, space_layer a, bot_layer a, user_layer a, device a]"

definition effectiveRemoteAuthority :: "remote_authority \<Rightarrow> device_scope list" where
  "effectiveRemoteAuthority authority =
     filter (\<lambda>scope. list_all (\<lambda>layer. scope \<in> set layer) (authority_values authority)) all_device_scopes"

lemma all_device_scopes_UNIV: "set all_device_scopes = UNIV"
proof
  show "UNIV \<subseteq> set all_device_scopes"
  proof
    fix s
    show "s \<in> set all_device_scopes" by (cases s) (simp_all add: all_device_scopes_def)
  qed
qed simp

interpretation remote: authority_ceiling "\<lambda>a. map set (authority_values a)" effectiveRemoteAuthority
proof unfold_locales
  fix a
  show "set (effectiveRemoteAuthority a) =
      (if map set (authority_values a) = [] then {} else \<Inter> (set (map set (authority_values a))))"
    by (auto simp: effectiveRemoteAuthority_def all_device_scopes_UNIV list_all_iff authority_values_def)
  show "distinct (effectiveRemoteAuthority a)"
    unfolding effectiveRemoteAuthority_def
    by (rule distinct_filter) (simp add: all_device_scopes_def)
qed

definition remote_presence_max_age_ms :: int where
  "remote_presence_max_age_ms = 10 * 60000"

definition ordinary_tools :: "string list" where
  "ordinary_tools =
     [''board_ready'', ''board_show'', ''computer_observe'', ''browser_snapshot'', ''list_files'',
      ''read_file'', ''read_comparison_artifact'', ''web_search'', ''web_fetch'', ''recall_memory'',
      ''scratchpad_list'', ''skill_read'', ''schedule_list'', ''cloud_agent_status'', ''ask_user'',
      ''request_takeover'', ''message_user'', ''report_progress'', ''attach_artifact'',
      ''complete_task'', ''run_subagent'', ''message_bot'', ''spawn_bot'', ''handoff_to_bot'',
      ''ask_members'']"

definition delegation_tools :: "string list" where
  "delegation_tools =
     [''run_subagent'', ''message_bot'', ''spawn_bot'', ''handoff_to_bot'', ''ask_members'']"

definition forbidden_tools :: "string list" where
  "forbidden_tools =
     [''add_mcp_server'', ''cloud_agent_launch'', ''cloud_agent_reply'', ''create_space'',
      ''connect_agent'', ''respond_agent_connection'', ''message_agent'', ''schedule_create'',
      ''secret_request'', ''request_secret'', ''forget_secret'', ''enrol_connector'',
      ''pair_device'', ''set_tool_policy'', ''always_allow'', ''update_bot'']"

definition in_table :: "string list \<Rightarrow> js_string \<Rightarrow> bool" where
  "in_table table s \<longleftrightarrow> s \<in> set (map js table)"

definition p_separator :: pat where
  "p_separator = p_unit (\<lambda>c. c = 46 \<or> c = 95 \<or> c = 45)"

definition expansion_pattern :: pat where
  "expansion_pattern = p_seqs
     [p_alt p_bol p_separator,
      p_alts [p_lit_i ''pairing'',
              p_seqs [p_lit_i ''enrol'', p_opt (p_lit_i ''l'')],
              p_seqs [p_lit_i ''polic'', p_alts [p_lit_i ''y'', p_lit_i ''ies'']],
              p_seqs [p_lit_i ''permission'', p_opt (p_lit_i ''s'')],
              p_seqs [p_lit_i ''credential'', p_opt (p_lit_i ''s'')],
              p_lit_i ''always_allow''],
      p_alt p_separator p_eol]"

definition remotePermissionExpansion :: "js_string \<Rightarrow> bool" where
  "remotePermissionExpansion tool \<longleftrightarrow> in_table forbidden_tools tool \<or> regex_test expansion_pattern tool"

datatype remote_class = Ordinary | Consequential

definition classifyRemoteTool :: "js_string \<Rightarrow> remote_class" where
  "classifyRemoteTool tool = (if in_table ordinary_tools tool then Ordinary else Consequential)"

fun class_scope :: "remote_class \<Rightarrow> device_scope" where
  "class_scope Ordinary = Scope_ordinary"
| "class_scope Consequential = Scope_consequential"

datatype denial_reason = Device_revoked | Change_at_home | Needs_home_approval | Confirm_presence

text \<open>A denial for want of authority is settled at the desktop, one for presence on the phone.\<close>

datatype remote_decision = Remote_allowed | Denied_authority denial_reason | Denied_presence denial_reason

record remote_call =
  tool :: js_string
  authority :: remote_authority
  revoked :: bool
  lastPresenceAt :: "int option"
  now_ms :: int

definition presence_stale :: "remote_call \<Rightarrow> bool" where
  "presence_stale c =
     (case lastPresenceAt c of
        None \<Rightarrow> True
      | Some t \<Rightarrow> t > now_ms c \<or> now_ms c - t \<ge> remote_presence_max_age_ms)"

definition checkRemoteTool :: "remote_call \<Rightarrow> remote_decision" where
  "checkRemoteTool c =
     (if revoked c then Denied_authority Device_revoked
      else if remotePermissionExpansion (tool c) then Denied_authority Change_at_home
      else let scopes = effectiveRemoteAuthority (authority c) in
        if Scope_dispatch \<notin> set scopes \<or> class_scope (classifyRemoteTool (tool c)) \<notin> set scopes \<or>
           in_table delegation_tools (tool c) \<and> Scope_delegate \<notin> set scopes
        then Denied_authority Needs_home_approval
        else if classifyRemoteTool (tool c) = Consequential \<and> presence_stale c
        then Denied_presence Confirm_presence
        else Remote_allowed)"

section \<open>Delegations\<close>

record delegation_authority =
  scopes :: "js_string list"
  connectors :: "js_string list"

definition intersect_key ::
    "(delegation_authority \<Rightarrow> js_string list) \<Rightarrow> delegation_authority list \<Rightarrow> js_string list" where
  "intersect_key key ls =
     filter (\<lambda>v. list_all (\<lambda>layer. v \<in> set (key layer)) ls)
       (uniq (case ls of [] \<Rightarrow> [] | l # _ \<Rightarrow> key l))"

definition intersectDelegationAuthority :: "delegation_authority list \<Rightarrow> delegation_authority" where
  "intersectDelegationAuthority ls =
     \<lparr>scopes = intersect_key scopes ls, connectors = intersect_key connectors ls\<rparr>"

lemma intersect_key_ceiling:
  "set (intersect_key key ls) =
     (if map (set \<circ> key) ls = [] then {} else \<Inter> (set (map (set \<circ> key) ls)))"
  by (cases ls) (auto simp: intersect_key_def list_all_iff)

lemma distinct_intersect_key: "distinct (intersect_key key ls)"
  by (simp add: intersect_key_def)

interpretation delegation_scopes: authority_ceiling
  "map (set \<circ> scopes)" "\<lambda>ls. scopes (intersectDelegationAuthority ls)"
  by unfold_locales (simp_all add: intersectDelegationAuthority_def intersect_key_ceiling
      distinct_intersect_key)

interpretation delegation_connectors: authority_ceiling
  "map (set \<circ> connectors)" "\<lambda>ls. connectors (intersectDelegationAuthority ls)"
  by unfold_locales (simp_all add: intersectDelegationAuthority_def intersect_key_ceiling
      distinct_intersect_key)

datatype locality_policy = Any_destination | Local_only | Hosts "js_string list"

record model_destination =
  host :: "js_string option"
  local_host :: bool

definition allowsModelDestination ::
    "(js_string \<Rightarrow> js_string) \<Rightarrow> locality_policy \<Rightarrow> model_destination \<Rightarrow> bool" where
  "allowsModelDestination lower policy destination =
     (case policy of
        Any_destination \<Rightarrow> True
      | Local_only \<Rightarrow> local_host destination \<and> host destination \<noteq> None
      | Hosts hosts \<Rightarrow>
          (case host destination of
             None \<Rightarrow> False
           | Some h \<Rightarrow> list_ex (\<lambda>x. lower x = lower h) hosts))"

definition p_octet :: pat where
  "p_octet = p_alts
     [p_seqs [p_unit is_digit, p_unit is_digit, p_unit is_digit],
      p_seqs [p_unit is_digit, p_unit is_digit], p_unit is_digit]"

definition loopback_pattern :: pat where
  "loopback_pattern = p_seqs
     [p_lit ''127.'', p_octet, p_lit ''.'', p_octet, p_lit ''.'', p_octet]"

text \<open>\<open>parse_url\<close> gives the protocol and the host name of an absolute URL, or fails.\<close>

definition modelDestination ::
    "(js_string \<Rightarrow> js_string) \<Rightarrow> (js_string \<Rightarrow> (js_string \<times> js_string) option) \<Rightarrow> js_string option \<Rightarrow> model_destination" where
  "modelDestination lower parse_url endpoint =
     (case parse_url (case endpoint of Some e \<Rightarrow> e | None \<Rightarrow> []) of
        None \<Rightarrow> \<lparr>host = None, local_host = False\<rparr>
      | Some (scheme, domain) \<Rightarrow>
          if scheme \<noteq> js ''http:'' \<and> scheme \<noteq> js ''https:'' then \<lparr>host = None, local_host = False\<rparr>
          else let h = lower domain in
            \<lparr>host = Some h,
             local_host = (h = js ''localhost'' \<or> h = js ''[::1]'' \<or> full_match loopback_pattern h)\<rparr>)"

definition default_model_max_tokens :: rat where
  "default_model_max_tokens = 4096"

definition reasoning_model_max_tokens :: rat where
  "reasoning_model_max_tokens = 32768"

definition default_model_context_window :: rat where
  "default_model_context_window = 32768"

definition resolveCompletionMaxTokens ::
    "rat option \<Rightarrow> rat option \<Rightarrow> rat option \<Rightarrow> bool option \<Rightarrow> rat" where
  "resolveCompletionMaxTokens modelMaxTokens configuredMaxTokens optionsMaxTokens reasoning =
     (let userCap = (case configuredMaxTokens of
            Some c \<Rightarrow> if c \<ge> 1 then c
              else if reasoning = Some True then reasoning_model_max_tokens else default_model_max_tokens
          | None \<Rightarrow> if reasoning = Some True then reasoning_model_max_tokens else default_model_max_tokens);
          optionCap = (case optionsMaxTokens of
            Some x \<Rightarrow> if x \<ge> 1 then min x userCap else userCap
          | None \<Rightarrow> userCap)
      in case modelMaxTokens of
           Some m \<Rightarrow> if m \<ge> 1 then min m optionCap else optionCap
         | None \<Rightarrow> optionCap)"

record reservation_limits =
  contextWindow :: "rat option"
  modelMaxTokens :: "rat option"
  configuredMaxTokens :: "rat option"
  reasoning :: "bool option"

definition minimumDelegationReservation :: "reservation_limits \<Rightarrow> rat" where
  "minimumDelegationReservation limits =
     (let context_tokens = (case contextWindow limits of
            Some w \<Rightarrow> if is_safe_integer (Num w) \<and> w > 0 then min w default_model_context_window
              else default_model_context_window
          | None \<Rightarrow> default_model_context_window)
      in context_tokens + resolveCompletionMaxTokens (modelMaxTokens limits) (configuredMaxTokens limits)
           None (reasoning limits))"

record delegation_snapshot =
  pin_provider :: "js_string option"
  pin_modelId :: "js_string option"
  pin_effort :: "js_string option"
  pin_credentialId :: "js_string option"
  pin_runtimeKind :: "js_string option"
  computer_id :: "js_string option"
  computer_dedicated :: bool
  computer_kind :: "js_string option"

text \<open>Whether a delegation is announced to the owner as running elsewhere or on another model.\<close>

definition delegationDiffers :: "delegation_snapshot \<Rightarrow> delegation_snapshot \<Rightarrow> bool" where
  "delegationDiffers parent target \<longleftrightarrow>
     (pin_provider parent \<noteq> pin_provider target \<or> pin_modelId parent \<noteq> pin_modelId target \<or>
      pin_effort parent \<noteq> pin_effort target \<or> pin_credentialId parent \<noteq> pin_credentialId target \<or>
      pin_runtimeKind parent \<noteq> pin_runtimeKind target) \<or>
     (computer_id parent \<noteq> computer_id target \<or>
      computer_dedicated parent \<noteq> computer_dedicated target \<or>
      computer_kind parent \<noteq> computer_kind target)"

definition str_or_null :: "js_string option \<Rightarrow> js_string" where
  "str_or_null v = (case v of Some s \<Rightarrow> s | None \<Rightarrow> js ''null'')"

definition delegationDifferences ::
    "delegation_snapshot \<Rightarrow> delegation_snapshot \<Rightarrow> js_string \<Rightarrow> js_string list" where
  "delegationDifferences parent target name =
     (if \<not> delegationDiffers parent target then []
      else [name @ js '' runs on '' @ str_or_null (pin_modelId target) @ js '' ('' @
            str_or_null (pin_provider target) @ js '') at '' @ str_or_null (pin_effort target) @
            js '', on '' @ (if computer_dedicated target then js ''a dedicated'' else js ''a team'') @
            js '' computer'' @
            (if pin_credentialId parent \<noteq> pin_credentialId target
             then js '', using a different connection'' else []) @
            (if pin_runtimeKind parent \<noteq> pin_runtimeKind target
             then js '', with '' @ (case pin_runtimeKind target of Some k \<Rightarrow> k | None \<Rightarrow> js ''pi'') else []) @
            js ''.''])"

section \<open>Properties\<close>

text \<open>
  C11. A paired device's tool call runs exactly when the device is not revoked, the tool does not
  change permissions or connections, all five layers of authority (home, space, bot, user, device)
  grant dispatch and the tool's class (and delegation, for a delegating tool), and for a
  consequential tool the person confirmed their presence less than ten minutes ago and not in the
  future.
\<close>

theorem remote_tool_allowed_iff:
  "checkRemoteTool c = Remote_allowed \<longleftrightarrow>
     \<not> revoked c \<and> \<not> remotePermissionExpansion (tool c) \<and>
     (\<forall>layer \<in> set (authority_values (authority c)).
        Scope_dispatch \<in> set layer \<and> class_scope (classifyRemoteTool (tool c)) \<in> set layer \<and>
        (in_table delegation_tools (tool c) \<longrightarrow> Scope_delegate \<in> set layer)) \<and>
     (classifyRemoteTool (tool c) = Consequential \<longrightarrow>
        (\<exists>t. lastPresenceAt c = Some t \<and> t \<le> now_ms c \<and> now_ms c - t < 600000))"
proof -
  have grant: "s \<in> set (effectiveRemoteAuthority a) \<longleftrightarrow> (\<forall>layer \<in> set (authority_values a). s \<in> set layer)" for s a
    using remote.granted_iff [of a s] by (simp add: authority_values_def)
  have stale: "\<not> presence_stale c \<longleftrightarrow>
      (\<exists>t. lastPresenceAt c = Some t \<and> t \<le> now_ms c \<and> now_ms c - t < 600000)"
    by (auto simp: presence_stale_def remote_presence_max_age_ms_def split: option.splits)
  show ?thesis
    unfolding stale [symmetric] by (auto simp: checkRemoteTool_def Let_def grant)
qed

definition sample_remote_call :: remote_call where
  "sample_remote_call = \<lparr>tool = js ''shell'',
     authority = \<lparr>home = [Scope_dispatch, Scope_consequential], space_layer = [Scope_dispatch, Scope_consequential],
       bot_layer = [Scope_dispatch, Scope_consequential], user_layer = [Scope_dispatch, Scope_consequential],
       device = [Scope_dispatch, Scope_consequential]\<rparr>,
     revoked = False, lastPresenceAt = Some 1000, now_ms = 600999\<rparr>"

theorem remote_tool_allowed_iff_witness: "checkRemoteTool sample_remote_call = Remote_allowed"
proof -
  have "\<not> remotePermissionExpansion (js ''shell'')" by code_simp
  then show ?thesis
    unfolding remote_tool_allowed_iff
    by (simp add: sample_remote_call_def authority_values_def classifyRemoteTool_def in_table_def
        ordinary_tools_def delegation_tools_def)
qed

text \<open>
  Taking a right away from any layer of a delegation takes it from the delegated authority,
  and shrinking layers never enlarges the result: what a delegate gets lies within every layer.
\<close>

theorem delegation_never_widens:
  "(l \<in> set ls \<longrightarrow>
     set (scopes (intersectDelegationAuthority ls)) \<subseteq> set (scopes l) \<and>
     set (connectors (intersectDelegationAuthority ls)) \<subseteq> set (connectors l)) \<and>
   (list_all2 (\<lambda>a b. set (scopes a) \<subseteq> set (scopes b) \<and> set (connectors a) \<subseteq> set (connectors b)) ls ls' \<longrightarrow>
     set (scopes (intersectDelegationAuthority ls)) \<subseteq> set (scopes (intersectDelegationAuthority ls')) \<and>
     set (connectors (intersectDelegationAuthority ls)) \<subseteq> set (connectors (intersectDelegationAuthority ls')))"
proof (intro conjI impI)
  assume "l \<in> set ls"
  then show "set (scopes (intersectDelegationAuthority ls)) \<subseteq> set (scopes l)"
    and "set (connectors (intersectDelegationAuthority ls)) \<subseteq> set (connectors l)"
    using delegation_scopes.within_every_layer [of _ ls "set (scopes l)"]
      delegation_connectors.within_every_layer [of _ ls "set (connectors l)"] by auto
next
  assume "list_all2 (\<lambda>a b. set (scopes a) \<subseteq> set (scopes b) \<and> set (connectors a) \<subseteq> set (connectors b)) ls ls'"
  then have "list_all2 (\<subseteq>) (map (set \<circ> scopes) ls) (map (set \<circ> scopes) ls')"
    and "list_all2 (\<subseteq>) (map (set \<circ> connectors) ls) (map (set \<circ> connectors) ls')"
    by (auto simp: list_all2_conv_all_nth)
  then show "set (scopes (intersectDelegationAuthority ls)) \<subseteq> set (scopes (intersectDelegationAuthority ls'))"
    and "set (connectors (intersectDelegationAuthority ls)) \<subseteq> set (connectors (intersectDelegationAuthority ls'))"
    using delegation_scopes.narrowing delegation_connectors.narrowing by auto
qed

theorem delegation_never_widens_witness:
  "set (scopes (intersectDelegationAuthority
      [\<lparr>scopes = [js ''a'', js ''b''], connectors = []\<rparr>, \<lparr>scopes = [js ''b''], connectors = []\<rparr>])) \<subseteq> {js ''b''}"
  using delegation_never_widens
    [of "\<lparr>scopes = [js ''b''], connectors = []\<rparr>"
        "[\<lparr>scopes = [js ''a'', js ''b''], connectors = []\<rparr>, \<lparr>scopes = [js ''b''], connectors = []\<rparr>]"]
  by simp

text \<open>
  An integration call is let through without asking exactly when the integration is available
  and the tool not disabled, neither its id nor its description has a write word, no argument
  selects a write, and it is either a reviewed read the integration allows or a tool with a read
  word that the space allows by name.
\<close>

theorem integration_allow_iff:
  "approvalFor d t args desc spol = Tool_allow \<longleftrightarrow>
     available d \<and> map_option approval (toolPolicies d t) \<noteq> Some Tool_disabled \<and>
     \<not> regex_test write_pattern (t @ js '' '' @ desc) \<and> (\<forall>e \<in> set args. \<not> selects_write e) \<and>
     (toolPolicies d t = Some \<lparr>approval = Tool_allow, risk = Reviewed_read\<rparr> \<or>
      regex_test (p_alts (map p_lit_i read_words)) t \<and> spol t = Some Tool_allow)"
proof -
  have pol: "map_option approval (toolPolicies d t) = Some Tool_allow \<and>
      map_option risk (toolPolicies d t) = Some Reviewed_read \<longleftrightarrow>
      toolPolicies d t = Some \<lparr>approval = Tool_allow, risk = Reviewed_read\<rparr>"
    by (cases "toolPolicies d t") auto
  show ?thesis
    unfolding approvalFor_def Let_def pol
    by (auto simp: integrationToolKind_def list_ex_iff)
qed

theorem integration_allow_iff_witness:
  "approvalFor \<lparr>available = True, toolPolicies = Map.empty\<rparr> (js ''pages_get'')
     [(js ''action'', Arg_string (js ''LIST''))] (js ''Reads'') [js ''pages_get'' \<mapsto> Tool_allow] = Tool_allow"
proof -
  have "\<not> regex_test write_pattern (js ''pages_get'' @ js '' '' @ js ''Reads'')"
    and "\<not> selects_write (js ''action'', Arg_string (js ''LIST''))"
    and "regex_test (p_alts (map p_lit_i read_words)) (js ''pages_get'')" by code_simp+
  then show ?thesis unfolding integration_allow_iff by simp
qed

text \<open>
  The token floor of a delegation is one context and one output: more than the one token an
  output needs at least, at most the standard window plus the largest of the configured cap and the
  default caps, and never lowered by turning reasoning on.
\<close>

theorem delegation_reservation_bounds:
  "0 < minimumDelegationReservation rl \<and>
   minimumDelegationReservation rl
     \<le> 32768 + max 32768 (case configuredMaxTokens rl of Some c \<Rightarrow> c | None \<Rightarrow> 0) \<and>
   minimumDelegationReservation (rl\<lparr>reasoning := Some False\<rparr>)
     \<le> minimumDelegationReservation (rl\<lparr>reasoning := Some True\<rparr>)"
  by (auto simp: minimumDelegationReservation_def resolveCompletionMaxTokens_def Let_def
      default_model_context_window_def default_model_max_tokens_def reasoning_model_max_tokens_def
      min_def max_def split: option.splits)

end
