(* ===== verification/Chief_Policy.thy ===== *)
theory Chief_Policy
  imports JsPattern
begin

text \<open>
  The chief of a room (\<open>packages/core/src/chief-loop-policy.ts\<close>): which rule an operation falls
  under, which member is chosen for it, how an owner's message is read as an intent or a
  correction, and the control record that corrections revise and dispatch obeys. Case mapping
  (\<open>lower\<close>) and \<open>localeCompare\<close> (\<open>collate\<close>) are parameters.
\<close>

section \<open>Comparison functions\<close>

text \<open>What a sort relies on: the sign of a comparison flips with its arguments, and \<open>\<le>\<close> chains.\<close>

definition comparator :: "('a \<Rightarrow> 'a \<Rightarrow> int) \<Rightarrow> bool" where
  "comparator c \<longleftrightarrow> (\<forall>x y. sgn (c x y) = - sgn (c y x)) \<and>
     (\<forall>x y z. c x y \<le> 0 \<longrightarrow> c y z \<le> 0 \<longrightarrow> c x z \<le> 0)"

definition lex_cmp :: "('a \<Rightarrow> 'a \<Rightarrow> int) \<Rightarrow> ('a \<Rightarrow> 'a \<Rightarrow> int) \<Rightarrow> 'a \<Rightarrow> 'a \<Rightarrow> int" where
  "lex_cmp c d x y = (if c x y \<noteq> 0 then c x y else d x y)"

lemma comparatorD:
  assumes "comparator c"
  shows "sgn (c x y) = - sgn (c y x)" and "c x y \<le> 0 \<Longrightarrow> c y z \<le> 0 \<Longrightarrow> c x z \<le> 0"
  using assms unfolding comparator_def by blast+

lemma comparator_flip: "comparator c \<Longrightarrow> c x y \<le> 0 \<longleftrightarrow> 0 \<le> c y x"
  using comparatorD(1) [of c x y] by (auto simp: sgn_if split: if_splits)

lemma comparator_eq_flip: "comparator c \<Longrightarrow> c x y = 0 \<longleftrightarrow> c y x = 0"
  using comparatorD(1) [of c x y] by (auto simp: sgn_if split: if_splits)

lemma comparator_total_preorder: "comparator c \<Longrightarrow> total_preorder (\<lambda>x y. c x y \<le> 0)"
  unfolding total_preorder_def using comparator_flip comparatorD(2) by (metis linear)

lemma comparator_lex:
  assumes c: "comparator c" and d: "comparator d"
  shows "comparator (lex_cmp c d)"
  unfolding comparator_def
proof (intro conjI allI impI)
  fix x y z
  show "sgn (lex_cmp c d x y) = - sgn (lex_cmp c d y x)"
    using comparatorD(1) [OF c, of x y] comparatorD(1) [OF d, of x y] comparator_eq_flip [OF c, of x y]
    by (simp add: lex_cmp_def)
  assume a: "lex_cmp c d x y \<le> 0" "lex_cmp c d y z \<le> 0"
  then have xy: "c x y \<le> 0" and yz: "c y z \<le> 0" by (auto simp: lex_cmp_def split: if_splits)
  then have xz: "c x z \<le> 0" using comparatorD(2) [OF c] by blast
  show "lex_cmp c d x z \<le> 0"
  proof (cases "c x z = 0")
    case True
    then have "c z x \<le> 0" using comparator_eq_flip [OF c] by (metis order_refl)
    then have "c y x \<le> 0" "c z y \<le> 0" using xy yz comparatorD(2) [OF c] by blast+
    then have "c x y = 0" "c y z = 0"
      using xy yz comparator_flip [OF c, of x y] comparator_flip [OF c, of y z]
        comparator_flip [OF c, of y x] comparator_flip [OF c, of z y] by auto
    with a have "d x y \<le> 0" "d y z \<le> 0" by (auto simp: lex_cmp_def)
    then show ?thesis using comparatorD(2) [OF d] True by (auto simp: lex_cmp_def)
  qed (use xz in \<open>simp add: lex_cmp_def\<close>)
qed

lemma comparator_key: "comparator (\<lambda>x y. (f x :: int) - f y)"
  by (auto simp: comparator_def sgn_if)

lemma comparator_zero: "comparator (\<lambda>x y. 0)"
  by (simp add: comparator_def)

lemma comparator_on: "comparator c \<Longrightarrow> comparator (\<lambda>x y. c (f x) (f y))"
  unfolding comparator_def by blast

section \<open>Rules\<close>

datatype task_type =
    Small_talk | Simple_question | Writing | Summary | Code_change | Debugging | Review | Planning
  | Research | Data | Operations | Unknown_task

datatype purpose = Document_to_service | Install_tool | General | Create_issue | Manage_repository

datatype receipt_key =
    Key_document_to_service | Key_install_tool | Key_general | Key_greeting | Key_exclude_member
  | Key_change_task | Key_create_issue | Key_manage_repository | Key_needs_owner

record chief_operation =
  taskType :: task_type
  op_purpose :: purpose

datatype ranking_key = Rank_skill | Rank_role | Rank_slot | Rank_active | Rank_queued | Rank_id
datatype rule_effect = Read_only | Approval_required
datatype on_no_match = No_match_queue | Prepare_and_ask | Chief_plan | Needs_owner

record chief_rule =
  operation :: chief_operation
  requires :: "js_string list"
  effect :: rule_effect
  preferredSkills :: "js_string list"
  preferredRoles :: "js_string list"
  ranking :: "ranking_key list"
  onNoMatch :: on_no_match
  receipt :: receipt_key

definition orphanOutcomeAfterMs :: int where
  "orphanOutcomeAfterMs = 5 * 60000"

text \<open>The typographic apostrophe and the dash of the templates.\<close>

definition apo :: js_string where "apo = [0x2019]"
definition dash :: js_string where "dash = [0x2014]"

fun chief_receipt_templates :: "receipt_key \<Rightarrow> js_string" where
  "chief_receipt_templates Key_document_to_service =
     js ''Got it '' @ dash @ js '' I'' @ apo @ js ''ll choose a team member to put this in Notion.''"
| "chief_receipt_templates Key_install_tool =
     js ''Got it '' @ dash @ js '' I'' @ apo @ js ''ll check what'' @ apo @ js ''s missing and ask before installing it.''"
| "chief_receipt_templates Key_general =
     js ''Got it '' @ dash @ js '' I'' @ apo @ js ''ll check the request and choose the next step.''"
| "chief_receipt_templates Key_greeting = js ''Hi everyone.''"
| "chief_receipt_templates Key_exclude_member =
     js ''Got it '' @ dash @ js '' I'' @ apo @ js ''ll keep X off this task.''"
| "chief_receipt_templates Key_change_task =
     js ''Got it '' @ dash @ js '' I'' @ apo @ js ''ll check this change before the next action.''"
| "chief_receipt_templates Key_create_issue =
     js ''Got it '' @ dash @ js '' I'' @ apo @ js ''ll choose a team member to file this issue in Linear.''"
| "chief_receipt_templates Key_manage_repository =
     js ''Got it '' @ dash @ js '' I'' @ apo @ js ''ll choose a team member to manage the GitHub repository.''"
| "chief_receipt_templates Key_needs_owner =
     js ''Got it '' @ dash @ js '' this task needs you before I can assign it.''"

definition ranking_order :: "ranking_key list" where
  "ranking_order = [Rank_skill, Rank_role, Rank_slot, Rank_active, Rank_queued, Rank_id]"

fun task_type_name :: "task_type \<Rightarrow> js_string" where
  "task_type_name Small_talk = js ''small-talk''"
| "task_type_name Simple_question = js ''simple-question''"
| "task_type_name Writing = js ''writing''"
| "task_type_name Summary = js ''summary''"
| "task_type_name Code_change = js ''code-change''"
| "task_type_name Debugging = js ''debugging''"
| "task_type_name Review = js ''review''"
| "task_type_name Planning = js ''planning''"
| "task_type_name Research = js ''research''"
| "task_type_name Data = js ''data''"
| "task_type_name Operations = js ''operations''"
| "task_type_name Unknown_task = js ''unknown''"

definition general :: "task_type \<Rightarrow> chief_rule" where
  "general t =
     \<lparr>operation = \<lparr>taskType = t, op_purpose = General\<rparr>, requires = [], effect = Read_only,
      preferredSkills = [task_type_name t], preferredRoles = [task_type_name t],
      ranking = ranking_order, onNoMatch = Chief_plan, receipt = Key_general\<rparr>"

text \<open>\<open>CHIEF_TASK_RULES\<close> maps every task type to its general rule.\<close>

definition chief_task_rules :: "task_type \<Rightarrow> chief_rule" where
  "chief_task_rules t = general t"

definition chief_operation_rules :: "chief_rule list" where
  "chief_operation_rules =
     [\<lparr>operation = \<lparr>taskType = Operations, op_purpose = Document_to_service\<rparr>,
       requires = [js ''notion:read-back''], effect = Approval_required,
       preferredSkills = [js ''document'', js ''publishing'', js ''notion''],
       preferredRoles = [js ''documentation'', js ''operations''],
       ranking = ranking_order, onNoMatch = Chief_plan, receipt = Key_document_to_service\<rparr>,
      \<lparr>operation = \<lparr>taskType = Operations, op_purpose = Install_tool\<rparr>,
       requires = [js ''computer:package-preparation''], effect = Approval_required,
       preferredSkills = [js ''installation'', js ''runbook''],
       preferredRoles = [js ''operations''],
       ranking = ranking_order, onNoMatch = Chief_plan, receipt = Key_install_tool\<rparr>,
      \<lparr>operation = \<lparr>taskType = Operations, op_purpose = Create_issue\<rparr>,
       requires = [js ''linear:read-back'', js ''linear:write''], effect = Approval_required,
       preferredSkills = [js ''planning'', js ''issue-tracking'', js ''linear''],
       preferredRoles = [js ''product'', js ''operations''],
       ranking = ranking_order, onNoMatch = Needs_owner, receipt = Key_create_issue\<rparr>,
      \<lparr>operation = \<lparr>taskType = Code_change, op_purpose = Manage_repository\<rparr>,
       requires = [js ''github:read-back'', js ''github:write''], effect = Approval_required,
       preferredSkills = [js ''vcs'', js ''git'', js ''github''],
       preferredRoles = [js ''developer'', js ''operations''],
       ranking = ranking_order, onNoMatch = Needs_owner, receipt = Key_manage_repository\<rparr>]"

definition chiefRule :: "chief_operation \<Rightarrow> chief_rule" where
  "chiefRule oper =
     (case find (\<lambda>row. op_purpose (operation row) = op_purpose oper) chief_operation_rules of
        Some row \<Rightarrow> row
      | None \<Rightarrow> chief_task_rules (taskType oper))"

section \<open>Reading an owner's message\<close>

definition p_please :: pat where
  "p_please = p_opt (p_seq (p_lit_iu ''please'') p_spaces)"

definition p_dot :: pat where
  "p_dot = p_opt (p_unit (\<lambda>c. c = 46 \<or> c = 33))"

definition p_words :: "string list \<Rightarrow> pat" where
  "p_words ws = p_alts (map p_lit_iu ws)"

definition greeting_pattern :: pat where
  "greeting_pattern = p_seqs [p_words [''hi'', ''hello'', ''hey''],
     p_opt (p_seq p_spaces (p_lit_iu ''everyone'')), p_dot]"

definition document_pattern :: pat where
  "document_pattern = p_seqs [p_please, p_words [''put'', ''upload'', ''add'', ''send''], p_spaces,
     p_words [''this'', ''the''], p_opt (p_seq p_spaces (p_lit_iu ''long'')), p_spaces,
     p_lit_iu ''document'', p_spaces, p_words [''in'', ''to'', ''into''], p_spaces,
     p_lit_iu ''notion'', p_dot]"

definition install_pattern :: pat where
  "install_pattern = p_seqs [p_please, p_lit_iu ''install'', p_spaces,
     p_opt (p_seq (p_lit_iu ''the'') p_spaces), p_opt (p_seq (p_lit_iu ''missing'') p_spaces),
     p_lit_iu ''tool'', p_dot]"

definition issue_pattern :: pat where
  "issue_pattern = p_seqs [p_please, p_words [''create'', ''file'', ''open''], p_spaces,
     p_opt (p_seqs [p_lit_iu ''a'', p_opt (p_lit_iu ''n''), p_spaces]),
     p_words [''issue'', ''ticket''], p_spaces, p_words [''in'', ''on''], p_spaces,
     p_lit_iu ''linear'', p_dot]"

definition repository_pattern :: pat where
  "repository_pattern = p_seqs [p_please, p_words [''push'', ''manage''], p_spaces,
     p_opt (p_seq (p_lit_iu ''the'') p_spaces), p_words [''code'', ''repository'', ''repo''],
     p_spaces, p_words [''to'', ''on''], p_spaces, p_lit_iu ''github'', p_dot]"

definition intent_templates :: "(receipt_key \<times> purpose \<times> pat) list" where
  "intent_templates =
     [(Key_greeting, General, greeting_pattern),
      (Key_document_to_service, Document_to_service, document_pattern),
      (Key_install_tool, Install_tool, install_pattern),
      (Key_create_issue, Create_issue, issue_pattern),
      (Key_manage_repository, Manage_repository, repository_pattern)]"

definition individual_reply_pattern :: pat where
  "individual_reply_pattern = p_seqs [p_lit_iu ''everyone'', p_opt (p_lit '',''), p_spaces,
     p_lit_iu ''each of you'', p_spaces, p_words [''say hello'', ''reply'', ''answer''], p_dot]"

definition chiefWantsIndividualReplies :: "js_string \<Rightarrow> bool" where
  "chiefWantsIndividualReplies txt \<longleftrightarrow>
     length txt \<le> 200 \<and> full_match individual_reply_pattern (trim txt)"

record intent_input =
  in_text :: js_string
  in_taskType :: task_type
  hasAttachments :: bool
  hasContextReferences :: bool
  is_reply :: bool

record chief_intent =
  intent_key :: receipt_key
  intent_operation :: chief_operation
  receiptOnly :: bool

definition intent_row :: "js_string \<Rightarrow> (receipt_key \<times> purpose \<times> pat) option" where
  "intent_row txt =
     (if length txt \<le> 800 then find (\<lambda>(_, _, p). full_match p txt) intent_templates else None)"

definition chiefIntent :: "intent_input \<Rightarrow> chief_intent" where
  "chiefIntent inp =
     (let row = intent_row (trim (in_text inp));
          greeting = (map_option fst row = Some Key_greeting \<and> \<not> hasAttachments inp \<and>
            \<not> hasContextReferences inp \<and> \<not> is_reply inp);
          key = (case row of
              None \<Rightarrow> Key_general
            | Some (k, _, _) \<Rightarrow> if k = Key_greeting then (if greeting then Key_greeting else Key_general) else k)
      in \<lparr>intent_key = key,
          intent_operation =
            \<lparr>taskType = (case row of
                 None \<Rightarrow> in_taskType inp
               | Some (k, p, _) \<Rightarrow>
                   if k \<noteq> Key_greeting
                   then (if p = Manage_repository then Code_change else Operations)
                   else in_taskType inp),
             op_purpose = (case row of None \<Rightarrow> General | Some (_, p, _) \<Rightarrow> p)\<rparr>,
          receiptOnly = greeting\<rparr>)"

section \<open>Choosing a member\<close>

datatype access = Access_known | Access_missing | Access_unknown

record capability_fact =
  cap_id :: js_string
  cap_access :: access

record member_computer =
  comp_id :: js_string
  comp_local :: bool
  leaseBusy :: bool

record member_facts =
  member_id :: js_string
  role :: js_string
  skills :: "js_string list"
  capabilities :: "capability_fact list"
  authorized :: bool
  runtimeSupported :: bool
  computer :: "member_computer option"
  inputAccess :: access
  activeRuns :: int
  queuedRuns :: int
  runLimit :: int

record choose_input =
  chiefId :: js_string
  ch_operation :: chief_operation
  members :: "member_facts list"
  excluded :: "js_string list"
  explicitMemberId :: "js_string option"
  requiredComputerId :: "js_string option"

datatype blocker_key = Connect_linear | Connect_github

datatype chief_decision =
    Decide_self
  | Decide_delegate js_string js_string
  | Decide_queue js_string js_string
  | Decide_needs_owner blocker_key js_string
  | Decide_plan

definition eligible :: "choose_input \<Rightarrow> chief_rule \<Rightarrow> member_facts \<Rightarrow> bool" where
  "eligible inp rule m \<longleftrightarrow>
     authorized m \<and> runtimeSupported m \<and> inputAccess m = Access_known \<and>
     member_id m \<notin> set (excluded inp) \<and>
     (case computer m of
        None \<Rightarrow> False
      | Some c \<Rightarrow> comp_local c \<and>
          (falsy (requiredComputerId inp) \<or> Some (comp_id c) = requiredComputerId inp)) \<and>
     (op_purpose (ch_operation inp) \<noteq> Install_tool \<or> \<not> falsy (requiredComputerId inp)) \<and>
     (\<forall>cap \<in> set (requires rule).
        \<exists>f \<in> set (capabilities m). cap_id f = cap \<and> cap_access f = Access_known)"

definition ready :: "member_facts \<Rightarrow> bool" where
  "ready m \<longleftrightarrow> activeRuns m < runLimit m \<and>
     \<not> (case computer m of Some c \<Rightarrow> leaseBusy c | None \<Rightarrow> False)"

definition prefers :: "(js_string \<Rightarrow> js_string) \<Rightarrow> js_string list \<Rightarrow> js_string list \<Rightarrow> bool" where
  "prefers lower vals preferences \<longleftrightarrow>
     (\<exists>p \<in> set preferences. \<exists>v \<in> set vals. includes_str (lower v) p)"

fun score_cmp ::
    "(js_string \<Rightarrow> js_string) \<Rightarrow> (js_string \<Rightarrow> js_string \<Rightarrow> int) \<Rightarrow> chief_rule \<Rightarrow> ranking_key \<Rightarrow>
     member_facts \<Rightarrow> member_facts \<Rightarrow> int" where
  "score_cmp lower collate rule Rank_skill a b =
     (if prefers lower (skills a) (preferredSkills rule) then 0 else 1) -
     (if prefers lower (skills b) (preferredSkills rule) then 0 else 1)"
| "score_cmp lower collate rule Rank_role a b =
     (if prefers lower [role a] (preferredRoles rule) then 0 else 1) -
     (if prefers lower [role b] (preferredRoles rule) then 0 else 1)"
| "score_cmp lower collate rule Rank_slot a b = (if ready a then 0 else 1) - (if ready b then 0 else 1)"
| "score_cmp lower collate rule Rank_active a b = activeRuns a - activeRuns b"
| "score_cmp lower collate rule Rank_queued a b = queuedRuns a - queuedRuns b"
| "score_cmp lower collate rule Rank_id a b = collate (member_id a) (member_id b)"

fun ranking_cmp ::
    "(js_string \<Rightarrow> js_string) \<Rightarrow> (js_string \<Rightarrow> js_string \<Rightarrow> int) \<Rightarrow> chief_rule \<Rightarrow> ranking_key list \<Rightarrow>
     member_facts \<Rightarrow> member_facts \<Rightarrow> int" where
  "ranking_cmp lower collate rule [] a b = 0"
| "ranking_cmp lower collate rule (key # keys) a b =
     (if score_cmp lower collate rule key a b \<noteq> 0 then score_cmp lower collate rule key a b
      else ranking_cmp lower collate rule keys a b)"

definition explicit_cmp :: "js_string option \<Rightarrow> member_facts \<Rightarrow> member_facts \<Rightarrow> int" where
  "explicit_cmp explicit a b =
     (if falsy explicit then 0
      else (if Some (member_id b) = explicit then 1 else 0) - (if Some (member_id a) = explicit then 1 else 0))"

definition member_cmp ::
    "(js_string \<Rightarrow> js_string) \<Rightarrow> (js_string \<Rightarrow> js_string \<Rightarrow> int) \<Rightarrow> choose_input \<Rightarrow> chief_rule \<Rightarrow>
     member_facts \<Rightarrow> member_facts \<Rightarrow> int" where
  "member_cmp lower collate inp rule a b =
     (if explicit_cmp (explicitMemberId inp) a b \<noteq> 0 then explicit_cmp (explicitMemberId inp) a b
      else ranking_cmp lower collate rule (ranking rule) a b)"

fun purpose_name :: "purpose \<Rightarrow> js_string" where
  "purpose_name Document_to_service = js ''document-to-service''"
| "purpose_name Install_tool = js ''install-tool''"
| "purpose_name General = js ''general''"
| "purpose_name Create_issue = js ''create-issue''"
| "purpose_name Manage_repository = js ''manage-repository''"

fun blocker_text :: "blocker_key \<Rightarrow> js_string" where
  "blocker_text Connect_linear =
     js ''Connect Linear or grant a team member permission to read and write.''"
| "blocker_text Connect_github =
     js ''Connect GitHub or grant a team member permission to read and write.''"

definition chooseChiefMember ::
    "(js_string \<Rightarrow> js_string) \<Rightarrow> (js_string \<Rightarrow> js_string \<Rightarrow> int) \<Rightarrow> choose_input \<Rightarrow> chief_decision" where
  "chooseChiefMember lower collate inp =
     (if op_purpose (ch_operation inp) = General then Decide_plan
      else
        let rule = chiefRule (ch_operation inp);
            sorted_members = sort_cmp (\<lambda>a b. member_cmp lower collate inp rule a b \<le> 0)
              (filter (eligible inp rule) (members inp))
        in case sorted_members of
             [] \<Rightarrow>
               if onNoMatch rule = Needs_owner
               then let key = (if op_purpose (ch_operation inp) = Create_issue
                               then Connect_linear else Connect_github)
                 in Decide_needs_owner key (blocker_text key)
               else Decide_plan
           | best # _ \<Rightarrow>
               if member_id best = chiefId inp then Decide_self
               else let reason = purpose_name (op_purpose (ch_operation inp)) @
                      js '': saved capability, skill, role and capacity''
                 in if ready best then Decide_delegate (member_id best) reason
                    else Decide_queue (member_id best) reason)"

section \<open>Corrections and control\<close>

datatype chief_correction = Exclude js_string js_string | Local_only | Stop | Replan

record member_name =
  mem_id :: js_string
  mem_name :: js_string

definition line_break :: "unit16 \<Rightarrow> bool" where
  "line_break c \<longleftrightarrow> c = 10 \<or> c = 13 \<or> c = 0x2028 \<or> c = 0x2029"

text \<open>\<open>(.+?)[.!]?$\<close> at a position: the shortest text that leaves only an optional full stop.\<close>

definition lazy_name :: "js_string \<Rightarrow> js_string option" where
  "lazy_name r =
     (let c = (if 2 \<le> length r \<and> (last r = 46 \<or> last r = 33) then butlast r else r) in
      if c \<noteq> [] \<and> (\<forall>x \<in> set c. \<not> line_break x) then Some c else None)"

fun first_name :: "pos list \<Rightarrow> js_string option" where
  "first_name [] = None"
| "first_name (x # xs) = (case lazy_name (snd x) of Some c \<Rightarrow> Some c | None \<Rightarrow> first_name xs)"

definition p_apostrophe :: pat where
  "p_apostrophe = p_opt (p_unit (\<lambda>c. c = 39 \<or> c = 0x2019))"

definition p_dont :: pat where
  "p_dont = p_seqs [p_lit_iu ''don'', p_apostrophe, p_lit_iu ''t'']"

definition exclusion_prefix :: pat where
  "exclusion_prefix = p_seqs
     [p_please, p_alts [p_dont, p_lit_iu ''do not'', p_lit_iu ''never''], p_spaces,
      p_alts
        [p_seqs [p_lit_iu ''send'', p_opt (p_seq p_spaces (p_words [''it'', ''this'', ''the document''])),
                 p_spaces, p_lit_iu ''to''],
         p_lit_iu ''use'',
         p_seqs [p_lit_iu ''delegate'', p_opt (p_seq p_spaces (p_words [''it'', ''this''])),
                 p_spaces, p_lit_iu ''to'']],
      p_spaces]"

definition stand_down_prefix :: pat where
  "stand_down_prefix = p_seqs [p_please, p_words [''stop'', ''stand down''], p_spaces]"

definition local_pattern :: pat where
  "local_pattern = p_seqs
     [p_please,
      p_alts [p_seq (p_lit_iu ''keep it local'') (p_opt (p_lit_iu '' instead'')),
              p_seqs [p_dont, p_lit_iu '' upload'', p_opt (p_lit_iu '' it'')],
              p_seq (p_lit_iu ''do not upload'') (p_opt (p_lit_iu '' it''))],
      p_dot]"

definition stop_pattern :: pat where
  "stop_pattern = p_seqs
     [p_please, p_words [''stop'', ''cancel''],
      p_opt (p_seqs [p_spaces, p_words [''this'', ''the''], p_spaces, p_lit_iu ''task'']), p_dot]"

definition p_comma_space :: pat where
  "p_comma_space = p_unit (\<lambda>c. c = 44 \<or> c = 32)"

definition replan_pattern :: pat where
  "replan_pattern = p_alts
     [p_seq (p_lit_iu ''actually'') p_comma_space,
      p_seq (p_lit_iu ''instead'') p_comma_space,
      p_seqs [p_lit_iu ''change '', p_words [''this'', ''the''], p_lit_iu '' task''],
      p_seqs [p_lit_iu ''send it '', p_words [''to'', ''into''], p_lit_iu '' ''],
      p_seqs [p_lit_iu ''put it '', p_words [''in'', ''into''], p_lit_iu '' '']]"

definition drop_at :: "js_string \<Rightarrow> js_string" where
  "drop_at s = (if s \<noteq> [] \<and> hd s = 64 then tl s else s)"

text \<open>The commands that name nobody.\<close>

definition plain_correction :: "js_string \<Rightarrow> chief_correction option" where
  "plain_correction txt =
     (if full_match local_pattern txt then Some Local_only
      else if full_match stop_pattern txt then Some Stop
      else if replan_pattern (True, txt) \<noteq> [] then Some Replan
      else None)"

definition parseChiefCorrection ::
    "(js_string \<Rightarrow> js_string) \<Rightarrow> js_string \<Rightarrow> member_name list \<Rightarrow> chief_correction option" where
  "parseChiefCorrection lower raw mems =
     (let txt = trim raw in
      if txt = [] \<or> length txt > 400 \<or> 13 \<in> set txt \<or> 10 \<in> set txt then None
      else
        let exclusion = first_name (exclusion_prefix (True, txt));
            stand_down = first_name (stand_down_prefix (True, txt));
            name = map_option (\<lambda>n. lower (drop_at n))
              (case exclusion of Some n \<Rightarrow> Some n | None \<Rightarrow> stand_down)
        in if falsy name then plain_correction txt
           else
             (case filter (\<lambda>m. Some (lower (mem_name m)) = name) mems of
                [m] \<Rightarrow> Some (Exclude (mem_id m) (mem_name m))
              | _ \<Rightarrow> if exclusion \<noteq> None then Some Replan else plain_correction txt))"

datatype action_outcome = Outcome_kept | Outcome_undone | Outcome_unknown

record action_reconciliation =
  rec_runId :: js_string
  rec_effectId :: "js_string option"
  rec_executionId :: "js_string option"
  rec_outcome :: action_outcome
  rec_revision :: nat

record chief_control =
  revision :: nat
  ownerMessageIds :: "js_string list"
  excludedIds :: "js_string list"
  localOnly :: bool
  stopped :: bool
  pendingReplan :: bool
  stoppingRunIds :: "js_string list"
  uncertainRunIds :: "js_string list"
  uncertaintySince :: "js_string option"
  reconciliationRunId :: "js_string option"
  reconciledActions :: "action_reconciliation list option"

record revise_input =
  rev_revision :: nat
  ownerMessageId :: js_string
  correction :: chief_correction
  affectedRunIds :: "js_string list"
  rev_uncertainRunIds :: "js_string list"

definition reviseChiefControl :: "chief_control option \<Rightarrow> revise_input \<Rightarrow> chief_control" where
  "reviseChiefControl previous inp =
     (if (case previous of Some p \<Rightarrow> ownerMessageId inp \<in> set (ownerMessageIds p) | None \<Rightarrow> False)
      then the previous
      else
        let from = (\<lambda>f. case previous of Some p \<Rightarrow> f p | None \<Rightarrow> []);
            held = (\<lambda>f. case previous of Some p \<Rightarrow> f p | None \<Rightarrow> False)
        in \<lparr>revision = rev_revision inp + 1,
            ownerMessageIds = from ownerMessageIds @ [ownerMessageId inp],
            excludedIds = uniq (from excludedIds @
              (case correction inp of Exclude m _ \<Rightarrow> [m] | _ \<Rightarrow> [])),
            localOnly = (held localOnly \<or> correction inp = Local_only),
            stopped = (held stopped \<or> correction inp = Stop),
            pendingReplan = (correction inp \<noteq> Stop \<and> \<not> held stopped),
            stoppingRunIds = uniq (from stoppingRunIds @ affectedRunIds inp),
            uncertainRunIds = uniq (from uncertainRunIds @ rev_uncertainRunIds inp),
            uncertaintySince = (case previous of
                Some p \<Rightarrow> if falsy (uncertaintySince p) then None else uncertaintySince p
              | None \<Rightarrow> None),
            reconciliationRunId = None,
            reconciledActions = (case previous of Some p \<Rightarrow> reconciledActions p | None \<Rightarrow> None)\<rparr>)"

definition chiefControlAllowsDispatch :: "chief_control option \<Rightarrow> bool" where
  "chiefControlAllowsDispatch control =
     (case control of
        None \<Rightarrow> True
      | Some c \<Rightarrow> \<not> stopped c \<and> stoppingRunIds c = [] \<and> uncertainRunIds c = [])"

text \<open>A sequence of owner corrections, each revising what the one before left.\<close>

definition revise_all :: "chief_control option \<Rightarrow> revise_input list \<Rightarrow> chief_control option" where
  "revise_all = foldl (\<lambda>c inp. Some (reviseChiefControl c inp))"

section \<open>Lemmas\<close>

fun score_key :: "(js_string \<Rightarrow> js_string) \<Rightarrow> chief_rule \<Rightarrow> ranking_key \<Rightarrow> member_facts \<Rightarrow> int" where
  "score_key lower rule Rank_skill m = (if prefers lower (skills m) (preferredSkills rule) then 0 else 1)"
| "score_key lower rule Rank_role m = (if prefers lower [role m] (preferredRoles rule) then 0 else 1)"
| "score_key lower rule Rank_slot m = (if ready m then 0 else 1)"
| "score_key lower rule Rank_active m = activeRuns m"
| "score_key lower rule Rank_queued m = queuedRuns m"
| "score_key lower rule Rank_id m = 0"

lemma score_cmp_key:
  "key \<noteq> Rank_id \<Longrightarrow>
   score_cmp lower collate rule key = (\<lambda>a b. score_key lower rule key a - score_key lower rule key b)"
  by (intro ext, cases key) simp_all

lemma comparator_score:
  assumes "comparator collate"
  shows "comparator (score_cmp lower collate rule key)"
proof (cases "key = Rank_id")
  case True
  then have "score_cmp lower collate rule key = (\<lambda>a b. collate (member_id a) (member_id b))"
    by (intro ext) simp
  then show ?thesis using comparator_on [OF assms, of member_id] by simp
qed (simp add: score_cmp_key comparator_key)

lemma ranking_cmp_lex:
  "ranking_cmp lower collate rule (key # keys) =
     lex_cmp (score_cmp lower collate rule key) (ranking_cmp lower collate rule keys)"
  by (intro ext) (simp add: lex_cmp_def)

lemma comparator_ranking:
  assumes "comparator collate"
  shows "comparator (ranking_cmp lower collate rule keys)"
proof (induction keys)
  case Nil
  have "ranking_cmp lower collate rule [] = (\<lambda>a b. 0)" by (intro ext) simp
  then show ?case by (simp add: comparator_zero)
next
  case (Cons key keys)
  then show ?case by (simp add: ranking_cmp_lex comparator_lex comparator_score assms)
qed

lemma comparator_explicit: "comparator (explicit_cmp explicit)"
  by (auto simp: comparator_def explicit_cmp_def sgn_if split: if_splits)

lemma comparator_member:
  assumes "comparator collate"
  shows "comparator (member_cmp lower collate inp rule)"
proof -
  have "member_cmp lower collate inp rule =
      lex_cmp (explicit_cmp (explicitMemberId inp)) (ranking_cmp lower collate rule (ranking rule))"
    by (intro ext) (simp add: member_cmp_def lex_cmp_def)
  then show ?thesis by (simp add: comparator_lex comparator_explicit comparator_ranking assms)
qed

text \<open>The members that may be chosen: eligible, and ranked behind no other eligible member.\<close>

definition best_members ::
    "(js_string \<Rightarrow> js_string) \<Rightarrow> (js_string \<Rightarrow> js_string \<Rightarrow> int) \<Rightarrow> choose_input \<Rightarrow> member_facts set" where
  "best_members lower collate inp =
     (let rule = chiefRule (ch_operation inp);
          candidates = {m \<in> set (members inp). eligible inp rule m}
      in {m \<in> candidates. \<forall>m' \<in> candidates. member_cmp lower collate inp rule m m' \<le> 0})"

lemma sorted_head_best:
  assumes "comparator collate"
    and "sort_cmp (\<lambda>a b. member_cmp lower collate inp (chiefRule (ch_operation inp)) a b \<le> 0)
          (filter (eligible inp (chiefRule (ch_operation inp))) (members inp)) = best # rest"
  shows "best \<in> best_members lower collate inp"
  using sort_cmp_hd_least [OF comparator_total_preorder [OF comparator_member [OF assms(1)]],
      of lower inp "chiefRule (ch_operation inp)"] sort_cmp_hd_mem assms(2)
  by (fastforce simp: best_members_def Let_def)

lemma ranking_chiefRule [simp]: "ranking (chiefRule oper) = ranking_order"
  by (auto simp: chiefRule_def chief_operation_rules_def chief_task_rules_def general_def
      split: option.splits)

lemma queued_member_best:
  assumes "comparator collate" and "chooseChiefMember lower collate inp = Decide_queue i reason"
  shows "\<exists>m \<in> best_members lower collate inp. member_id m = i \<and> \<not> ready m"
  using assms(2) sorted_head_best [OF assms(1), of lower inp]
  by (fastforce simp: chooseChiefMember_def Let_def split: if_splits list.splits)

section \<open>Properties of the choice\<close>

text \<open>
  C10. The chief hands work only to a member that may do it and that no other eligible member is
  ranked ahead of: a delegated or queued member is such a member, other than the chief, and it is
  delegated exactly when it is ready now; the chief keeps the task only as such a member itself;
  and the task goes back to planning or to the owner only when nobody is eligible (or the task is
  general work, which is always planned).
\<close>

theorem chief_choice_is_best:
  assumes "comparator collate"
  shows "case chooseChiefMember lower collate inp of
       Decide_delegate i _ \<Rightarrow> i \<noteq> chiefId inp \<and> i \<notin> set (excluded inp) \<and>
         (\<exists>m \<in> best_members lower collate inp. member_id m = i \<and> authorized m \<and> ready m)
     | Decide_queue i _ \<Rightarrow> i \<noteq> chiefId inp \<and> i \<notin> set (excluded inp) \<and>
         (\<exists>m \<in> best_members lower collate inp. member_id m = i \<and> authorized m \<and> \<not> ready m)
     | Decide_self \<Rightarrow> \<exists>m \<in> best_members lower collate inp. member_id m = chiefId inp
     | Decide_needs_owner _ _ \<Rightarrow> op_purpose (ch_operation inp) \<in> {Create_issue, Manage_repository} \<and>
         \<not> (\<exists>m \<in> set (members inp). eligible inp (chiefRule (ch_operation inp)) m)
     | Decide_plan \<Rightarrow> op_purpose (ch_operation inp) = General \<or>
         \<not> (\<exists>m \<in> set (members inp). eligible inp (chiefRule (ch_operation inp)) m)"
proof (cases "op_purpose (ch_operation inp) = General")
  case True
  then show ?thesis by (simp add: chooseChiefMember_def)
next
  case False
  let ?rule = "chiefRule (ch_operation inp)"
  let ?sorted = "sort_cmp (\<lambda>a b. member_cmp lower collate inp ?rule a b \<le> 0)
    (filter (eligible inp ?rule) (members inp))"
  show ?thesis
  proof (cases ?sorted)
    case Nil
    then have "\<not> (\<exists>m \<in> set (members inp). eligible inp ?rule m)"
      by (simp add: filter_empty_conv)
    moreover have "onNoMatch ?rule = Needs_owner \<Longrightarrow>
        op_purpose (ch_operation inp) \<in> {Create_issue, Manage_repository}"
      using False by (cases "op_purpose (ch_operation inp)")
        (simp_all add: chiefRule_def chief_operation_rules_def)
    ultimately show ?thesis using Nil False by (simp add: chooseChiefMember_def Let_def)
  next
    case (Cons best rest)
    then have "best \<in> best_members lower collate inp" by (rule sorted_head_best [OF assms])
    moreover from this have "authorized best" "member_id best \<notin> set (excluded inp)"
      by (simp_all add: best_members_def Let_def eligible_def)
    ultimately show ?thesis using Cons False by (auto simp: chooseChiefMember_def Let_def)
  qed
qed

definition sample_member :: "js_string \<Rightarrow> int \<Rightarrow> member_facts" where
  "sample_member i active =
     \<lparr>member_id = i, role = js ''Operations'', skills = [js ''linear''],
      capabilities = [\<lparr>cap_id = js ''linear:read-back'', cap_access = Access_known\<rparr>,
        \<lparr>cap_id = js ''linear:write'', cap_access = Access_known\<rparr>],
      authorized = True, runtimeSupported = True,
      computer = Some \<lparr>comp_id = js ''c1'', comp_local = True, leaseBusy = False\<rparr>,
      inputAccess = Access_known, activeRuns = active, queuedRuns = 0, runLimit = 2\<rparr>"

definition sample_choice :: choose_input where
  "sample_choice =
     \<lparr>chiefId = js ''chief'', ch_operation = \<lparr>taskType = Operations, op_purpose = Create_issue\<rparr>,
      members = [sample_member (js ''ann'') 2, sample_member (js ''bob'') 1, sample_member (js ''cyd'') 0],
      excluded = [js ''cyd''], explicitMemberId = None, requiredComputerId = None\<rparr>"

definition by_length :: "js_string \<Rightarrow> js_string \<Rightarrow> int" where
  "by_length a b = int (length a) - int (length b)"

lemma comparator_by_length: "comparator by_length"
proof -
  have "by_length = (\<lambda>a b. int (length a) - int (length b))" by (intro ext) (simp add: by_length_def)
  then show ?thesis using comparator_key [of "\<lambda>s :: js_string. int (length s)"] by simp
qed

theorem chief_choice_is_best_witness:
  "(\<exists>r. chooseChiefMember id by_length sample_choice = Decide_delegate (js ''bob'') r) \<and>
   (\<exists>m \<in> best_members id by_length sample_choice. member_id m = js ''bob'' \<and> ready m)"
proof -
  have "case chooseChiefMember id by_length sample_choice of
      Decide_delegate i _ \<Rightarrow> i = js ''bob'' | _ \<Rightarrow> False"
    by code_simp
  then have "\<exists>r. chooseChiefMember id by_length sample_choice = Decide_delegate (js ''bob'') r"
    by (auto split: chief_decision.splits)
  then show ?thesis using chief_choice_is_best [OF comparator_by_length, of id sample_choice] by auto
qed

text \<open>
  A busy member is queued for only when it fits the task better: every eligible member that is
  ready now is then a worse match by skill, or an equal one by skill and a worse one by role
  (when the owner named nobody).
\<close>

theorem queue_only_for_a_better_fit:
  assumes "comparator collate" and "falsy (explicitMemberId inp)"
    and "chooseChiefMember lower collate inp = Decide_queue i reason"
    and "m' \<in> set (members inp)" and "eligible inp (chiefRule (ch_operation inp)) m'" and "ready m'"
  shows "\<exists>m \<in> set (members inp). member_id m = i \<and> \<not> ready m \<and>
     (let rule = chiefRule (ch_operation inp);
          skill = (\<lambda>m. prefers lower (skills m) (preferredSkills rule));
          fits = (\<lambda>m. prefers lower [role m] (preferredRoles rule))
      in skill m \<and> \<not> skill m' \<or> skill m = skill m' \<and> fits m \<and> \<not> fits m')"
proof -
  obtain m where m: "m \<in> best_members lower collate inp" "member_id m = i" "\<not> ready m"
    using queued_member_best [OF assms(1,3)] by auto
  then have "m \<in> set (members inp)"
    and "member_cmp lower collate inp (chiefRule (ch_operation inp)) m m' \<le> 0"
    using assms(4,5) by (simp_all add: best_members_def Let_def)
  then show ?thesis using m(2,3) assms(2,6)
    by (auto simp: member_cmp_def explicit_cmp_def ranking_order_def Let_def split: if_splits
        intro!: bexI [of _ m])
qed

theorem queue_only_for_a_better_fit_witness:
  "\<exists>m \<in> set (members (sample_choice\<lparr>members := [sample_member (js ''ann'') 2,
      (sample_member (js ''bob'') 0)\<lparr>skills := []\<rparr>]\<rparr>)). member_id m = js ''ann'' \<and> \<not> ready m"
proof -
  let ?bob = "(sample_member (js ''bob'') 0)\<lparr>skills := []\<rparr>"
  let ?inp = "sample_choice\<lparr>members := [sample_member (js ''ann'') 2, ?bob]\<rparr>"
  have "case chooseChiefMember id by_length ?inp of
      Decide_queue i _ \<Rightarrow> i = js ''ann'' | _ \<Rightarrow> False"
    by code_simp
  then obtain r where "chooseChiefMember id by_length ?inp = Decide_queue (js ''ann'') r"
    by (auto split: chief_decision.splits)
  moreover have "falsy (explicitMemberId ?inp)" by code_simp
  moreover have "eligible ?inp (chiefRule (ch_operation ?inp)) ?bob" "ready ?bob" by code_simp+
  ultimately show ?thesis
    using queue_only_for_a_better_fit [OF comparator_by_length, of ?inp id "js ''ann''" r ?bob]
    by (auto simp: Let_def)
qed

section \<open>Properties of control and intent\<close>

text \<open>The owner's corrections without replays, and the control record they add up to.\<close>

definition fresh_inputs :: "revise_input list \<Rightarrow> revise_input list" where
  "fresh_inputs =
     foldl (\<lambda>acc x. if ownerMessageId x \<in> ownerMessageId ` set acc then acc else acc @ [x]) []"

definition excluded_of :: "chief_correction \<Rightarrow> js_string list" where
  "excluded_of c = (case c of Exclude m _ \<Rightarrow> [m] | _ \<Rightarrow> [])"

definition control_of :: "revise_input list \<Rightarrow> chief_control option" where
  "control_of xs =
     (if xs = [] then None
      else Some
        \<lparr>revision = rev_revision (last xs) + 1,
         ownerMessageIds = map ownerMessageId xs,
         excludedIds = uniq (concat (map (excluded_of \<circ> correction) xs)),
         localOnly = (Local_only \<in> correction ` set xs),
         stopped = (Stop \<in> correction ` set xs),
         pendingReplan = (Stop \<notin> correction ` set xs),
         stoppingRunIds = uniq (concat (map affectedRunIds xs)),
         uncertainRunIds = uniq (concat (map rev_uncertainRunIds xs)),
         uncertaintySince = None, reconciliationRunId = None, reconciledActions = None\<rparr>)"

lemma revise_all_snoc: "revise_all c (xs @ [x]) = Some (reviseChiefControl (revise_all c xs) x)"
  by (simp add: revise_all_def)

lemma fresh_inputs_snoc:
  "fresh_inputs (xs @ [x]) =
     (if ownerMessageId x \<in> ownerMessageId ` set (fresh_inputs xs) then fresh_inputs xs
      else fresh_inputs xs @ [x])"
  by (simp add: fresh_inputs_def)

lemma revise_control_of_replay:
  "ownerMessageId x \<in> ownerMessageId ` set xs \<Longrightarrow> Some (reviseChiefControl (control_of xs) x) = control_of xs"
  by (auto simp: reviseChiefControl_def control_of_def)

lemma revise_control_of_fresh:
  assumes "ownerMessageId x \<notin> ownerMessageId ` set xs"
  shows "Some (reviseChiefControl (control_of xs) x) = control_of (xs @ [x])"
proof (cases "xs = []")
  case True
  then show ?thesis
    by (auto simp: reviseChiefControl_def control_of_def Let_def excluded_of_def)
next
  case False
  then show ?thesis using assms
    by (auto simp: reviseChiefControl_def control_of_def Let_def uniq_append excluded_of_def)
qed

text \<open>
  C20. The control record is exactly what the owner's corrections add up to, replays left out:
  whoever was excluded stays excluded, work kept local stays local, a stop stays a stop and ends
  planning, and every affected or uncertain run is kept, in order and once.
\<close>

theorem control_is_sum_of_corrections:
  "revise_all None inputs = control_of (fresh_inputs inputs)"
proof (induction inputs rule: rev_induct)
  case Nil
  show ?case by (simp add: revise_all_def fresh_inputs_def control_of_def)
next
  case (snoc x xs)
  then show ?case
    by (simp add: revise_all_snoc fresh_inputs_snoc revise_control_of_replay revise_control_of_fresh)
qed

lemma stopped_revise: "stopped c \<Longrightarrow> stopped (reviseChiefControl (Some c) inp)"
  by (simp add: reviseChiefControl_def Let_def)

lemma stopped_revise_all: "stopped c \<Longrightarrow> \<exists>d. revise_all (Some c) inputs = Some d \<and> stopped d"
proof (induction inputs arbitrary: c)
  case (Cons x xs)
  then show ?case using stopped_revise [of c x] by (simp add: revise_all_def)
qed (simp add: revise_all_def)

text \<open>
  C14. Once the owner has said stop in a message not seen before, nothing the owner or a replay adds
  afterwards lets the chief dispatch this task again.
\<close>

theorem stop_ends_dispatch:
  assumes "correction inp = Stop"
    and "\<And>c. control = Some c \<Longrightarrow> ownerMessageId inp \<notin> set (ownerMessageIds c)"
  shows "\<not> chiefControlAllowsDispatch (revise_all control (inp # later))"
proof -
  have "stopped (reviseChiefControl control inp)"
    using assms by (cases control) (auto simp: reviseChiefControl_def Let_def)
  from stopped_revise_all [OF this, of later] obtain d
    where "revise_all (Some (reviseChiefControl control inp)) later = Some d" "stopped d" by blast
  then show ?thesis by (simp add: revise_all_def chiefControlAllowsDispatch_def)
qed

definition sample_stop :: revise_input where
  "sample_stop = \<lparr>rev_revision = 1, ownerMessageId = js ''m1'', correction = Stop,
     affectedRunIds = [], rev_uncertainRunIds = []\<rparr>"

theorem stop_ends_dispatch_witness:
  "\<not> chiefControlAllowsDispatch (revise_all None
     [sample_stop, sample_stop\<lparr>ownerMessageId := js ''m2'', correction := Replan\<rparr>])"
  by (rule stop_ends_dispatch) (simp_all add: sample_stop_def)

text \<open>
  The command an owner's message is read as and the rule it is then worked under agree: the
  rule's own operation is the operation read, its receipt is the one acknowledged (a bare greeting
  is acknowledged as such and is general work), everything but general work needs approval, and
  only a greeting with nothing attached is answered by its receipt alone.
\<close>

theorem intent_agrees_with_rule:
  "let i = chiefIntent inp; rule = chiefRule (intent_operation i) in
     operation rule = intent_operation i \<and>
     receipt rule = (if receiptOnly i then Key_general else intent_key i) \<and>
     (effect rule = Approval_required \<longleftrightarrow> op_purpose (intent_operation i) \<noteq> General) \<and>
     (receiptOnly i \<longleftrightarrow> intent_key i = Key_greeting) \<and>
     (receiptOnly i \<longleftrightarrow> length (trim (in_text inp)) \<le> 800 \<and>
        full_match greeting_pattern (trim (in_text inp)) \<and>
        \<not> hasAttachments inp \<and> \<not> hasContextReferences inp \<and> \<not> is_reply inp)"
proof (cases "length (trim (in_text inp)) \<le> 800")
  case True
  then show ?thesis
    by (simp add: chiefIntent_def intent_row_def intent_templates_def Let_def chiefRule_def
        chief_operation_rules_def chief_task_rules_def general_def)
next
  case False
  then show ?thesis
    by (simp add: chiefIntent_def intent_row_def Let_def chiefRule_def
        chief_operation_rules_def chief_task_rules_def general_def)
qed

end
