(* ===== verification/Run_State.thy ===== *)
theory Run_State
  imports JsNumber
begin

text \<open>
  The life of a run (\<open>packages/core/src/run-state.ts\<close>), the fenced screen leases a run takes
  (\<open>packages/core/src/screen-lease.ts\<close>) and the tracker that lets one bot at a time hold a
  computer's only screen (\<open>packages/adapters/src/computer-screens.ts\<close>).
\<close>

section \<open>Run statuses\<close>

datatype run_status =
    Queued | Leased | Running | Waiting_input | Waiting_takeover | Completed | Failed | Cancelled

definition active_run_statuses :: "run_status list" where
  "active_run_statuses = [Queued, Leased, Running, Waiting_input, Waiting_takeover]"

definition terminal_statuses :: "run_status list" where
  "terminal_statuses = [Completed, Failed, Cancelled]"

fun allowed :: "run_status \<Rightarrow> run_status list" where
  "allowed Queued = [Leased, Cancelled]"
| "allowed Leased = [Running, Queued, Cancelled]"
| "allowed Running = [Waiting_input, Waiting_takeover, Completed, Failed, Cancelled, Leased]"
| "allowed Waiting_input = [Queued, Leased, Cancelled]"
| "allowed Waiting_takeover = [Queued, Leased, Cancelled]"
| "allowed Completed = []"
| "allowed Failed = [Queued]"
| "allowed Cancelled = []"

definition canTransition :: "run_status \<Rightarrow> run_status \<Rightarrow> bool" where
  "canTransition source target \<longleftrightarrow> target \<in> set (allowed source)"

datatype transition_error = Illegal_run_transition run_status run_status

definition assertTransition :: "run_status \<Rightarrow> run_status \<Rightarrow> (transition_error, unit) res" where
  "assertTransition source target =
     check (canTransition source target) (Illegal_run_transition source target)"

definition isActive :: "run_status \<Rightarrow> bool" where
  "isActive status \<longleftrightarrow> status \<in> set active_run_statuses"

definition isTerminal :: "run_status \<Rightarrow> bool" where
  "isTerminal status \<longleftrightarrow> status \<in> set terminal_statuses"

definition nextFence :: "nat \<Rightarrow> nat" where
  "nextFence current = current + 1"

text \<open>A life of a run: the statuses it goes through, each an allowed step from the one before.\<close>

inductive run_path :: "run_status \<Rightarrow> run_status list \<Rightarrow> bool" where
  start: "run_path Queued [Queued]"
| step: "run_path s ss \<Longrightarrow> canTransition s t \<Longrightarrow> run_path t (ss @ [t])"

inductive_cases run_pathE: "run_path s ss"

lemmas run_status_defs =
  canTransition_def isActive_def isTerminal_def active_run_statuses_def terminal_statuses_def

lemma run_path_ends:
  "run_path s ss \<Longrightarrow> ss \<noteq> [] \<and> hd ss = Queued \<and> last ss = s"
  by (induction rule: run_path.induct) auto

text \<open>Between two neighbours of a path lies an allowed step.\<close>

lemma run_path_neighbours:
  "run_path s ss \<Longrightarrow> Suc i < length ss \<Longrightarrow> canTransition (ss ! i) (ss ! Suc i)"
proof (induction rule: run_path.induct)
  case (step s ss t)
  show ?case
  proof (cases "Suc i < length ss")
    case True
    with step.IH show ?thesis by (simp add: nth_append)
  next
    case False
    with step.prems have i: "Suc i = length ss" by simp
    then have "ss ! i = s" using run_path_ends [OF step.hyps(1)] by (metis diff_Suc_1 last_conv_nth)
    with i step.hyps(2) show ?thesis by (simp add: nth_append)
  qed
qed simp

lemma only_from_running:
  "canTransition s Completed \<Longrightarrow> s = Running"
  "canTransition s Failed \<Longrightarrow> s = Running"
  "canTransition s Waiting_input \<Longrightarrow> s = Running"
  "canTransition s Waiting_takeover \<Longrightarrow> s = Running"
  by (cases s; simp add: canTransition_def)+

lemma only_from_leased: "canTransition s Running \<Longrightarrow> s = Leased"
  by (cases s) (simp_all add: canTransition_def)

lemma run_path_pred:
  assumes "run_path s ss" and "i < length ss" and "ss ! i \<noteq> Queued"
  obtains j where "i = Suc j" and "canTransition (ss ! j) (ss ! i)"
proof (cases i)
  case 0
  with run_path_ends [OF assms(1)] assms(3) show ?thesis by (metis hd_conv_nth)
next
  case (Suc j)
  with run_path_neighbours [OF assms(1)] assms(2) that show ?thesis by blast
qed

section \<open>Screen leases\<close>

definition screenLeaseId :: "js_string \<Rightarrow> nat \<Rightarrow> js_string" where
  "screenLeaseId runId fence = runId @ js '':'' @ digits_of fence"

record lease =
  ownerId :: js_string
  fence :: rat

definition parseScreenLeaseId :: "js_string \<Rightarrow> lease" where
  "parseScreenLeaseId leaseId =
     (case lastIndexOf leaseId 58 of
        None \<Rightarrow> \<lparr>ownerId = leaseId, fence = 0\<rparr>
      | Some separator \<Rightarrow>
          if separator = 0 then \<lparr>ownerId = leaseId, fence = 0\<rparr>
          else (case to_number (drop (separator + 1) leaseId) of
              Num f \<Rightarrow>
                if \<not> is_int f \<or> f < 0 then \<lparr>ownerId = leaseId, fence = 0\<rparr>
                else \<lparr>ownerId = take separator leaseId, fence = f\<rparr>
            | _ \<Rightarrow> \<lparr>ownerId = leaseId, fence = 0\<rparr>))"

definition canTakeScreenLease :: "js_string option \<Rightarrow> js_string option \<Rightarrow> bool" where
  "canTakeScreenLease existing incoming =
     (if falsy incoming then False
      else if falsy existing \<or> existing = incoming then True
      else fence (parseScreenLeaseId (the incoming)) > fence (parseScreenLeaseId (the existing)))"

definition canReleaseScreenLease :: "js_string option \<Rightarrow> js_string option \<Rightarrow> bool" where
  "canReleaseScreenLease existing incoming =
     (if falsy incoming \<or> falsy existing \<or> existing = incoming then True
      else let current = parseScreenLeaseId (the existing); nxt = parseScreenLeaseId (the incoming)
        in ownerId nxt = ownerId current \<and> fence nxt \<ge> fence current)"

subsection \<open>The tracker of single-screen computers\<close>

record screen_owner =
  screenKey :: js_string
  leaseId :: "js_string option"

record adapter_context =
  botId :: "js_string option"
  screenLease :: "js_string option"

type_synonym screen_owners = "js_string \<rightharpoonup> screen_owner"

datatype screen_error = Computer_screen_unavailable

definition screenSessionKey :: "adapter_context \<Rightarrow> js_string" where
  "screenSessionKey ctx = (case botId ctx of Some b \<Rightarrow> b | None \<Rightarrow> js ''default'')"

definition claim ::
    "screen_owners \<Rightarrow> js_string \<Rightarrow> adapter_context \<Rightarrow> (screen_error, screen_owners) res" where
  "claim owners computerId ctx =
     (let key = screenSessionKey ctx; owner = owners computerId; incoming = screenLease ctx;
          held = (case owner of Some ow \<Rightarrow> leaseId ow | None \<Rightarrow> None)
      in if (case owner of Some ow \<Rightarrow> screenKey ow \<noteq> key | None \<Rightarrow> False)
         then Inl Computer_screen_unavailable
         else if owner \<noteq> None \<and> \<not> canTakeScreenLease held incoming \<and>
                 \<not> falsy incoming \<and> \<not> falsy held \<and> incoming \<noteq> held
         then Inl Computer_screen_unavailable
         else Inr (owners(computerId \<mapsto>
           \<lparr>screenKey = key,
            leaseId = (if canTakeScreenLease held incoming then incoming
                       else if held \<noteq> None then held else incoming)\<rparr>)))"

definition release ::
    "screen_owners \<Rightarrow> js_string \<Rightarrow> adapter_context option \<Rightarrow> bool \<times> screen_owners" where
  "release owners computerId context_opt =
     (case context_opt of
        None \<Rightarrow> (True, owners(computerId := None))
      | Some ctx \<Rightarrow>
          (case owners computerId of
             Some owner \<Rightarrow>
               if screenKey owner = screenSessionKey ctx \<and>
                  canReleaseScreenLease (leaseId owner) (screenLease ctx)
               then (True, owners(computerId := None)) else (False, owners)
           | None \<Rightarrow> (False, owners)))"

text \<open>The fence a computer's screen is held at; no lease counts as 0.\<close>

definition held_fence :: "screen_owners \<Rightarrow> js_string \<Rightarrow> rat" where
  "held_fence owners computerId =
     (case owners computerId of
        Some ow \<Rightarrow> (if falsy (leaseId ow) then 0 else fence (parseScreenLeaseId (the (leaseId ow))))
      | None \<Rightarrow> 0)"

datatype screen_op = Claim js_string adapter_context | Release js_string "adapter_context option"

text \<open>One call on the tracker; a claim that throws leaves the map as it was.\<close>

fun screen_step :: "screen_owners \<Rightarrow> screen_op \<Rightarrow> screen_owners" where
  "screen_step owners (Claim c ctx) = (case claim owners c ctx of Inl _ \<Rightarrow> owners | Inr owners' \<Rightarrow> owners')"
| "screen_step owners (Release c ctx) = snd (release owners c ctx)"

text \<open>The calls that do not free computer \<open>c\<close> held for session \<open>key\<close>.\<close>

fun keeps_screen :: "js_string \<Rightarrow> js_string \<Rightarrow> screen_op \<Rightarrow> bool" where
  "keeps_screen c key (Claim d ctx) = True"
| "keeps_screen c key (Release d None) = (d \<noteq> c)"
| "keeps_screen c key (Release d (Some ctx)) = (d \<noteq> c \<or> screenSessionKey ctx \<noteq> key)"

lemma parse_fence_nonneg: "0 \<le> fence (parseScreenLeaseId l)"
  by (auto simp: parseScreenLeaseId_def split: option.splits js_num.splits)

lemma held_fence_nonneg: "0 \<le> held_fence owners c"
  by (auto simp: held_fence_def parse_fence_nonneg split: option.splits)

lemma parse_screenLeaseId:
  assumes "runId \<noteq> []" and "f < 2 ^ 53"
  shows "parseScreenLeaseId (screenLeaseId runId f) = \<lparr>ownerId = runId, fence = of_nat f\<rparr>"
proof -
  have colon: "js '':'' = [58]" by (simp add: js_def)
  have "58 \<notin> set (digits_of f)" using digits_of_digits digit_neqs by blast
  then have idx: "lastIndexOf (runId @ 58 # digits_of f) 58 = Some (length runId)"
    by (rule lastIndexOf_append_sep)
  show ?thesis
    using assms(1) to_number_digits_of [OF assms(2)]
    by (simp add: parseScreenLeaseId_def screenLeaseId_def colon idx)
qed

lemma claim_fence_mono:
  assumes "claim owners c ctx = Inr owners'"
  shows "held_fence owners c \<le> held_fence owners' c"
proof (cases "owners c")
  case None
  then show ?thesis using held_fence_nonneg [of owners' c] by (simp add: held_fence_def)
next
  case (Some ow)
  show ?thesis
  proof (cases "canTakeScreenLease (leaseId ow) (screenLease ctx)")
    case True
    with Some assms show ?thesis
      by (auto simp: claim_def Let_def held_fence_def canTakeScreenLease_def parse_fence_nonneg
               split: if_splits)
  next
    case False
    with Some assms show ?thesis
      by (auto simp: claim_def Let_def held_fence_def falsy_def parse_fence_nonneg split: if_splits)
  qed
qed

lemma claim_other_computer: "claim owners c ctx = Inr owners' \<Longrightarrow> d \<noteq> c \<Longrightarrow> owners' d = owners d"
  by (auto simp: claim_def Let_def split: if_splits)

lemma release_other_computer: "d \<noteq> c \<Longrightarrow> snd (release owners c ctx) d = owners d"
  by (auto simp: release_def split: option.splits)

lemma screen_step_keeps_owner:
  assumes "owners c = Some ow"
    and "keeps_screen c (screenKey ow) op"
  shows "\<exists>ow'. screen_step owners op c = Some ow' \<and> screenKey ow' = screenKey ow \<and>
           held_fence owners c \<le> held_fence (screen_step owners op) c"
proof (cases op)
  case (Claim d ctx)
  show ?thesis
  proof (cases "claim owners d ctx")
    case (Inl e)
    with Claim assms(1) show ?thesis by simp
  next
    case (Inr owners')
    show ?thesis
    proof (cases "d = c")
      case True
      have "\<exists>ow'. owners' c = Some ow' \<and> screenKey ow' = screenKey ow"
        using Inr True assms(1) by (auto simp: claim_def Let_def split: if_splits)
      with Inr Claim True claim_fence_mono [of owners c ctx owners'] show ?thesis by auto
    next
      case False
      with Inr Claim assms(1) claim_other_computer [OF Inr, of c] show ?thesis
        by (simp add: held_fence_def)
    qed
  qed
next
  case (Release d ctx)
  have "snd (release owners d ctx) c = Some ow"
    using assms Release by (cases ctx) (auto simp: release_def split: option.splits)
  with Release assms(1) show ?thesis by (simp add: held_fence_def)
qed

section \<open>Properties\<close>



text \<open>
  Every status is active or terminal and not both; an active run can always be cancelled;
  \<open>completed\<close> and \<open>cancelled\<close> are final, so in every life of a run nothing follows them, and of
  the terminal statuses only \<open>failed\<close> can be left, back to the queue.
\<close>

theorem run_life_ends:
  "(isActive s \<longleftrightarrow> \<not> isTerminal s) \<and>
   (isActive s \<longrightarrow> assertTransition s Cancelled = Inr ()) \<and>
   (isTerminal s \<longrightarrow> assertTransition s t = Inr () \<longrightarrow> s = Failed \<and> t = Queued) \<and>
   (run_path u ss \<longrightarrow> i < length ss \<longrightarrow> ss ! i \<in> {Completed, Cancelled} \<longrightarrow> Suc i = length ss)"
proof (intro conjI impI)
  show "isActive s \<longleftrightarrow> \<not> isTerminal s" by (cases s) (simp_all add: run_status_defs)
  show "isActive s \<Longrightarrow> assertTransition s Cancelled = Inr ()"
    by (cases s) (simp_all add: run_status_defs assertTransition_def)
  assume "isTerminal s" and "assertTransition s t = Inr ()"
  then show "s = Failed" and "t = Queued"
    by (cases s; simp add: run_status_defs assertTransition_def)+
next
  assume p: "run_path u ss" and i: "i < length ss" and "ss ! i \<in> {Completed, Cancelled}"
  then have "\<not> canTransition (ss ! i) x" for x by (auto simp: canTransition_def)
  with run_path_neighbours [OF p, of i] i show "Suc i = length ss" by fastforce
qed

theorem run_life_ends_witness:
  "isActive Running \<and> assertTransition Running Cancelled = Inr () \<and>
   assertTransition Failed Queued = Inr () \<and> Suc 1 = length [Queued, Cancelled]"
proof -
  have "run_path Cancelled [Queued, Cancelled]"
    using run_path.step [OF run_path.start, of Cancelled] by (simp add: canTransition_def)
  then show ?thesis
    using run_life_ends [of Running Cancelled Cancelled "[Queued, Cancelled]" 1]
      run_life_ends [of Failed Queued Cancelled "[Queued, Cancelled]" 1]
    by (simp add: run_status_defs assertTransition_def)
qed

text \<open>
  A screen lease survives its string form: the id built from a run and a fence is parsed back
  into that run and that fence, for a named run and any fence a double holds exactly.
\<close>

theorem screen_lease_roundtrip:
  "runId \<noteq> [] \<Longrightarrow> f < 2 ^ 53 \<Longrightarrow>
   ownerId (parseScreenLeaseId (screenLeaseId runId f)) = runId \<and>
   fence (parseScreenLeaseId (screenLeaseId runId f)) = of_nat f"
  by (simp add: parse_screenLeaseId)

theorem screen_lease_roundtrip_witness:
  "ownerId (parseScreenLeaseId (screenLeaseId (js ''run:7'') 12)) = js ''run:7'' \<and>
   fence (parseScreenLeaseId (screenLeaseId (js ''run:7'') 12)) = 12"
  using screen_lease_roundtrip [of "js ''run:7''" 12] by simp

text \<open>
  C13. One bot holds a computer's screen at a time and is never fenced backwards: through any
  sequence of claims (by anyone) and releases (by other bots, or of other computers) the holder
  stays the same and the fence of its lease never decreases.
\<close>

theorem screen_held_until_released:
  assumes "owners c = Some ow"
    and "\<forall>op \<in> set ops. keeps_screen c (screenKey ow) op"
  shows "\<exists>ow'. foldl screen_step owners ops c = Some ow' \<and> screenKey ow' = screenKey ow \<and>
           held_fence owners c \<le> held_fence (foldl screen_step owners ops) c"
  using assms
proof (induction ops arbitrary: owners ow)
  case (Cons op ops)
  from Cons.prems obtain ow1 where s1: "screen_step owners op c = Some ow1"
      "screenKey ow1 = screenKey ow" "held_fence owners c \<le> held_fence (screen_step owners op) c"
    using screen_step_keeps_owner [of owners c ow op] by auto
  from Cons.IH [of "screen_step owners op" ow1] Cons.prems(2) s1(1,2)
  obtain ow2 where "foldl screen_step (screen_step owners op) ops c = Some ow2"
      "screenKey ow2 = screenKey ow1"
      "held_fence (screen_step owners op) c \<le> held_fence (foldl screen_step (screen_step owners op) ops) c"
    by auto
  with s1 show ?case by auto
qed simp

theorem screen_held_until_released_witness:
  "\<exists>ow'. foldl screen_step [js ''pc'' \<mapsto> \<lparr>screenKey = js ''a'', leaseId = Some (js ''r:1'')\<rparr>]
      [Claim (js ''pc'') \<lparr>botId = Some (js ''b''), screenLease = Some (js ''q:9'')\<rparr>,
       Release (js ''pc'') (Some \<lparr>botId = Some (js ''b''), screenLease = None\<rparr>)] (js ''pc'') = Some ow' \<and>
    screenKey ow' = js ''a''"
  using screen_held_until_released
    [of "[js ''pc'' \<mapsto> \<lparr>screenKey = js ''a'', leaseId = Some (js ''r:1'')\<rparr>]" "js ''pc''"
        "\<lparr>screenKey = js ''a'', leaseId = Some (js ''r:1'')\<rparr>"
        "[Claim (js ''pc'') \<lparr>botId = Some (js ''b''), screenLease = Some (js ''q:9'')\<rparr>,
          Release (js ''pc'') (Some \<lparr>botId = Some (js ''b''), screenLease = None\<rparr>)]"]
  by (auto simp: screenSessionKey_def)

end
