(* ===== verification/Chief_Activity.thy ===== *)
theory Chief_Activity
  imports Chief_Policy Run_State
begin

text \<open>
  The activity line of a dispatched task (\<open>packages/core/src/chief-activity.ts\<close>) and its projection
  into the committed dispatch (\<open>packages/db/src/chief-activity.ts\<close>). Times are ISO strings:
  \<open>Date.parse\<close> is a parameter that gives milliseconds, or \<open>None\<close> for \<open>NaN\<close>. The URL parser and
  \<open>encodeURIComponent\<close> are parameters too. The rows a transaction reads are the fields of a record,
  and the transaction is one function from them to what it writes.
\<close>

section \<open>Tools and what they are shown as\<close>

datatype tool_capability = Notion_connect | Notion_write | Notion_read_back | Package_check

datatype activity_key =
    Read_input | Connect_notion | Write_notion | Verify_notion | Check_tool | Working | Waiting_tool
  | Blocked blocker_key

record tool_identity =
  tool_name :: js_string
  tool_serviceId :: "js_string option"
  tool_capability :: "tool_capability option"

record activity_rule =
  rule_tools :: "js_string list"
  rule_serviceId :: "js_string option"
  rule_capability :: "tool_capability option"
  rule_activity :: activity_key

definition chief_activity_rules :: "activity_rule list" where
  "chief_activity_rules =
     [\<lparr>rule_tools = [js ''read_file''], rule_serviceId = None, rule_capability = None,
       rule_activity = Read_input\<rparr>,
      \<lparr>rule_tools = [js ''notion-create-pages'', js ''create_page''],
       rule_serviceId = Some (js ''notion''), rule_capability = Some Notion_write,
       rule_activity = Write_notion\<rparr>,
      \<lparr>rule_tools = [js ''notion-fetch'', js ''fetch_page'', js ''retrieve_page''],
       rule_serviceId = Some (js ''notion''), rule_capability = Some Notion_read_back,
       rule_activity = Verify_notion\<rparr>,
      \<lparr>rule_tools = [js ''notion-get-users'', js ''notion-get-self'', js ''get_self''],
       rule_serviceId = Some (js ''notion''), rule_capability = Some Notion_connect,
       rule_activity = Connect_notion\<rparr>,
      \<lparr>rule_tools = [js ''__catalog_search'', js ''__catalog_load''],
       rule_serviceId = None, rule_capability = Some Package_check,
       rule_activity = Check_tool\<rparr>]"

fun chief_activity_text :: "activity_key \<Rightarrow> js_string" where
  "chief_activity_text Read_input = js ''Reading the document''"
| "chief_activity_text Connect_notion = js ''Connecting to Notion''"
| "chief_activity_text Write_notion = js ''Creating the Notion page''"
| "chief_activity_text Verify_notion = js ''Checking the Notion page''"
| "chief_activity_text Check_tool = js ''Checking the missing tool''"
| "chief_activity_text Working = js ''Working on the task''"
| "chief_activity_text Waiting_tool = js ''Waiting for the tool''"
| "chief_activity_text (Blocked b) = blocker_text b"

definition chiefToolCapability :: "tool_identity \<Rightarrow> tool_capability option" where
  "chiefToolCapability tool =
     (case find (\<lambda>row. rule_serviceId row = tool_serviceId tool \<and> tool_name tool \<in> set (rule_tools row))
             chief_activity_rules of
        Some row \<Rightarrow> rule_capability row
      | None \<Rightarrow> None)"

definition chiefToolActivity :: "tool_identity \<Rightarrow> activity_key" where
  "chiefToolActivity tool =
     (let capability = (case tool_capability tool of Some c \<Rightarrow> Some c | None \<Rightarrow> chiefToolCapability tool)
      in case find (\<lambda>row. case rule_capability row of
                 Some c \<Rightarrow> Some c = capability
               | None \<Rightarrow> rule_serviceId row = tool_serviceId tool \<and> tool_name tool \<in> set (rule_tools row))
             chief_activity_rules of
           Some row \<Rightarrow> rule_activity row
         | None \<Rightarrow> Working)"

section \<open>Activity updates\<close>

datatype activity_state = Act_active | Act_idle | Act_waiting | Act_completed | Act_failed | Act_stopped

record chief_activity =
  act_revision :: nat
  act_runId :: js_string
  act_delegationId :: js_string
  attempt :: nat
  sourceSeq :: nat
  executionId :: "js_string option"
  act_key :: activity_key
  act_state :: activity_state
  updatedAt :: js_string

datatype dispatch_state = Messaged | Queued_up | Approval_held | Needs_the_owner

datatype stop_state = Stop_requested | Stop_confirmed | Stop_uncertain | Stop_checking

record chief_stop =
  stop_revision :: nat
  stop_memberName :: js_string
  stop_state :: stop_state

record chief_dispatch =
  requestMessageId :: js_string
  disp_revision :: nat
  disp_memberId :: js_string
  disp_memberName :: js_string
  disp_state :: dispatch_state
  blockerKey :: "blocker_key option"
  disp_reason :: js_string
  disp_runId :: "js_string option"
  disp_delegationId :: "js_string option"
  activity :: "chief_activity option"
  disp_stop :: "chief_stop option"

definition chief_activity_coalesce_ms :: int where "chief_activity_coalesce_ms = 500"
definition chief_tool_stale_ms :: int where "chief_tool_stale_ms = 15000"

text \<open>\<open>Date.parse(a) - Date.parse(b)\<close>, \<open>None\<close> where either is \<open>NaN\<close>; comparisons with \<open>NaN\<close> fail.\<close>

definition since :: "(js_string \<Rightarrow> int option) \<Rightarrow> js_string \<Rightarrow> js_string \<Rightarrow> int option" where
  "since date_parse a b =
     (case (date_parse a, date_parse b) of (Some x, Some y) \<Rightarrow> Some (x - y) | _ \<Rightarrow> None)"

definition chiefActivityShouldPublish ::
    "(js_string \<Rightarrow> int option) \<Rightarrow> chief_activity option \<Rightarrow> chief_activity \<Rightarrow> bool" where
  "chiefActivityShouldPublish date_parse previous nxt \<longleftrightarrow>
     (case previous of
        None \<Rightarrow> True
      | Some p \<Rightarrow> attempt p \<noteq> attempt nxt \<or> act_state p \<noteq> act_state nxt \<or> act_key p \<noteq> act_key nxt \<or>
          (case since date_parse (updatedAt nxt) (updatedAt p) of
             Some d \<Rightarrow> d \<ge> chief_activity_coalesce_ms
           | None \<Rightarrow> False))"

definition staleChiefActivity ::
    "(js_string \<Rightarrow> int option) \<Rightarrow> (int \<Rightarrow> js_string) \<Rightarrow> chief_activity \<Rightarrow> int \<Rightarrow> chief_activity option" where
  "staleChiefActivity date_parse to_iso a now =
     (if act_state a \<noteq> Act_active \<or> act_key a = Waiting_tool \<or>
         (case date_parse (updatedAt a) of Some t \<Rightarrow> now - t < chief_tool_stale_ms | None \<Rightarrow> False)
      then None
      else Some (a\<lparr>act_key := Waiting_tool, sourceSeq := sourceSeq a + 1, updatedAt := to_iso now\<rparr>))"

definition terminal_states :: "activity_state list" where
  "terminal_states = [Act_completed, Act_failed, Act_stopped]"

definition withChiefActivity :: "chief_dispatch \<Rightarrow> chief_activity \<Rightarrow> chief_dispatch" where
  "withChiefActivity d nxt =
     (if disp_revision d \<noteq> act_revision nxt \<or> disp_runId d \<noteq> Some (act_runId nxt) \<or>
         disp_delegationId d \<noteq> Some (act_delegationId nxt)
      then d
      else case activity d of
        None \<Rightarrow> d\<lparr>activity := Some nxt\<rparr>
      | Some p \<Rightarrow>
          if attempt nxt < attempt p \<or> attempt nxt = attempt p \<and> sourceSeq nxt \<le> sourceSeq p then d
          else if act_state p \<in> set terminal_states \<and> attempt nxt = attempt p then d
          else d\<lparr>activity := Some nxt\<rparr>)"

definition chiefActivityKey :: "chief_dispatch \<Rightarrow> activity_key option" where
  "chiefActivityKey d =
     (if disp_state d = Needs_the_owner then map_option Blocked (blockerKey d)
      else if disp_state d = Approval_held then None
      else case activity d of
        None \<Rightarrow> if disp_state d = Messaged then Some Working else None
      | Some a \<Rightarrow> if act_state a = Act_active \<or> act_state a = Act_idle then Some (act_key a) else None)"

section \<open>Results\<close>

datatype verdict = Pass | Fail | Unknown_verdict

record verification =
  verdict :: verdict
  independent :: bool
  ver_artifactId :: js_string
  ver_revision :: nat
  destination :: js_string
  contentDigest :: js_string
  expectedContentDigest :: js_string
  effectReceiptId :: js_string
  pendingEffects :: bool

record result_input =
  res_requestMessageId :: js_string
  res_revision :: nat
  res_artifactId :: js_string
  href :: js_string
  res_verification :: "verification option"

datatype result_state = Draft | Verified_notion

record chief_result =
  out_requestMessageId :: js_string
  out_revision :: nat
  out_artifactId :: js_string
  out_href :: js_string
  out_state :: result_state

definition artifact_href :: "(js_string \<Rightarrow> js_string) \<Rightarrow> js_string \<Rightarrow> js_string" where
  "artifact_href encode artifactId = js ''artifact:'' @ encode artifactId"

definition chiefResultHref ::
    "(js_string \<Rightarrow> js_string) \<Rightarrow> (js_string \<Rightarrow> parsed_url option) \<Rightarrow> js_string \<Rightarrow> js_string \<Rightarrow> bool" where
  "chiefResultHref encode parse_url artifactId link \<longleftrightarrow>
     link = artifact_href encode artifactId \<or>
     (case parse_url link of
        None \<Rightarrow> False
      | Some url \<Rightarrow> protocol url = js ''https:'' \<and> username url = [] \<and> password url = [] \<and>
          (hostname url = js ''www.notion.so'' \<or> hostname url = js ''notion.so'') \<and>
          url_search url = [] \<and> url_hash url = [])"

definition verification_passes :: "result_input \<Rightarrow> verification \<Rightarrow> bool" where
  "verification_passes inp v \<longleftrightarrow>
     startsWith (href inp) (js ''https:'') \<and> verdict v = Pass \<and> independent v \<and>
     ver_artifactId v = res_artifactId inp \<and> ver_revision v = res_revision inp \<and>
     destination v = href inp \<and> contentDigest v \<noteq> [] \<and> contentDigest v = expectedContentDigest v \<and>
     effectReceiptId v \<noteq> [] \<and> \<not> pendingEffects v"

definition chiefResult ::
    "(js_string \<Rightarrow> js_string) \<Rightarrow> (js_string \<Rightarrow> parsed_url option) \<Rightarrow> result_input \<Rightarrow> chief_result option" where
  "chiefResult encode parse_url inp =
     (if \<not> chiefResultHref encode parse_url (res_artifactId inp) (href inp) then None
      else Some
        \<lparr>out_requestMessageId = res_requestMessageId inp, out_revision = res_revision inp,
         out_artifactId = res_artifactId inp, out_href = href inp,
         out_state = (if (case res_verification inp of Some v \<Rightarrow> verification_passes inp v | None \<Rightarrow> False)
                      then Verified_notion else Draft)\<rparr>)"

section \<open>Projection into the committed dispatch\<close>

text \<open>
  The rows of one space and user around one plan: the plan with its saved dispatch (\<open>None\<close> where
  the schema does not parse it), the runs, the delegations, the members of the plan's live group
  under this chief, and the messages of the plan's thread with their blocks. A block of a kind that
  cannot carry a dispatch is opaque.
\<close>

record saved_dispatch =
  parsed_dispatch :: "chief_dispatch option"
  saved_messageId :: "js_string option"
  publishedActivity :: "chief_activity option"

record plan_row =
  plan_id :: js_string
  plan_revision :: nat
  sourceMessageId :: js_string
  plan_dispatch :: "saved_dispatch option"

record run_row =
  run_botId :: js_string
  run_delegationId :: "js_string option"
  leaseFence :: nat
  status :: run_status
  cancelRequested :: bool

record delegation_row =
  del_runId :: "js_string option"
  actingBotId :: js_string

datatype message_block =
    Handoff js_string "chief_dispatch option"
  | Bot_message_sent js_string "chief_dispatch option"
  | Other_block js_string

record activity_db =
  db_plan :: "plan_row option"
  db_runs :: "js_string \<Rightarrow> run_row option"
  db_delegations :: "js_string \<Rightarrow> delegation_row option"
  db_group_members :: "js_string list"
  db_messages :: "js_string \<Rightarrow> message_block list option"

record project_input =
  prj_planId :: js_string
  prj_botId :: js_string
  prj_activity :: chief_activity

record message_updated =
  upd_messageId :: js_string
  upd_blocks :: "message_block list"

definition settled_state :: "run_status \<Rightarrow> activity_state \<Rightarrow> activity_state" where
  "settled_state st otherwise =
     (if st = Completed then Act_completed
      else if st = Failed then Act_failed
      else if st = Cancelled then Act_stopped
      else if st = Waiting_input \<or> st = Waiting_takeover then Act_waiting
      else otherwise)"

fun set_dispatch :: "js_string \<Rightarrow> chief_dispatch \<Rightarrow> message_block \<Rightarrow> message_block" where
  "set_dispatch source d (Handoff payload old) =
     Handoff payload (if map_option requestMessageId old = Some source then Some d else old)"
| "set_dispatch source d (Bot_message_sent payload old) =
     Bot_message_sent payload (if map_option requestMessageId old = Some source then Some d else old)"
| "set_dispatch source d (Other_block payload) = Other_block payload"

text \<open>The guards before the write: the dispatch the update may change, with the run it is about.\<close>

definition projectable :: "activity_db \<Rightarrow> project_input \<Rightarrow>
    (plan_row \<times> saved_dispatch \<times> chief_dispatch \<times> js_string \<times> run_row) option" where
  "projectable db inp =
     (case db_plan db of
        None \<Rightarrow> None
      | Some plan \<Rightarrow>
          if plan_id plan \<noteq> prj_planId inp then None
          else case plan_dispatch plan of
            None \<Rightarrow> None
          | Some saved \<Rightarrow>
              (case (parsed_dispatch saved, saved_messageId saved) of
                 (Some d, Some messageId) \<Rightarrow>
                   if messageId = [] \<or> plan_revision plan \<noteq> act_revision (prj_activity inp) \<or>
                      disp_memberId d \<noteq> prj_botId inp
                   then None
                   else (case db_runs db (act_runId (prj_activity inp)) of
                       None \<Rightarrow> None
                     | Some run \<Rightarrow>
                         if run_botId run \<noteq> prj_botId inp \<or>
                            run_delegationId run \<noteq> Some (act_delegationId (prj_activity inp)) \<or>
                            leaseFence run \<noteq> attempt (prj_activity inp) \<or>
                            prj_botId inp \<notin> set (db_group_members db) \<or>
                            (act_state (prj_activity inp) = Act_active \<or> act_state (prj_activity inp) = Act_idle) \<and>
                            (status run \<noteq> Running \<or> cancelRequested run)
                         then None
                         else Some (plan, saved, d, messageId, run))
               | _ \<Rightarrow> None))"

definition projectChiefActivity ::
    "(js_string \<Rightarrow> int option) \<Rightarrow> activity_db \<Rightarrow> project_input \<Rightarrow> activity_db \<times> message_updated option" where
  "projectChiefActivity date_parse db inp =
     (case projectable db inp of
        None \<Rightarrow> (db, None)
      | Some (plan, saved, d, messageId, run) \<Rightarrow>
          let authoritative = settled_state (status run) (act_state (prj_activity inp));
              update = (prj_activity inp)\<lparr>act_state := authoritative\<rparr>;
              nxt = withChiefActivity d update
          in if nxt = d then (db, None)
             else case db_messages db messageId of
               None \<Rightarrow> (db, None)
             | Some old_blocks \<Rightarrow>
                 let publish = chiefActivityShouldPublish date_parse (publishedActivity saved) (the (activity nxt));
                     saved' = \<lparr>parsed_dispatch = Some nxt, saved_messageId = Some messageId,
                       publishedActivity = (if publish then activity nxt else publishedActivity saved)\<rparr>;
                     blocks = map (set_dispatch (sourceMessageId plan) nxt) old_blocks
                 in (db\<lparr>db_plan := Some (plan\<lparr>plan_dispatch := Some saved'\<rparr>),
                       db_messages := (db_messages db)(messageId \<mapsto> blocks)\<rparr>,
                     if publish then Some \<lparr>upd_messageId = messageId, upd_blocks = blocks\<rparr> else None))"

definition settleable :: "run_status list" where
  "settleable = [Completed, Failed, Cancelled, Waiting_input, Waiting_takeover]"

definition settleChiefActivity ::
    "(js_string \<Rightarrow> int option) \<Rightarrow> js_string \<Rightarrow> activity_db \<Rightarrow> js_string \<Rightarrow> activity_db \<times> message_updated option" where
  "settleChiefActivity date_parse now db delegationId =
     (case db_delegations db delegationId of
        None \<Rightarrow> (db, None)
      | Some row \<Rightarrow>
          if falsy (del_runId row) then (db, None)
          else (case (db_plan db, db_runs db (the (del_runId row))) of
              (Some plan, Some run) \<Rightarrow>
                (case map_option parsed_dispatch (plan_dispatch plan) of
                   Some (Some d) \<Rightarrow>
                     if disp_delegationId d \<noteq> Some delegationId \<or> status run \<notin> set settleable then (db, None)
                     else projectChiefActivity date_parse db
                       \<lparr>prj_planId = plan_id plan, prj_botId = actingBotId row,
                        prj_activity =
                          \<lparr>act_revision = plan_revision plan, act_runId = the (del_runId row),
                           act_delegationId = delegationId, attempt = leaseFence run,
                           sourceSeq = (case activity d of Some a \<Rightarrow> sourceSeq a | None \<Rightarrow> 0) + 1,
                           executionId = None,
                           act_key = (case activity d of Some a \<Rightarrow> act_key a | None \<Rightarrow> Working),
                           act_state = settled_state (status run) Act_waiting, updatedAt = now\<rparr>\<rparr>
                 | _ \<Rightarrow> (db, None))
            | _ \<Rightarrow> (db, None)))"

section \<open>Properties\<close>

text \<open>How far an update is: a later attempt, or the same attempt and at least the same cursor.\<close>

definition not_before :: "chief_activity \<Rightarrow> chief_activity \<Rightarrow> bool" where
  "not_before a b \<longleftrightarrow> attempt a < attempt b \<or> attempt a = attempt b \<and> sourceSeq a \<le> sourceSeq b"

definition follows :: "chief_activity \<Rightarrow> chief_activity \<Rightarrow> bool" where
  "follows a b \<longleftrightarrow> not_before a b \<and>
     (act_state a \<in> set terminal_states \<longrightarrow> attempt b = attempt a \<longrightarrow> b = a)"

lemma follows_refl: "follows a a"
  by (simp add: follows_def not_before_def)

lemma not_before_trans: "not_before a b \<Longrightarrow> not_before b c \<Longrightarrow> not_before a c"
  unfolding not_before_def by linarith

lemma follows_trans:
  assumes ab: "follows a b" and bc: "follows b c"
  shows "follows a c"
  unfolding follows_def
proof (intro conjI impI)
  show "not_before a c" using ab bc not_before_trans unfolding follows_def by blast
  assume t: "act_state a \<in> set terminal_states" and eq: "attempt c = attempt a"
  have "attempt b = attempt a" using ab bc eq unfolding follows_def not_before_def by linarith
  then have "b = a" using ab t unfolding follows_def by blast
  then show "c = a" using bc t eq unfolding follows_def by blast
qed

lemma withChiefActivity_frame: "(withChiefActivity d a)\<lparr>activity := x\<rparr> = d\<lparr>activity := x\<rparr>"
  by (simp add: withChiefActivity_def split: option.split)

lemma withChiefActivity_follows:
  assumes "activity d = Some a"
  shows "\<exists>b \<in> {a, nxt}. activity (withChiefActivity d nxt) = Some b \<and> follows a b"
  using assms follows_refl [of a] by (auto simp: withChiefActivity_def follows_def not_before_def)

text \<open>
  C16. However the updates of a dispatched run arrive, late, replayed or out of order, the activity
  shown never goes back to an earlier attempt or cursor, what ended an attempt stays until a later
  attempt, it is always one of the updates received, and nothing else of the dispatch changes.
\<close>

theorem activity_never_goes_back:
  assumes "activity d = Some a"
  shows "\<exists>b \<in> insert a (set updates). activity (foldl withChiefActivity d updates) = Some b \<and>
     (attempt a < attempt b \<or> attempt a = attempt b \<and> sourceSeq a \<le> sourceSeq b) \<and>
     (act_state a \<in> {Act_completed, Act_failed, Act_stopped} \<and> attempt b = attempt a \<longrightarrow> b = a) \<and>
     (foldl withChiefActivity d updates)\<lparr>activity := Some a\<rparr> = d"
proof -
  have "\<exists>b \<in> insert a (set updates). activity (foldl withChiefActivity d updates) = Some b \<and>
      follows a b \<and> (foldl withChiefActivity d updates)\<lparr>activity := Some a\<rparr> = d"
    using assms
  proof (induction updates rule: rev_induct)
    case Nil
    then show ?case by (simp add: follows_refl)
  next
    case (snoc u us)
    then obtain b where b: "b \<in> insert a (set us)" "activity (foldl withChiefActivity d us) = Some b"
      "follows a b" "(foldl withChiefActivity d us)\<lparr>activity := Some a\<rparr> = d" by blast
    from withChiefActivity_follows [OF b(2), of u] show ?case
      using b follows_trans [OF b(3)] by (fastforce simp: withChiefActivity_frame)
  qed
  then show ?thesis by (auto simp: follows_def not_before_def terminal_states_def)
qed

definition sample_activity :: chief_activity where
  "sample_activity =
     \<lparr>act_revision = 1, act_runId = js ''r1'', act_delegationId = js ''d1'', attempt = 3, sourceSeq = 7,
      executionId = None, act_key = Working, act_state = Act_completed, updatedAt = js ''t''\<rparr>"

definition sample_dispatch :: chief_dispatch where
  "sample_dispatch =
     \<lparr>requestMessageId = js ''m1'', disp_revision = 1, disp_memberId = js ''b1'',
      disp_memberName = js ''Ann'', disp_state = Messaged, blockerKey = None, disp_reason = [],
      disp_runId = Some (js ''r1''), disp_delegationId = Some (js ''d1''),
      activity = Some sample_activity, disp_stop = None\<rparr>"

theorem activity_never_goes_back_witness:
  "\<exists>b \<in> {sample_activity, sample_activity\<lparr>sourceSeq := 9, act_state := Act_active\<rparr>}.
     activity (foldl withChiefActivity sample_dispatch
       [sample_activity\<lparr>sourceSeq := 9, act_state := Act_active\<rparr>]) = Some b \<and> sourceSeq b \<ge> 7"
proof -
  have "activity sample_dispatch = Some sample_activity" by (simp add: sample_dispatch_def)
  moreover have "sourceSeq sample_activity = 7" by (simp add: sample_activity_def)
  ultimately show ?thesis
    using activity_never_goes_back [of sample_dispatch sample_activity
      "[sample_activity\<lparr>sourceSeq := 9, act_state := Act_active\<rparr>]"] by auto
qed

definition settling_update ::
    "js_string \<Rightarrow> plan_row \<Rightarrow> chief_dispatch \<Rightarrow> js_string \<Rightarrow> js_string \<Rightarrow> run_row \<Rightarrow> chief_activity" where
  "settling_update now plan d runId delegationId run =
     \<lparr>act_revision = plan_revision plan, act_runId = runId, act_delegationId = delegationId,
      attempt = leaseFence run, sourceSeq = (case activity d of Some a \<Rightarrow> sourceSeq a | None \<Rightarrow> 0) + 1,
      executionId = None, act_key = (case activity d of Some a \<Rightarrow> act_key a | None \<Rightarrow> Working),
      act_state = settled_state (status run) Act_waiting, updatedAt = now\<rparr>"

lemma settled_state_idem [simp]: "settled_state st (settled_state st x) = settled_state st x"
  by (simp add: settled_state_def)

lemma settled_state_settleable: "st \<in> set settleable \<Longrightarrow> settled_state st x \<notin> {Act_active, Act_idle}"
  by (auto simp: settled_state_def settleable_def)

lemma settling_accepted:
  assumes "disp_delegationId d = Some delegationId" and "disp_runId d = Some runId"
    and "disp_revision d = plan_revision plan"
    and "\<And>a. activity d = Some a \<Longrightarrow> attempt a < leaseFence run \<or>
          attempt a = leaseFence run \<and> act_state a \<notin> set terminal_states"
  shows "withChiefActivity d (settling_update now plan d runId delegationId run) =
       d\<lparr>activity := Some (settling_update now plan d runId delegationId run)\<rparr>"
    and "withChiefActivity d (settling_update now plan d runId delegationId run) \<noteq> d"
proof -
  let ?u = "settling_update now plan d runId delegationId run"
  have fields: "act_revision ?u = plan_revision plan" "act_runId ?u = runId"
    "act_delegationId ?u = delegationId" "attempt ?u = leaseFence run"
    "sourceSeq ?u = (case activity d of Some a \<Rightarrow> sourceSeq a | None \<Rightarrow> 0) + 1"
    by (simp_all add: settling_update_def)
  show eq: "withChiefActivity d ?u = d\<lparr>activity := Some ?u\<rparr>"
    using assms(1-3) assms(4) fields by (auto simp: withChiefActivity_def split: option.split)
  have "activity d \<noteq> Some ?u" using fields(5) by auto
  then show "withChiefActivity d ?u \<noteq> d" unfolding eq
    by (metis chief_dispatch.select_convs(10) chief_dispatch.surjective chief_dispatch.update_convs(10))
qed

text \<open>
  Recovery settles the line: when a delegated run has ended or waits, its plan still dispatches
  that run, and no end of this attempt is shown yet, then settling stores and shows the state the
  run's status stands for, on the run's own attempt, whatever was shown before.
\<close>

theorem settle_shows_outcome:
  assumes "db_delegations db delegationId = Some row" and "del_runId row = Some runId" and "runId \<noteq> []"
    and "db_plan db = Some plan" and "plan_dispatch plan = Some saved"
    and "parsed_dispatch saved = Some d" and "saved_messageId saved = Some messageId" and "messageId \<noteq> []"
    and "disp_delegationId d = Some delegationId" and "disp_runId d = Some runId"
    and "disp_revision d = plan_revision plan" and "disp_memberId d = actingBotId row"
    and "actingBotId row \<in> set (db_group_members db)"
    and "db_runs db runId = Some run" and "run_botId run = actingBotId row"
    and "run_delegationId run = Some delegationId" and "status run \<in> set settleable"
    and "db_messages db messageId = Some blocks"
    and "\<And>a. activity d = Some a \<Longrightarrow> attempt a < leaseFence run \<or>
          attempt a = leaseFence run \<and> act_state a \<notin> set terminal_states"
  shows "\<exists>plan' saved' d' a.
     db_plan (fst (settleChiefActivity date_parse now db delegationId)) = Some plan' \<and>
     plan_dispatch plan' = Some saved' \<and> parsed_dispatch saved' = Some d' \<and> activity d' = Some a \<and>
     act_state a = settled_state (status run) Act_waiting \<and>
     act_state a \<notin> {Act_active, Act_idle} \<and> attempt a = leaseFence run"
proof -
  let ?u = "settling_update now plan d runId delegationId run"
  let ?inp = "\<lparr>prj_planId = plan_id plan, prj_botId = actingBotId row, prj_activity = ?u\<rparr>"
  have settle: "settleChiefActivity date_parse now db delegationId = projectChiefActivity date_parse db ?inp"
    using assms(1-6,9,14,17) by (simp add: settleChiefActivity_def settling_update_def falsy_def)
  have state: "act_state ?u = settled_state (status run) Act_waiting" "attempt ?u = leaseFence run"
    by (simp_all add: settling_update_def)
  have live: "act_state ?u \<notin> {Act_active, Act_idle}"
    unfolding state by (rule settled_state_settleable [OF assms(17)])
  have guards: "projectable db ?inp = Some (plan, saved, d, messageId, run)"
    using assms live by (simp add: projectable_def settling_update_def)
  have same: "?u\<lparr>act_state := settled_state (status run) (act_state ?u)\<rparr> = ?u"
    by (simp add: settling_update_def)
  note accepted = settling_accepted [OF assms(9-11,19), of now]
  have "\<exists>plan' saved' d'. db_plan (fst (projectChiefActivity date_parse db ?inp)) = Some plan' \<and>
      plan_dispatch plan' = Some saved' \<and> parsed_dispatch saved' = Some d' \<and> activity d' = Some ?u"
    using accepted assms(18) same by (simp add: projectChiefActivity_def guards Let_def)
  then show ?thesis using settle state live by auto
qed

definition sample_db :: activity_db where
  "sample_db =
     \<lparr>db_plan = Some \<lparr>plan_id = js ''p1'', plan_revision = 1, sourceMessageId = js ''m1'',
        plan_dispatch = Some \<lparr>parsed_dispatch = Some (sample_dispatch\<lparr>activity := None\<rparr>),
          saved_messageId = Some (js ''m2''), publishedActivity = None\<rparr>\<rparr>,
      db_runs = [js ''r1'' \<mapsto> \<lparr>run_botId = js ''b1'', run_delegationId = Some (js ''d1''), leaseFence = 3,
        status = Failed, cancelRequested = False\<rparr>],
      db_delegations = [js ''d1'' \<mapsto> \<lparr>del_runId = Some (js ''r1''), actingBotId = js ''b1''\<rparr>],
      db_group_members = [js ''b1''],
      db_messages = [js ''m2'' \<mapsto> [Handoff [] (Some (sample_dispatch\<lparr>activity := None\<rparr>))]]\<rparr>"

theorem settle_shows_outcome_witness:
  "\<exists>plan' saved' d' a. db_plan (fst (settleChiefActivity (\<lambda>_. None) [] sample_db (js ''d1''))) = Some plan' \<and>
     plan_dispatch plan' = Some saved' \<and> parsed_dispatch saved' = Some d' \<and> activity d' = Some a \<and>
     act_state a = Act_failed"
proof -
  let ?run = "the (db_runs sample_db (js ''r1''))"
  have "settled_state (status ?run) Act_waiting = Act_failed"
    by (simp add: sample_db_def settled_state_def)
  moreover have "\<exists>plan' saved' d' a.
     db_plan (fst (settleChiefActivity (\<lambda>_. None) [] sample_db (js ''d1''))) = Some plan' \<and>
     plan_dispatch plan' = Some saved' \<and> parsed_dispatch saved' = Some d' \<and> activity d' = Some a \<and>
     act_state a = settled_state (status ?run) Act_waiting \<and>
     act_state a \<notin> {Act_active, Act_idle} \<and> attempt a = leaseFence ?run"
    by (rule settle_shows_outcome [of sample_db "js ''d1''" "the (db_delegations sample_db (js ''d1''))"
          "js ''r1''" "the (db_plan sample_db)" "the (plan_dispatch (the (db_plan sample_db)))"
          "sample_dispatch\<lparr>activity := None\<rparr>" "js ''m2''" ?run])
      (simp_all add: sample_db_def sample_dispatch_def settleable_def)
  ultimately show ?thesis by auto
qed

text \<open>
  A result is shown as verified only on the strength of an independent read-back that passed,
  for this artifact, revision and https destination, with the expected content, an effect receipt
  and no effect still pending; a link is shown at all only when it is the artifact's own or a plain
  https page of Notion. A result without a verification is a draft.
\<close>

theorem verified_only_by_read_back:
  assumes "chiefResult encode parse_url inp = Some r"
  shows "(out_state r = Verified_notion \<longleftrightarrow>
        (\<exists>v. res_verification inp = Some v \<and> verification_passes inp v)) \<and>
     (out_state r = Verified_notion \<longrightarrow> out_href r \<noteq> artifact_href encode (out_artifactId r) \<and>
        (\<exists>url. parse_url (out_href r) = Some url \<and> protocol url = js ''https:'' \<and>
           hostname url \<in> {js ''www.notion.so'', js ''notion.so''} \<and> username url = [] \<and> password url = [])) \<and>
     out_href r = href inp \<and> out_artifactId r = res_artifactId inp \<and> out_revision r = res_revision inp"
proof -
  have *: "\<not> startsWith (artifact_href encode a) (js ''https:'')" for a
    by (simp add: artifact_href_def startsWith_def js_def)
  have r: "r = \<lparr>out_requestMessageId = res_requestMessageId inp, out_revision = res_revision inp,
         out_artifactId = res_artifactId inp, out_href = href inp,
         out_state = (if (case res_verification inp of Some v \<Rightarrow> verification_passes inp v | None \<Rightarrow> False)
                      then Verified_notion else Draft)\<rparr>"
    and ok: "chiefResultHref encode parse_url (res_artifactId inp) (href inp)"
    using assms by (auto simp: chiefResult_def split: if_splits)
  have "out_state r = Verified_notion \<longleftrightarrow> (\<exists>v. res_verification inp = Some v \<and> verification_passes inp v)"
    by (auto simp: r split: option.splits)
  moreover have "href inp \<noteq> artifact_href encode (res_artifactId inp)" if "verification_passes inp v" for v
    using that * unfolding verification_passes_def by auto
  moreover have "\<exists>url. parse_url (href inp) = Some url \<and> protocol url = js ''https:'' \<and>
       hostname url \<in> {js ''www.notion.so'', js ''notion.so''} \<and> username url = [] \<and> password url = []"
    if "href inp \<noteq> artifact_href encode (res_artifactId inp)"
    using ok that by (cases "parse_url (href inp)") (auto simp: chiefResultHref_def)
  ultimately show ?thesis using r by auto
qed

theorem verified_only_by_read_back_witness:
  "\<exists>r. chiefResult id (\<lambda>_. None)
     \<lparr>res_requestMessageId = js ''m1'', res_revision = 1, res_artifactId = js ''a1'',
      href = js ''artifact:a1'', res_verification = None\<rparr> = Some r \<and> out_state r \<noteq> Verified_notion"
proof -
  let ?inp = "\<lparr>res_requestMessageId = js ''m1'', res_revision = 1, res_artifactId = js ''a1'',
      href = js ''artifact:a1'', res_verification = None\<rparr>"
  have "chiefResult id (\<lambda>_. None) ?inp \<noteq> None" by code_simp
  then obtain r where r: "chiefResult id (\<lambda>_. None) ?inp = Some r" by blast
  then show ?thesis using verified_only_by_read_back [OF r] by simp
qed

end
