(* ===== verification/Json.thy ===== *)
theory Json
  imports JsNumber
begin

text \<open>
  JSON values and their canonical text (\<open>packages/evidence/src/jcs.ts\<close>, RFC 8785), with the parts
  of \<open>JSON.stringify\<close>, \<open>Number::toString\<close> and \<open>JSON.parse\<close> it and its callers rest on. A value is
  plain data: an object is the list of its own properties, in insertion order and with distinct
  keys. What the source also rejects but plain data cannot be (cycles, holes, accessors, symbols,
  class instances) has no counterpart in the type. The main result is that parsing canonical text
  gives the value back, up to the order of object keys.
\<close>

section \<open>Values\<close>

datatype json =
    Null
  | Bool bool
  | Number js_num
  | String js_string
  | Array "json list"
  | Object "(js_string \<times> json) list"

datatype json_error = Non_finite_number | Unsafe_integer | Lone_surrogate

text \<open>Own properties: \<open>value[key]\<close> of an object, \<open>None\<close> where the property is missing.\<close>

fun own :: "json \<Rightarrow> js_string \<Rightarrow> json option" where
  "own (Object kvs) k = map_of kvs k"
| "own _ k = None"

fun is_object :: "json \<Rightarrow> bool" where
  "is_object (Object _) = True"
| "is_object _ = False"

fun keys_of :: "json \<Rightarrow> js_string list" where
  "keys_of (Object kvs) = map fst kvs"
| "keys_of _ = []"

text \<open>Objects have distinct keys, at every depth.\<close>

fun wf_json :: "json \<Rightarrow> bool" where
  "wf_json (Array vs) = (\<forall>v \<in> set vs. wf_json v)"
| "wf_json (Object kvs) = (distinct (map fst kvs) \<and> (\<forall>kv \<in> set kvs. wf_json (snd kv)))"
| "wf_json _ = True"

section \<open>Text of numbers and strings\<close>

definition hex_digit :: "nat \<Rightarrow> unit16" where
  "hex_digit n = (if n < 10 then of_nat (48 + n) else of_nat (87 + n))"

definition hex4 :: "unit16 \<Rightarrow> js_string" where
  "hex4 c = (let n = unat c in
     [hex_digit (n div 4096), hex_digit (n div 256 mod 16), hex_digit (n div 16 mod 16), hex_digit (n mod 16)])"

definition high_surrogate :: "unit16 \<Rightarrow> bool" where
  "high_surrogate c \<longleftrightarrow> 0xD800 \<le> c \<and> c \<le> 0xDBFF"

definition low_surrogate :: "unit16 \<Rightarrow> bool" where
  "low_surrogate c \<longleftrightarrow> 0xDC00 \<le> c \<and> c \<le> 0xDFFF"

definition escape_unit :: "unit16 \<Rightarrow> js_string" where
  "escape_unit c =
     (if c = 8 then [92, 98] else if c = 9 then [92, 116] else if c = 10 then [92, 110]
      else if c = 12 then [92, 102] else if c = 13 then [92, 114]
      else if c = 34 then [92, 34] else if c = 92 then [92, 92]
      else if c < 32 then [92, 117] @ hex4 c else [c])"

fun quote_body :: "js_string \<Rightarrow> js_string" where
  "quote_body [] = []"
| "quote_body [c] = (if high_surrogate c \<or> low_surrogate c then [92, 117] @ hex4 c else escape_unit c)"
| "quote_body (c # d # s) =
     (if high_surrogate c \<and> low_surrogate d then c # d # quote_body s
      else (if high_surrogate c \<or> low_surrogate c then [92, 117] @ hex4 c else escape_unit c) @ quote_body (d # s))"

text \<open>\<open>JSON.stringify\<close> of a string.\<close>

definition json_quote :: "js_string \<Rightarrow> js_string" where
  "json_quote s = 34 # quote_body s @ [34]"

fun well_formed :: "js_string \<Rightarrow> bool" where
  "well_formed [] = True"
| "well_formed [c] = (\<not> high_surrogate c \<and> \<not> low_surrogate c)"
| "well_formed (c # d # s) =
     (if high_surrogate c then low_surrogate d \<and> well_formed s
      else \<not> low_surrogate c \<and> well_formed (d # s))"

definition serializeString :: "js_string \<Rightarrow> (json_error, js_string) res" where
  "serializeString s = (if well_formed s then Inr (json_quote s) else Inl Lone_surrogate)"

text \<open>
  \<open>Number::toString\<close>: the shortest digits \<open>s\<close> that read back as the same double, \<open>k\<close> of them,
  standing for \<open>s * 10^(n-k)\<close>; seventeen digits always do.
\<close>

definition pow10 :: "int \<Rightarrow> rat" where
  "pow10 e = scale10 1 e"

fun decimal_exponent :: "nat \<Rightarrow> rat \<Rightarrow> int \<Rightarrow> int" where
  "decimal_exponent 0 a n = n"
| "decimal_exponent (Suc fuel) a n =
     (if a < pow10 (n - 1) then decimal_exponent fuel a (n - 1)
      else if pow10 n \<le> a then decimal_exponent fuel a (n + 1) else n)"

definition digit_candidates :: "rat \<Rightarrow> int \<Rightarrow> nat \<Rightarrow> int list" where
  "digit_candidates a n k =
     (let lo = \<lfloor>a * pow10 (int k - n)\<rfloor>;
          ok = (\<lambda>s. 0 < s \<and> round_double (of_int s * pow10 (n - int k)) = Num a);
          dist = (\<lambda>s. \<bar>of_int s * pow10 (n - int k) - a\<bar>)
      in if ok lo \<and> ok (lo + 1) then (if dist lo \<le> dist (lo + 1) then [lo] else [lo + 1])
         else filter ok [lo, lo + 1])"

fun shortest_digits :: "rat \<Rightarrow> int \<Rightarrow> nat list \<Rightarrow> (int \<times> int \<times> nat) option" where
  "shortest_digits a n [] = None"
| "shortest_digits a n (k # ks) =
     (case digit_candidates a n k of
        [] \<Rightarrow> shortest_digits a n ks
      | s # _ \<Rightarrow> Some (if s = 10 ^ k then (10 ^ (k - 1), n + 1, k) else (s, n, k)))"

definition exponent_text :: "int \<Rightarrow> js_string" where
  "exponent_text e = (if 0 \<le> e then 101 # 43 # digits_of (nat e) else 101 # 45 # digits_of (nat (- e)))"

definition format_digits :: "int \<Rightarrow> int \<Rightarrow> nat \<Rightarrow> js_string" where
  "format_digits s n k =
     (let ds = digits_of (nat s) in
      if int k \<le> n \<and> n \<le> 21 then ds @ replicate (nat n - k) 48
      else if 0 < n \<and> n \<le> 21 then take (nat n) ds @ 46 # drop (nat n) ds
      else if - 6 < n \<and> n \<le> 0 then 48 # 46 # replicate (nat (- n)) 48 @ ds
      else if k = 1 then ds @ exponent_text (n - 1)
      else take 1 ds @ 46 # drop 1 ds @ exponent_text (n - 1))"

definition positive_text :: "rat \<Rightarrow> js_string" where
  "positive_text a =
     (case shortest_digits a (decimal_exponent 400 a 1) [1..<18] of
        Some (s, n, k) \<Rightarrow> format_digits s n k
      | None \<Rightarrow> [])"

text \<open>Integers below \<open>2^53\<close> are their own shortest digits.\<close>

definition number_to_string :: "rat \<Rightarrow> js_string" where
  "number_to_string r =
     (if is_int r \<and> \<bar>r\<bar> \<le> of_int max_safe_integer then string_of_int \<lfloor>r\<rfloor>
      else if r < 0 then 45 # positive_text (- r) else positive_text r)"

section \<open>Canonical text\<close>

fun encode_number :: "js_num \<Rightarrow> (json_error, js_string) res" where
  "encode_number (Num r) =
     (let encoded = number_to_string r in
      if is_int r \<and> \<not> is_safe_integer (Num r) \<and> 101 \<notin> set encoded then Inl Unsafe_integer
      else Inr encoded)"
| "encode_number _ = Inl Non_finite_number"

fun collect :: "('e, 'a) res list \<Rightarrow> ('e, 'a list) res" where
  "collect [] = Inr []"
| "collect (r # rs) = and_then r (\<lambda>x. and_then (collect rs) (\<lambda>xs. Inr (x # xs)))"

definition entry :: "js_string \<times> (json_error, js_string) res \<Rightarrow> (json_error, js_string) res" where
  "entry kr = and_then (serializeString (fst kr)) (\<lambda>k. and_then (snd kr) (\<lambda>v. Inr (k @ 58 # v)))"

fun canonicalize :: "json \<Rightarrow> (json_error, js_string) res" where
  "canonicalize Null = Inr (js ''null'')"
| "canonicalize (Bool b) = Inr (if b then js ''true'' else js ''false'')"
| "canonicalize (Number x) = encode_number x"
| "canonicalize (String s) = serializeString s"
| "canonicalize (Array vs) =
     and_then (collect (map canonicalize vs)) (\<lambda>es. Inr (91 # join [44] es @ [93]))"
| "canonicalize (Object kvs) =
     and_then (collect (map entry (sort_key fst (map (\<lambda>kv. (fst kv, canonicalize (snd kv))) kvs))))
       (\<lambda>es. Inr (123 # join [44] es @ [125]))"

section \<open>Reading JSON\<close>

definition json_space :: "unit16 \<Rightarrow> bool" where
  "json_space c \<longleftrightarrow> c = 32 \<or> c = 9 \<or> c = 10 \<or> c = 13"

definition skip_ws :: "js_string \<Rightarrow> js_string" where
  "skip_ws s = dropWhile json_space s"

definition unescape :: "unit16 \<Rightarrow> unit16 option" where
  "unescape e =
     (if e = 34 \<or> e = 92 \<or> e = 47 then Some e
      else if e = 98 then Some 8 else if e = 116 then Some 9 else if e = 110 then Some 10
      else if e = 102 then Some 12 else if e = 114 then Some 13 else None)"

definition unhex4 :: "unit16 \<Rightarrow> unit16 \<Rightarrow> unit16 \<Rightarrow> unit16 \<Rightarrow> unit16 option" where
  "unhex4 a b c d = map_option of_nat (radix_value 16 0 [a, b, c, d])"

fun parse_chars :: "js_string \<Rightarrow> (js_string \<times> js_string) option" where
  "parse_chars [] = None"
| "parse_chars (c # r) =
     (if c = 34 then Some ([], r)
      else if c = 92 then
        (case r of
           [] \<Rightarrow> None
         | e # r1 \<Rightarrow>
             if e = 117 then
               (case r1 of
                  h1 # h2 # h3 # h4 # r2 \<Rightarrow>
                    (case unhex4 h1 h2 h3 h4 of
                       Some u \<Rightarrow> map_option (\<lambda>(s, t). (u # s, t)) (parse_chars r2)
                     | None \<Rightarrow> None)
                | _ \<Rightarrow> None)
             else (case unescape e of
                 Some u \<Rightarrow> map_option (\<lambda>(s, t). (u # s, t)) (parse_chars r1)
               | None \<Rightarrow> None))
      else if c < 32 then None
      else map_option (\<lambda>(s, t). (c # s, t)) (parse_chars r))"

text \<open>The number literal at the front: an optional minus, digits without a leading zero, an
  optional fraction and an optional exponent.\<close>

definition take_digits :: "js_string \<Rightarrow> js_string" where
  "take_digits s = takeWhile is_digit s"

definition take_int :: "js_string \<Rightarrow> js_string" where
  "take_int s = (if s \<noteq> [] \<and> hd s = 48 then [48] else take_digits s)"

definition take_fraction :: "js_string \<Rightarrow> js_string" where
  "take_fraction s =
     (if s \<noteq> [] \<and> hd s = 46 \<and> take_digits (tl s) \<noteq> [] then 46 # take_digits (tl s) else [])"

definition take_exponent :: "js_string \<Rightarrow> js_string" where
  "take_exponent s =
     (if s \<noteq> [] \<and> (hd s = 101 \<or> hd s = 69)
      then let sign = (if tl s \<noteq> [] \<and> (hd (tl s) = 43 \<or> hd (tl s) = 45) then [hd (tl s)] else []);
               ds = take_digits (drop (length sign) (tl s))
           in if ds = [] then [] else hd s # sign @ ds
      else [])"

definition number_literal :: "js_string \<Rightarrow> js_string" where
  "number_literal s =
     (let sign = (if s \<noteq> [] \<and> hd s = 45 then [45] else []);
          s1 = drop (length sign) s; i = take_int s1;
          s2 = drop (length i) s1; f = take_fraction s2;
          s3 = drop (length f) s2
      in if i = [] then [] else sign @ i @ f @ take_exponent s3)"

definition parse_number :: "js_string \<Rightarrow> (json \<times> js_string) option" where
  "parse_number s =
     (let lit = number_literal s in
      if lit = [] then None else Some (Number (decimal_literal lit), drop (length lit) s))"

definition parse_word :: "js_string \<Rightarrow> (json \<times> js_string) option" where
  "parse_word s =
     (if startsWith s (js ''null'') then Some (Null, drop 4 s)
      else if startsWith s (js ''true'') then Some (Bool True, drop 4 s)
      else if startsWith s (js ''false'') then Some (Bool False, drop 5 s)
      else parse_number s)"

text \<open>A repeated key overwrites the value and keeps its place.\<close>

fun put_prop :: "(js_string \<times> json) list \<Rightarrow> js_string \<times> json \<Rightarrow> (js_string \<times> json) list" where
  "put_prop [] kv = [kv]"
| "put_prop (x # xs) kv = (if fst x = fst kv then kv # xs else x # put_prop xs kv)"

fun parse_value :: "nat \<Rightarrow> js_string \<Rightarrow> (json \<times> js_string) option"
  and parse_elements :: "nat \<Rightarrow> js_string \<Rightarrow> (json list \<times> js_string) option"
  and parse_members :: "nat \<Rightarrow> js_string \<Rightarrow> ((js_string \<times> json) list \<times> js_string) option" where
  "parse_value 0 s = None"
| "parse_value (Suc n) s =
     (case skip_ws s of
        [] \<Rightarrow> None
      | c # r \<Rightarrow>
          if c = 34 then map_option (\<lambda>(str, t). (String str, t)) (parse_chars r)
          else if c = 91 then
            (case skip_ws r of
               [] \<Rightarrow> None
             | d # t \<Rightarrow> if d = 93 then Some (Array [], t)
                 else map_option (\<lambda>(vs, u). (Array vs, u)) (parse_elements n r))
          else if c = 123 then
            (case skip_ws r of
               [] \<Rightarrow> None
             | d # t \<Rightarrow> if d = 125 then Some (Object [], t)
                 else map_option (\<lambda>(kvs, u). (Object (foldl put_prop [] kvs), u)) (parse_members n r))
          else parse_word (c # r))"
| "parse_elements 0 s = None"
| "parse_elements (Suc n) s =
     (case parse_value n s of
        None \<Rightarrow> None
      | Some (v, r) \<Rightarrow>
          (case skip_ws r of
             [] \<Rightarrow> None
           | c # t \<Rightarrow>
               if c = 44 then map_option (\<lambda>(vs, u). (v # vs, u)) (parse_elements n t)
               else if c = 93 then Some ([v], t) else None))"
| "parse_members 0 s = None"
| "parse_members (Suc n) s =
     (case skip_ws s of
        [] \<Rightarrow> None
      | q # s1 \<Rightarrow>
          if q \<noteq> 34 then None
          else case parse_chars s1 of
            None \<Rightarrow> None
          | Some (k, s2) \<Rightarrow>
              (case skip_ws s2 of
                 [] \<Rightarrow> None
               | c # s3 \<Rightarrow>
                   if c \<noteq> 58 then None
                   else case parse_value n s3 of
                     None \<Rightarrow> None
                   | Some (v, r) \<Rightarrow>
                       (case skip_ws r of
                          [] \<Rightarrow> None
                        | d # t \<Rightarrow>
                            if d = 44 then map_option (\<lambda>(kvs, u). ((k, v) # kvs, u)) (parse_members n t)
                            else if d = 125 then Some ([(k, v)], t) else None)))"

text \<open>\<open>JSON.parse\<close>: one value and white space around it. Every two steps of the parser read a
  character, so twice the length is fuel enough.\<close>

definition json_parse :: "js_string \<Rightarrow> json option" where
  "json_parse s =
     (case parse_value (2 * length s + 2) s of
        Some (v, r) \<Rightarrow> if skip_ws r = [] then Some v else None
      | None \<Rightarrow> None)"

section \<open>Strings read back\<close>

lemma hex_val_hex_digit:
  assumes "n < 16"
  shows "hex_val (hex_digit n) = Some n"
proof -
  have u: "m < 65536 \<Longrightarrow> unat (of_nat m :: unit16) = m" for m by (simp add: unat_of_nat)
  show ?thesis
    using assms u [of "48 + n"] u [of "87 + n"]
    by (simp add: hex_digit_def hex_val_def word_le_nat_alt del: of_nat_add)
qed

lemma nat_of_hex_digits: "16 * (16 * (16 * (n div 4096) + n div 256 mod 16) + n div 16 mod 16) + n mod 16 = (n :: nat)"
proof -
  have "n div 16 div 16 = n div 256" "n div 256 div 16 = n div 4096" by (simp_all add: div_mult2_eq [symmetric])
  then have "16 * (n div 4096) + n div 256 mod 16 = n div 256" "16 * (n div 256) + n div 16 mod 16 = n div 16"
    by (metis mult_div_mod_eq)+
  then show ?thesis by simp
qed

lemma unhex4_hex4:
  "unhex4 (hex_digit (unat c div 4096)) (hex_digit (unat c div 256 mod 16))
     (hex_digit (unat c div 16 mod 16)) (hex_digit (unat c mod 16)) = Some c"
proof -
  have "unat c < 65536" using unsigned_less [of c, where 'a = nat] by simp
  then have "unat c div 4096 < 16" by (simp add: div_less_iff_less_mult)
  then show ?thesis using nat_of_hex_digits [of "unat c"] by (simp add: unhex4_def hex_val_hex_digit)
qed

lemma parse_chars_hex: "parse_chars (92 # 117 # hex4 c @ r) = map_option (\<lambda>(s, t). (c # s, t)) (parse_chars r)"
  by (simp add: hex4_def Let_def unhex4_hex4)

lemma parse_chars_escape:
  "parse_chars (escape_unit c @ r) = map_option (\<lambda>(s, t). (c # s, t)) (parse_chars r)"
  using parse_chars_hex [of c r] by (simp add: escape_unit_def unescape_def)

lemma surrogate_plain: "high_surrogate c \<or> low_surrogate c \<Longrightarrow> c \<noteq> 34 \<and> c \<noteq> 92 \<and> \<not> c < 32"
  by (auto simp: high_surrogate_def low_surrogate_def word_le_nat_alt word_less_nat_alt)

lemma parse_chars_quote_body: "parse_chars (quote_body s @ 34 # r) = Some (s, r)"
proof (induction s rule: quote_body.induct)
  case 1
  show ?case by simp
next
  case (2 c)
  then show ?case using parse_chars_escape [of c "34 # r"] parse_chars_hex [of c "34 # r"] by simp
next
  case (3 c d s)
  show ?case
  proof (cases "high_surrogate c \<and> low_surrogate d")
    case True
    then show ?thesis using 3 surrogate_plain [of c] surrogate_plain [of d] by simp
  next
    case False
    then show ?thesis
      using 3 parse_chars_escape [of c] parse_chars_hex [of c] by auto
  qed
qed

section \<open>Safe integers read back\<close>

lemma round_double_minus: "round_double (- r) = (case round_double r of Num v \<Rightarrow> Num (- v) | Infty b \<Rightarrow> Infty (\<not> b) | NaN \<Rightarrow> NaN)"
  by (auto simp: round_double_def Let_def)

lemma decimal_literal_digits:
  assumes "n < 2 ^ 53"
  shows "decimal_literal (digits_of n) = Num (of_nat n)"
    and "decimal_literal (45 # digits_of n) = Num (- of_nat n)"
proof -
  obtain c s where d: "digits_of n = c # s" by (meson digits_of_ne list.exhaust)
  then have c: "is_digit c" using digits_of_digits [of c n] by simp
  then have ne: "digits_of n \<noteq> js ''Infinity''" unfolding d by (auto simp: js_def is_digit_def)
  show "decimal_literal (digits_of n) = Num (of_nat n)"
  proof -
    have "hd (digits_of n) \<noteq> 45" "hd (digits_of n) \<noteq> 43" using digit_neqs [OF c] by (simp_all add: d)
    then show ?thesis
      using ne unsigned_decimal_digits [of "digits_of n"] round_double_nat [OF assms]
      by (simp add: decimal_literal_def)
  qed
  show "decimal_literal (45 # digits_of n) = Num (- of_nat n)"
    using ne unsigned_decimal_digits [of "digits_of n"] round_double_nat [OF assms]
    by (simp add: decimal_literal_def round_double_minus)
qed

definition ends_number :: "js_string \<Rightarrow> bool" where
  "ends_number r \<longleftrightarrow> r = [] \<or> \<not> is_digit (hd r) \<and> hd r \<noteq> 46 \<and> hd r \<noteq> 101 \<and> hd r \<noteq> 69"

lemma take_int_digits_of: "ends_number r \<Longrightarrow> take_int (digits_of n @ r) = digits_of n"
proof -
  assume r: "ends_number r"
  have all: "\<forall>c \<in> set (digits_of n). is_digit c" by (auto simp: digits_of_digits)
  have td: "take_digits (digits_of n @ r) = digits_of n"
    using r all by (cases r) (auto simp: take_digits_def ends_number_def takeWhile_append)
  show ?thesis
  proof (cases "hd (digits_of n) = 48")
    case True
    then have "digits_of n = [48]" using digits_of_hd_zero [of n "tl (digits_of n)"]
      by (metis digits_of_ne list.collapse)
    then show ?thesis by (simp add: take_int_def)
  qed (simp add: take_int_def td)
qed

lemma parse_number_nat:
  assumes "n < 2 ^ 53" and r: "ends_number r"
  shows "parse_number (digits_of n @ r) = Some (Number (Num (of_nat n)), r)"
    and "parse_number (45 # digits_of n @ r) = Some (Number (Num (- of_nat n)), r)"
proof -
  have c: "hd (digits_of n @ r) \<noteq> 45"
    using digits_of_digits [of "hd (digits_of n)" n] digit_neqs(1) [of "hd (digits_of n)"] by auto
  have "take_fraction r = []" "take_exponent r = []"
    using r by (auto simp: take_fraction_def take_exponent_def ends_number_def)
  then have "number_literal (digits_of n @ r) = digits_of n"
    "number_literal (45 # digits_of n @ r) = 45 # digits_of n"
    using c take_int_digits_of [OF r] by (simp_all add: number_literal_def Let_def)
  then show "parse_number (digits_of n @ r) = Some (Number (Num (of_nat n)), r)"
    and "parse_number (45 # digits_of n @ r) = Some (Number (Num (- of_nat n)), r)"
    using decimal_literal_digits [OF assms(1)] by (simp_all add: parse_number_def Let_def)
qed

lemma parse_number_safe:
  assumes "is_safe_integer (Num q)" and r: "ends_number r"
  shows "parse_number (number_to_string q @ r) = Some (Number (Num q), r)"
proof -
  define i where "i = \<lfloor>q\<rfloor>"
  have q: "q = of_int i" using assms(1) by (auto simp: is_int_def i_def)
  have b: "\<bar>i\<bar> \<le> max_safe_integer" using assms(1) by (simp add: q flip: of_int_abs)
  have str: "number_to_string (of_int i) = string_of_int i" using b by (simp add: number_to_string_def q flip: of_int_abs)
  show ?thesis
  proof (cases "i < 0")
    case True
    then have "nat (- i) < 2 ^ 53" using b by (simp add: max_safe_integer_def)
    from parse_number_nat(2) [OF this r] True show ?thesis by (simp add: str string_of_int_def q)
  next
    case False
    then have "nat i < 2 ^ 53" using b by (simp add: max_safe_integer_def)
    from parse_number_nat(1) [OF this r] False show ?thesis by (simp add: str string_of_int_def q)
  qed
qed

section \<open>Canonical text reads back\<close>

text \<open>The value with the keys of every object in canonical order.\<close>

fun norm_json :: "json \<Rightarrow> json" where
  "norm_json (Array vs) = Array (map norm_json vs)"
| "norm_json (Object kvs) = Object (sort_key fst (map (\<lambda>kv. (fst kv, norm_json (snd kv))) kvs))"
| "norm_json v = v"

text \<open>Every number is a safe integer.\<close>

fun safe_numbers :: "json \<Rightarrow> bool" where
  "safe_numbers (Number x) = is_safe_integer x"
| "safe_numbers (Array vs) = (\<forall>v \<in> set vs. safe_numbers v)"
| "safe_numbers (Object kvs) = (\<forall>kv \<in> set kvs. safe_numbers (snd kv))"
| "safe_numbers _ = True"

lemma collect_Inr_iff [simp]: "collect rs = Inr xs \<longleftrightarrow> rs = map Inr xs"
proof (induction rs arbitrary: xs)
  case (Cons r rs)
  then show ?case by (cases xs) auto
qed auto

lemma insort_key_map: "insort_key fst (g x) (map g xs) = map g (insort_key fst x xs)"
  if "\<And>x. fst (g x) = fst x"
  by (induction xs) (simp_all add: that)

lemma sort_key_map: "sort_key fst (map g xs) = map g (sort_key fst xs)"
  if "\<And>x. fst (g x) = fst x"
  by (induction xs) (simp_all add: insort_key_map [OF that])

lemmas sort_entries = sort_key_map [of "\<lambda>kv. (fst kv, h (snd kv))" for h, simplified]

lemma canonicalize_Object:
  "canonicalize (Object kvs) = Inr t \<longleftrightarrow>
     (\<exists>es. map (\<lambda>kv. entry (fst kv, canonicalize (snd kv))) (sort_key fst kvs) = map Inr es \<and>
        t = 123 # join [44] es @ [125])"
  by (auto simp: sort_entries comp_def)

lemma digit_start: "is_digit c \<Longrightarrow> \<not> json_space c \<and> c \<noteq> 93 \<and> c \<noteq> 34 \<and> c \<noteq> 91 \<and> c \<noteq> 123"
  by (auto simp: is_digit_def json_space_def)

lemma canonical_start:
  assumes "canonicalize v = Inr t" and "safe_numbers v"
  shows "t \<noteq> [] \<and> \<not> json_space (hd t) \<and> hd t \<noteq> 93"
proof (cases v)
  case (Number x)
  then obtain q where q: "v = Number (Num q)" "is_safe_integer (Num q)"
    using assms(2) by (cases x) auto
  then have t: "t = string_of_int \<lfloor>q\<rfloor>"
    using assms(1) by (auto simp: number_to_string_def Let_def split: if_splits)
  have "\<not> json_space (hd (digits_of n)) \<and> hd (digits_of n) \<noteq> 93" for n
    using digit_start digits_of_digits [of "hd (digits_of n)" n] by simp
  then show ?thesis by (simp add: t string_of_int_def json_space_def)
qed (use assms in \<open>auto simp: js_def json_space_def serializeString_def json_quote_def split: if_splits\<close>)

lemma skip_ws_start: "s \<noteq> [] \<Longrightarrow> \<not> json_space (hd s) \<Longrightarrow> skip_ws (s @ r) = s @ r"
  by (cases s) (simp_all add: skip_ws_def)

text \<open>What the parser does at the front of an element and of a property.\<close>

definition reads :: "js_string \<Rightarrow> json \<Rightarrow> bool" where
  "reads t w \<longleftrightarrow> t \<noteq> [] \<and> \<not> json_space (hd t) \<and> hd t \<noteq> 93 \<and>
     (\<forall>n r. 2 * length t \<le> n \<longrightarrow> ends_number r \<longrightarrow> parse_value n (t @ r) = Some (w, r))"

lemma ends_number_sep [simp]:
  "ends_number (44 # r)" "ends_number (93 # r)" "ends_number (125 # r)"
  by (simp_all add: ends_number_def is_digit_def)

lemma parse_elements_join:
  assumes "list_all2 reads ts ws" and "ts \<noteq> []" and "2 * length (join [44] ts) < n"
  shows "parse_elements n (join [44] ts @ 93 # r) = Some (ws, r)"
  using assms
proof (induction ts arbitrary: ws n)
  case (Cons t ts)
  then obtain w ws' where ws: "ws = w # ws'" "reads t w" "list_all2 reads ts ws'"
    by (auto simp: list_all2_Cons1)
  obtain m where n: "n = Suc m" using Cons.prems(3) by (cases n) auto
  show ?case
  proof (cases ts)
    case Nil
    then show ?thesis using ws Cons.prems(3) by (simp add: n reads_def skip_ws_def json_space_def)
  next
    case (Cons t' ts')
    then have j: "join [44] (t # ts) = t @ 44 # join [44] ts" by simp
    have "parse_value m (t @ 44 # join [44] ts @ 93 # r) = Some (w, 44 # join [44] ts @ 93 # r)"
      using ws(2) Cons.prems(3) j n by (simp add: reads_def)
    moreover have "parse_elements m (join [44] ts @ 93 # r) = Some (ws', r)"
      using Cons.IH [OF ws(3), of m] Cons Cons.prems(3) j n by simp
    ultimately show ?thesis unfolding j by (simp add: n ws(1) skip_ws_def json_space_def)
  qed
qed simp

definition reads_entry :: "js_string \<Rightarrow> js_string \<times> json \<Rightarrow> bool" where
  "reads_entry e kv \<longleftrightarrow> (\<exists>t. e = json_quote (fst kv) @ 58 # t \<and> reads t (snd kv))"

lemma parse_members_join:
  assumes "list_all2 reads_entry es kvs" and "es \<noteq> []" and "2 * length (join [44] es) < n"
  shows "parse_members n (join [44] es @ 125 # r) = Some (kvs, r)"
  using assms
proof (induction es arbitrary: kvs n)
  case (Cons e es)
  then obtain k w kvs' where kvs: "kvs = (k, w) # kvs'" "reads_entry e (k, w)" "list_all2 reads_entry es kvs'"
    by (auto simp: list_all2_Cons1)
  then obtain t where e: "e = json_quote k @ 58 # t" "reads t w" by (auto simp: reads_entry_def)
  obtain m where n: "n = Suc m" using Cons.prems(3) by (cases n) auto
  have key: "parse_chars (quote_body k @ 34 # u) = Some (k, u)" for u by (rule parse_chars_quote_body)
  show ?case
  proof (cases es)
    case Nil
    then have "parse_value m (t @ 125 # r) = Some (w, 125 # r)"
      using e Cons.prems(3) by (simp add: reads_def n)
    then show ?thesis using Nil kvs
      by (simp add: n e(1) json_quote_def key skip_ws_def json_space_def)
  next
    case (Cons e' es')
    then have j: "join [44] (e # es) = e @ 44 # join [44] es" by simp
    have "parse_value m (t @ 44 # join [44] es @ 125 # r) = Some (w, 44 # join [44] es @ 125 # r)"
      using e Cons.prems(3) j n by (simp add: reads_def)
    moreover have "parse_members m (join [44] es @ 125 # r) = Some (kvs', r)"
      using Cons.IH [OF kvs(3), of m] Cons Cons.prems(3) j n by simp
    ultimately show ?thesis unfolding j
      by (simp add: n kvs(1) e(1) json_quote_def key skip_ws_def json_space_def)
  qed
qed simp

lemma put_prop_append: "fst kv \<notin> fst ` set xs \<Longrightarrow> put_prop xs kv = xs @ [kv]"
  by (induction xs) auto

lemma foldl_put_prop: "distinct (map fst (acc @ kvs)) \<Longrightarrow> foldl put_prop acc kvs = acc @ kvs"
proof (induction kvs arbitrary: acc)
  case (Cons kv kvs)
  then show ?case by (simp add: put_prop_append)
qed simp

lemma reads_intro:
  assumes "t = c # t'" and "\<not> json_space c" and "c \<noteq> 93"
    and "\<And>m r. 2 * length t \<le> Suc m \<Longrightarrow> ends_number r \<Longrightarrow> parse_value (Suc m) (t @ r) = Some (w, r)"
  shows "reads t w"
  unfolding reads_def
proof (intro conjI allI impI)
  fix n r assume "2 * length t \<le> n" "ends_number r"
  then show "parse_value n (t @ r) = Some (w, r)" using assms(1,4) by (cases n) auto
qed (use assms in auto)

lemma reads_array:
  assumes "list_all2 reads ts ws"
  shows "reads (91 # join [44] ts @ [93]) (Array ws)"
proof (rule reads_intro [OF refl])
  fix m r assume m: "2 * length (91 # join [44] ts @ [93]) \<le> Suc m"
  show "parse_value (Suc m) ((91 # join [44] ts @ [93]) @ r) = Some (Array ws, r)"
  proof (cases ts)
    case Nil
    then show ?thesis using assms by (simp add: skip_ws_def json_space_def)
  next
    case (Cons t us)
    then have t: "t \<noteq> []" "\<not> json_space (hd t)" "hd t \<noteq> 93" using assms by (auto simp: list_all2_Cons1 reads_def)
    then have hd: "join [44] ts \<noteq> []" "hd (join [44] ts) = hd t" using Cons by (cases us; simp)+
    then have "skip_ws (join [44] ts @ 93 # r) = join [44] ts @ 93 # r" using t by (simp add: skip_ws_start)
    moreover obtain d u where "join [44] ts = d # u" "d \<noteq> 93" using hd t(3) by (cases "join [44] ts") auto
    ultimately show ?thesis
      using parse_elements_join [OF assms, of m r] Cons m by (simp add: skip_ws_def json_space_def)
  qed
qed (simp_all add: json_space_def)

lemma reads_object:
  assumes "list_all2 reads_entry es kvs" and "distinct (map fst kvs)"
  shows "reads (123 # join [44] es @ [125]) (Object kvs)"
proof (rule reads_intro [OF refl])
  fix m r assume m: "2 * length (123 # join [44] es @ [125]) \<le> Suc m"
  show "parse_value (Suc m) ((123 # join [44] es @ [125]) @ r) = Some (Object kvs, r)"
  proof (cases es)
    case Nil
    then show ?thesis using assms by (simp add: skip_ws_def json_space_def)
  next
    case (Cons e us)
    then obtain u where u: "join [44] es = 34 # u"
      using assms(1) by (cases us) (auto simp: list_all2_Cons1 reads_entry_def json_quote_def)
    then have "parse_members m (34 # u @ 125 # r) = Some (kvs, r)"
      using parse_members_join [OF assms(1), of m r] Cons m by simp
    then show ?thesis
      using foldl_put_prop [of "[]" kvs] assms(2) by (simp add: u skip_ws_def json_space_def)
  qed
qed (simp_all add: json_space_def)

lemma reads_number:
  assumes "is_safe_integer (Num q)"
  shows "reads (number_to_string q) (Number (Num q))"
proof -
  have start: "number_to_string q \<noteq> []" "\<not> json_space (hd (number_to_string q))" "hd (number_to_string q) \<noteq> 93"
    using canonical_start [of "Number (Num q)" "number_to_string q"] assms by simp_all
  have t: "number_to_string q = string_of_int \<lfloor>q\<rfloor>" using assms by (simp add: number_to_string_def)
  have "is_digit (hd (digits_of n))" for n using digits_of_digits [of "hd (digits_of n)" n] by simp
  then have "hd (string_of_int i) = 45 \<or> is_digit (hd (string_of_int i))" for i
    by (simp add: string_of_int_def)
  then obtain c u where cu: "number_to_string q = c # u" "c = 45 \<or> is_digit c"
    using start(1) t by (metis list.collapse)
  then have c: "c \<noteq> 34" "c \<noteq> 91" "c \<noteq> 123" "c \<noteq> 110" "c \<noteq> 116" "c \<noteq> 102"
    by (auto simp: is_digit_def)
  have words: "\<not> startsWith (c # u @ r) (js ''null'')" "\<not> startsWith (c # u @ r) (js ''true'')"
    "\<not> startsWith (c # u @ r) (js ''false'')" for r
    using c by (auto simp: startsWith_def js_def)
  have "parse_word (c # u @ r) = Some (Number (Num q), r)" if "ends_number r" for r
    using parse_number_safe [OF assms that] words [of r] by (simp add: parse_word_def cu(1))
  moreover have "skip_ws (c # u @ r) = c # u @ r" for r
    using skip_ws_start [OF start(1,2), of r] by (simp add: cu(1))
  ultimately show ?thesis
    using start c by (intro reads_intro [OF cu(1)]) (simp_all add: cu(1))
qed

lemma reads_words:
  "reads (js ''null'') Null" "reads (js ''true'') (Bool True)" "reads (js ''false'') (Bool False)"
  by (rule reads_intro, simp add: js_def, simp_all add: js_def json_space_def skip_ws_def parse_word_def startsWith_def)+

lemma reads_string: "reads (json_quote s) (String s)"
  by (rule reads_intro [of _ 34 "quote_body s @ [34]"])
    (simp_all add: json_quote_def json_space_def skip_ws_def parse_chars_quote_body)

lemma list_all2_map_Inr:
  assumes "map f xs = map Inr es" and "\<And>x e. x \<in> set xs \<Longrightarrow> f x = Inr e \<Longrightarrow> P e (g x)"
  shows "list_all2 P es (map g xs)"
  using assms
proof (induction xs arbitrary: es)
  case (Cons x xs)
  then show ?case by (cases es) auto
qed simp

lemma canonical_reads:
  "wf_json v \<Longrightarrow> safe_numbers v \<Longrightarrow> canonicalize v = Inr t \<Longrightarrow> reads t (norm_json v)"
proof (induction v arbitrary: t rule: canonicalize.induct)
  case 1
  then show ?case by (auto simp: reads_words)
next
  case (2 b)
  then show ?case by (auto simp: reads_words)
next
  case (3 x)
  then show ?case by (cases x) (auto simp: Let_def reads_number split: if_splits)
next
  case (4 s)
  then show ?case by (auto simp: serializeString_def reads_string split: if_splits)
next
  case (5 vs)
  then obtain es where es: "map canonicalize vs = map Inr es" "t = 91 # join [44] es @ [93]" by auto
  have "list_all2 reads es (map norm_json vs)"
    using 5 by (intro list_all2_map_Inr [OF es(1)]) simp
  then show ?case using reads_array es(2) by simp
next
  case (6 kvs)
  from "6.prems"(3) obtain es where
    es: "map (\<lambda>kv. entry (fst kv, canonicalize (snd kv))) (sort_key fst kvs) = map Inr es"
      "t = 123 # join [44] es @ [125]" unfolding canonicalize_Object by blast
  have "list_all2 reads_entry es (map (\<lambda>kv. (fst kv, norm_json (snd kv))) (sort_key fst kvs))"
  proof (rule list_all2_map_Inr [OF es(1)])
    fix kv e assume kv: "kv \<in> set (sort_key fst kvs)" "entry (fst kv, canonicalize (snd kv)) = Inr e"
    then obtain u where "e = json_quote (fst kv) @ 58 # u" "canonicalize (snd kv) = Inr u"
      by (auto simp: entry_def serializeString_def split: if_splits)
    then show "reads_entry e (fst kv, norm_json (snd kv))"
      using "6.IH" [of kv u] "6.prems"(1,2) kv(1) by (auto simp: reads_entry_def)
  qed
  moreover have "distinct (map fst (map (\<lambda>kv. (fst kv, norm_json (snd kv))) (sort_key fst kvs)))"
    using "6.prems"(1) by (simp add: comp_def distinct_map inj_on_def)
  ultimately show ?case using reads_object es(2) by (simp add: sort_entries)
qed

lemma json_parse_reads: "reads t w \<Longrightarrow> json_parse t = Some w"
  by (auto simp: reads_def json_parse_def ends_number_def skip_ws_def dest!: spec [of _ "2 * length t + 2"] spec [of _ "[]"])

lemma own_norm [simp]: "wf_json v \<Longrightarrow> own (norm_json v) k = map_option norm_json (own v k)"
proof (cases v)
  case (Object kvs)
  assume "wf_json v"
  then have d: "distinct (map fst kvs)" by (simp add: Object)
  have "map_of (sort_key fst xs) k = map_of xs k" if "distinct (map fst xs)" for xs :: "(js_string \<times> json) list"
    using that by (intro map_of_eqI [of _ _, THEN fun_cong] map_of_eq_dom) (auto simp: distinct_map)
  moreover have "map_of (map (\<lambda>kv. (fst kv, norm_json (snd kv))) kvs) k = map_option norm_json (map_of kvs k)"
    by (induction kvs) auto
  ultimately show ?thesis using d by (simp add: Object comp_def)
qed simp_all

lemma is_object_norm [simp]: "is_object (norm_json v) = is_object v"
  by (cases v) simp_all

lemma set_keys_norm [simp]: "set (keys_of (norm_json v)) = set (keys_of v)"
  by (cases v) (simp_all add: comp_def image_image)

lemma length_keys_norm [simp]: "length (keys_of (norm_json v)) = length (keys_of v)"
  by (cases v) auto

lemma canonicalize_norm: "canonicalize (norm_json v) = canonicalize v"
proof (induction v rule: canonicalize.induct)
  case (5 vs)
  then have "map canonicalize (map norm_json vs) = map canonicalize vs" by simp
  then show ?case by (simp only: norm_json.simps canonicalize.simps)
next
  case (6 kvs)
  have "sort_key fst (map (\<lambda>kv. (fst kv, canonicalize (norm_json (snd kv)))) (sort_key fst kvs)) =
      map (\<lambda>kv. (fst kv, canonicalize (snd kv))) (sort_key fst kvs)"
  proof -
    have "map (\<lambda>kv. (fst kv, canonicalize (norm_json (snd kv)))) (sort_key fst kvs) =
        map (\<lambda>kv. (fst kv, canonicalize (snd kv))) (sort_key fst kvs)" using 6 by simp
    moreover have "sorted (map fst (map (\<lambda>kv. (fst kv, canonicalize (snd kv))) (sort_key fst kvs)))"
      by (simp add: comp_def)
    ultimately show ?thesis by (simp only: sort_key_id_if_sorted)
  qed
  then show ?case by (simp add: sort_entries comp_def)
qed simp_all

subsection \<open>Canonical text is well-formed\<close>

lemma well_formed_append: "well_formed a \<Longrightarrow> well_formed b \<Longrightarrow> well_formed (a @ b)"
proof (induction a rule: well_formed.induct)
  case (2 c)
  then show ?case by (cases b) simp_all
next
  case (3 c d s)
  then show ?case by (auto split: if_splits)
qed simp

lemma well_formed_Cons: "\<not> high_surrogate c \<Longrightarrow> \<not> low_surrogate c \<Longrightarrow> well_formed s \<Longrightarrow> well_formed (c # s)"
  by (cases s) simp_all

definition plain_unit :: "unit16 \<Rightarrow> bool" where
  "plain_unit c \<longleftrightarrow> \<not> high_surrogate c \<and> \<not> low_surrogate c"

lemma well_formed_plain: "\<forall>c \<in> set s. plain_unit c \<Longrightarrow> well_formed s"
  by (induction s) (simp_all add: well_formed_Cons plain_unit_def)

lemma plain_small: "unat c < 0xD800 \<Longrightarrow> plain_unit c"
  by (auto simp: plain_unit_def high_surrogate_def low_surrogate_def word_le_nat_alt)

lemma plain_digit: "is_digit c \<Longrightarrow> plain_unit c"
  by (rule plain_small) (auto simp: is_digit_def word_le_nat_alt)

lemma plain_js: "\<forall>c \<in> set (js s). plain_unit c"
proof
  fix c assume "c \<in> set (js s)"
  then obtain ch where "c = of_char ch" by (auto simp: js_def)
  moreover have "(of_char ch :: nat) < 0xD800"
    using nat_of_char_less_256 [of ch] by (rule order_less_trans) simp
  ultimately show "plain_unit c" by (intro plain_small) simp
qed

lemma plain_hex_digit: "n < 16 \<Longrightarrow> plain_unit (hex_digit n)"
proof (rule plain_small)
  assume n: "n < 16"
  have u: "m < 65536 \<Longrightarrow> unat (of_nat m :: unit16) = m" for m by (simp add: unat_of_nat)
  show "unat (hex_digit n) < 0xD800"
    using n u [of "48 + n"] u [of "87 + n"] by (simp add: hex_digit_def del: of_nat_add)
qed

lemma plain_hex4: "\<forall>u \<in> set (hex4 c). plain_unit u"
proof -
  have "unat c < 65536" using unsigned_less [of c, where 'a = nat] by simp
  then have "unat c div 4096 < 16" by (simp add: div_less_iff_less_mult)
  then show ?thesis by (simp add: hex4_def Let_def plain_hex_digit)
qed

lemma plain_literals [simp]:
  "plain_unit 34" "plain_unit 44" "plain_unit 45" "plain_unit 58" "plain_unit 91" "plain_unit 92" "plain_unit 93"
  "plain_unit 98" "plain_unit 102" "plain_unit 110" "plain_unit 114" "plain_unit 116" "plain_unit 117"
  "plain_unit 123" "plain_unit 125" "plain_unit 46" "plain_unit 10"
  by (simp_all add: plain_small)

lemma well_formed_escape: "plain_unit c \<Longrightarrow> well_formed (escape_unit c)"
  using plain_hex4 [of c] by (intro well_formed_plain) (simp add: escape_unit_def)

lemma well_formed_quote_body: "well_formed s \<Longrightarrow> well_formed (quote_body s)"
proof (induction s rule: well_formed.induct)
  case (2 c)
  then show ?case by (simp add: well_formed_escape plain_unit_def)
next
  case (3 c d s)
  show ?case
  proof (cases "high_surrogate c")
    case True
    then show ?thesis using 3 by simp
  next
    case False
    then have "well_formed (escape_unit c)" "well_formed (quote_body (d # s))"
      using 3 by (simp_all add: well_formed_escape plain_unit_def)
    then show ?thesis using False "3.prems" by (simp add: well_formed_append)
  qed
qed simp

lemma well_formed_quote: "well_formed s \<Longrightarrow> well_formed (json_quote s)"
  using well_formed_quote_body [of s] well_formed_plain [of "[34]"]
  by (auto simp: json_quote_def plain_unit_def high_surrogate_def low_surrogate_def intro!: well_formed_Cons well_formed_append)

lemma well_formed_unit: "plain_unit c \<Longrightarrow> well_formed s \<Longrightarrow> well_formed (c # s)"
  by (simp add: plain_unit_def well_formed_Cons)

lemma well_formed_join: "\<forall>w \<in> set ws. well_formed w \<Longrightarrow> well_formed (join [44] ws)"
  by (induction "[44] :: js_string" ws rule: join.induct) (simp_all add: well_formed_append well_formed_unit)

lemma well_formed_bracket:
  "plain_unit a \<Longrightarrow> plain_unit b \<Longrightarrow> well_formed s \<Longrightarrow> well_formed (a # s @ [b])"
  by (intro well_formed_unit well_formed_append) (simp_all add: plain_unit_def)

lemma well_formed_number: "is_safe_integer (Num q) \<Longrightarrow> well_formed (number_to_string q)"
  by (rule well_formed_plain) (auto simp: number_to_string_def string_of_int_def plain_digit digits_of_digits)

lemma canonical_well_formed: "safe_numbers v \<Longrightarrow> canonicalize v = Inr t \<Longrightarrow> well_formed t"
proof (induction v arbitrary: t rule: canonicalize.induct)
  case 1
  then show ?case using well_formed_plain [OF plain_js [of "''null''"]] by auto
next
  case (2 b)
  then show ?case using well_formed_plain [OF plain_js] by (auto split: if_splits)
next
  case (3 x)
  then show ?case by (cases x) (auto simp: Let_def well_formed_number split: if_splits)
next
  case (4 s)
  then show ?case by (auto simp: serializeString_def well_formed_quote split: if_splits)
next
  case (5 vs)
  then obtain es where es: "map canonicalize vs = map Inr es" "t = 91 # join [44] es @ [93]" by auto
  have "well_formed e" if "e \<in> set es" for e
  proof -
    from that es(1) have "Inr e \<in> canonicalize ` set vs" by (metis imageI list.set_map)
    then show ?thesis using 5 by (metis imageE safe_numbers.simps(2))
  qed
  then show ?case unfolding es(2) by (intro well_formed_bracket well_formed_join) simp_all
next
  case (6 kvs)
  from "6.prems"(2) obtain es where
    es: "map (\<lambda>kv. entry (fst kv, canonicalize (snd kv))) (sort_key fst kvs) = map Inr es"
      "t = 123 # join [44] es @ [125]" unfolding canonicalize_Object by blast
  have "well_formed e" if "e \<in> set es" for e
  proof -
    have "Inr e \<in> set (map (\<lambda>kv. entry (fst kv, canonicalize (snd kv))) (sort_key fst kvs))"
      unfolding es(1) using that by simp
    then obtain kv where kv: "kv \<in> set kvs" "entry (fst kv, canonicalize (snd kv)) = Inr e"
      by (metis (no_types, lifting) imageE list.set_map set_sort)
    then obtain u where u: "well_formed (fst kv)" "canonicalize (snd kv) = Inr u" "e = json_quote (fst kv) @ 58 # u"
      by (auto simp: entry_def serializeString_def split: if_splits)
    have "well_formed u" using "6.IH" [OF kv(1) _ u(2)] "6.prems"(1) kv(1) by simp
    then show ?thesis unfolding u(3) using u(1)
      by (intro well_formed_append well_formed_quote well_formed_unit) simp_all
  qed
  then show ?case unfolding es(2) by (intro well_formed_bracket well_formed_join) simp_all
qed

subsection \<open>When there is canonical text\<close>

lemma wf_js [simp]: "well_formed (js s)" by (rule well_formed_plain [OF plain_js])

fun tidy :: "json \<Rightarrow> bool" where
  "tidy (Number x) = is_safe_integer x"
| "tidy (String s) = well_formed s"
| "tidy (Array vs) = (\<forall>v \<in> set vs. tidy v)"
| "tidy (Object kvs) = (\<forall>kv \<in> set kvs. well_formed (fst kv) \<and> tidy (snd kv))"
| "tidy _ = True"

lemma collect_total: "\<forall>r \<in> set rs. \<exists>x. r = Inr x \<Longrightarrow> \<exists>xs. collect rs = Inr xs"
  by (induction rs) auto

lemma tidy_canonical: "tidy v \<Longrightarrow> \<exists>t. canonicalize v = Inr t"
proof (induction v rule: canonicalize.induct)
  case (3 x)
  then show ?case by (cases x) (simp_all add: Let_def)
next
  case (4 s)
  then show ?case by (simp add: serializeString_def)
next
  case (5 vs)
  then have "\<exists>es. collect (map canonicalize vs) = Inr es" by (intro collect_total) auto
  then show ?case by auto
next
  case (6 kvs)
  have "\<exists>es. collect (map entry (sort_key fst (map (\<lambda>kv. (fst kv, canonicalize (snd kv))) kvs))) = Inr es"
    using 6 by (intro collect_total) (auto simp: entry_def serializeString_def)
  then show ?case by auto
qed simp_all


definition sample_json :: json where
  "sample_json = Object [(js ''b'', Array [Number (Num 12), Null]), (js ''a'', String [34, 0xD83D, 0xDE00, 10])]"

definition sample_text :: js_string where
  "sample_text = js ''{\"a\":\"'' @ [92, 34, 0xD83D, 0xDE00, 92, 110] @ js ''\",\"b\":[12,null]}''"


end
