(* ===== verification/Codec.thy ===== *)
theory Codec
  imports Json
begin

text \<open>
  The byte encodings the evidence format uses from the runtime: UTF-8 (\<open>Buffer.from(string)\<close> and
  the fatal \<open>TextDecoder\<close>), unpadded base64url and lower-case hexadecimal, with their round trips.
\<close>

type_synonym byte = "8 word"

lemma unat_byte_of_nat: "n < 256 \<Longrightarrow> unat (of_nat n :: byte) = n"
  by (simp add: unat_of_nat)

lemma unat_byte_less: "unat (b :: byte) < 256"
  using unsigned_less [of b, where 'a = nat] by simp

section \<open>UTF-8\<close>

text \<open>The code points of a string; a lone surrogate becomes the replacement character.\<close>

definition pair_point :: "unit16 \<Rightarrow> unit16 \<Rightarrow> nat" where
  "pair_point h l = 0x10000 + (unat h - 0xD800) * 0x400 + (unat l - 0xDC00)"

definition single_point :: "unit16 \<Rightarrow> nat" where
  "single_point c = (if high_surrogate c \<or> low_surrogate c then 0xFFFD else unat c)"

fun code_points :: "js_string \<Rightarrow> nat list" where
  "code_points [] = []"
| "code_points [c] = [single_point c]"
| "code_points (c # d # s) =
     (if high_surrogate c \<and> low_surrogate d then pair_point c d # code_points s
      else single_point c # code_points (d # s))"

definition units_of_point :: "nat \<Rightarrow> js_string" where
  "units_of_point p =
     (if p < 0x10000 then [of_nat p]
      else [of_nat (0xD800 + (p - 0x10000) div 0x400), of_nat (0xDC00 + (p - 0x10000) mod 0x400)])"

definition point_bytes :: "nat \<Rightarrow> nat list" where
  "point_bytes p =
     (if p < 0x80 then [p]
      else if p < 0x800 then [0xC0 + p div 64, 0x80 + p mod 64]
      else if p < 0x10000 then [0xE0 + p div 4096, 0x80 + p div 64 mod 64, 0x80 + p mod 64]
      else [0xF0 + p div 262144, 0x80 + p div 4096 mod 64, 0x80 + p div 64 mod 64, 0x80 + p mod 64])"

definition utf8_encode :: "js_string \<Rightarrow> byte list" where
  "utf8_encode s = map of_nat (concat (map point_bytes (code_points s)))"

definition cont :: "nat \<Rightarrow> bool" where
  "cont b \<longleftrightarrow> 0x80 \<le> b \<and> b \<le> 0xBF"

fun decode_points :: "nat list \<Rightarrow> nat list option" where
  "decode_points [] = Some []"
| "decode_points (a # r) =
     (if a < 0x80 then map_option ((#) a) (decode_points r)
      else if 0xC2 \<le> a \<and> a \<le> 0xDF then
        (case r of
           b # r1 \<Rightarrow> if cont b then map_option ((#) ((a - 0xC0) * 64 + (b - 0x80))) (decode_points r1) else None
         | _ \<Rightarrow> None)
      else if 0xE0 \<le> a \<and> a \<le> 0xEF then
        (case r of
           b # c # r2 \<Rightarrow>
             if cont b \<and> cont c \<and> (a = 0xE0 \<longrightarrow> 0xA0 \<le> b) \<and> (a = 0xED \<longrightarrow> b \<le> 0x9F)
             then map_option ((#) ((a - 0xE0) * 4096 + (b - 0x80) * 64 + (c - 0x80))) (decode_points r2)
             else None
         | _ \<Rightarrow> None)
      else if 0xF0 \<le> a \<and> a \<le> 0xF4 then
        (case r of
           b # c # d # r3 \<Rightarrow>
             if cont b \<and> cont c \<and> cont d \<and> (a = 0xF0 \<longrightarrow> 0x90 \<le> b) \<and> (a = 0xF4 \<longrightarrow> b \<le> 0x8F)
             then map_option ((#) ((a - 0xF0) * 262144 + (b - 0x80) * 4096 + (c - 0x80) * 64 + (d - 0x80)))
               (decode_points r3)
             else None
         | _ \<Rightarrow> None)
      else None)"

text \<open>The fatal decoder; it drops a byte order mark at the start.\<close>

definition utf8_decode :: "byte list \<Rightarrow> js_string option" where
  "utf8_decode bs =
     (let ns = map unat bs; body = (if take 3 ns = [0xEF, 0xBB, 0xBF] then drop 3 ns else ns) in
      map_option (\<lambda>ps. concat (map units_of_point ps)) (decode_points body))"

definition scalar :: "nat \<Rightarrow> bool" where
  "scalar p \<longleftrightarrow> p < 0xD800 \<or> 0xE000 \<le> p \<and> p < 0x110000"

lemma point_split2: "p div 64 * 64 + p mod 64 = (p :: nat)"
  by simp

lemma point_split3: "p div 4096 * 4096 + p div 64 mod 64 * 64 + p mod 64 = (p :: nat)"
proof -
  have "p div 64 div 64 = p div 4096" by (simp add: div_mult2_eq [symmetric])
  then have "p div 4096 * 64 + p div 64 mod 64 = p div 64" using div_mult_mod_eq [of "p div 64" 64] by simp
  then show ?thesis using point_split2 [of p] by linarith
qed

lemma point_split4:
  "p div 262144 * 262144 + p div 4096 mod 64 * 4096 + p div 64 mod 64 * 64 + p mod 64 = (p :: nat)"
proof -
  have "p div 4096 div 64 = p div 262144" by (simp add: div_mult2_eq [symmetric])
  then have "p div 262144 * 64 + p div 4096 mod 64 = p div 4096"
    using div_mult_mod_eq [of "p div 4096" 64] by simp
  then show ?thesis using point_split3 [of p] by linarith
qed

lemma decode_point:
  assumes "scalar p"
  shows "decode_points (point_bytes p @ r) = map_option ((#) p) (decode_points r)"
proof -
  consider "p < 0x80" | "0x80 \<le> p" "p < 0x800" | "0x800 \<le> p" "p < 0x10000" | "0x10000 \<le> p" by linarith
  then show ?thesis
  proof cases
    case 1
    then show ?thesis by (simp add: point_bytes_def)
  next
    case 2
    define x y where "x = p div 64" and "y = p mod 64"
    have "2 \<le> x" "x < 32" "y < 64" using 2 by (auto simp: x_def y_def)
    moreover have "x * 64 + y = p" using point_split2 [of p] by (simp add: x_def y_def)
    moreover have "point_bytes p = [0xC0 + x, 0x80 + y]" using 2 by (simp add: point_bytes_def x_def y_def)
    ultimately show ?thesis by (simp add: cont_def)
  next
    case 3
    define x y z where "x = p div 4096" and "y = p div 64 mod 64" and "z = p mod 64"
    have b: "x < 16" "y < 64" "z < 64" using 3 by (auto simp: x_def y_def z_def)
    have eq: "x * 4096 + y * 64 + z = p" using point_split3 [of p] by (simp add: x_def y_def z_def)
    have lo: "x = 0 \<Longrightarrow> 32 \<le> y" using 3 eq b(3) by linarith
    have mid: "x = 13 \<Longrightarrow> y \<le> 31" using assms eq b by (auto simp: scalar_def)
    have "point_bytes p = [0xE0 + x, 0x80 + y, 0x80 + z]"
      using 3 by (simp add: point_bytes_def x_def y_def z_def)
    then show ?thesis using b lo mid eq by (auto simp: cont_def)
  next
    case 4
    define x y z w where "x = p div 262144" and "y = p div 4096 mod 64" and "z = p div 64 mod 64" and "w = p mod 64"
    have b: "y < 64" "z < 64" "w < 64" by (auto simp: y_def z_def w_def)
    have eq: "x * 262144 + y * 4096 + z * 64 + w = p"
      using point_split4 [of p] by (simp add: x_def y_def z_def w_def)
    have x: "x \<le> 4" using assms eq by (auto simp: scalar_def)
    have lo: "x = 0 \<Longrightarrow> 16 \<le> y" using 4 eq b by linarith
    have hi: "x = 4 \<Longrightarrow> y \<le> 15" using assms eq b by (auto simp: scalar_def)
    have "point_bytes p = [0xF0 + x, 0x80 + y, 0x80 + z, 0x80 + w]"
      using 4 by (simp add: point_bytes_def x_def y_def z_def w_def)
    then show ?thesis using b x lo hi eq by (auto simp: cont_def)
  qed
qed

lemma point_bytes_small: "scalar p \<Longrightarrow> b \<in> set (point_bytes p) \<Longrightarrow> b < 256"
  by (auto simp: point_bytes_def scalar_def split: if_splits)

lemma decode_points_concat:
  "\<forall>p \<in> set ps. scalar p \<Longrightarrow> decode_points (concat (map point_bytes ps)) = Some ps"
  by (induction ps) (simp_all add: decode_point)

lemma pair_point_scalar: "high_surrogate h \<Longrightarrow> low_surrogate l \<Longrightarrow> scalar (pair_point h l)"
  by (auto simp: high_surrogate_def low_surrogate_def pair_point_def scalar_def word_le_nat_alt)

lemma single_point_scalar: "\<not> high_surrogate c \<Longrightarrow> \<not> low_surrogate c \<Longrightarrow> scalar (single_point c)"
proof -
  assume "\<not> high_surrogate c" "\<not> low_surrogate c"
  moreover have "unat c < 65536" using unsigned_less [of c, where 'a = nat] by simp
  ultimately show ?thesis
    by (auto simp: high_surrogate_def low_surrogate_def single_point_def scalar_def word_le_nat_alt)
qed

lemma units_of_pair:
  assumes "high_surrogate h" "low_surrogate l"
  shows "units_of_point (pair_point h l) = [h, l]"
proof -
  define a b where "a = unat h - 0xD800" and "b = unat l - 0xDC00"
  have u: "unat h = 0xD800 + a" "unat l = 0xDC00 + b" "b < 0x400"
    using assms by (auto simp: high_surrogate_def low_surrogate_def word_le_nat_alt a_def b_def)
  have "pair_point h l = 0x10000 + (a * 0x400 + b)" by (simp add: pair_point_def a_def b_def)
  moreover have "(a * 0x400 + b) div 0x400 = a" "(a * 0x400 + b) mod 0x400 = b" using u(3) by auto
  ultimately have "units_of_point (pair_point h l) = [of_nat (0xD800 + a), of_nat (0xDC00 + b)]"
    by (simp add: units_of_point_def del: of_nat_add)
  then show ?thesis by (simp add: u(1,2) [symmetric] del: of_nat_add)
qed

lemma units_of_single:
  assumes "\<not> high_surrogate c" "\<not> low_surrogate c"
  shows "units_of_point (single_point c) = [c]"
  using assms unsigned_less [of c, where 'a = nat] by (simp add: single_point_def units_of_point_def)

lemma code_points_well_formed:
  assumes "well_formed s"
  shows "(\<forall>p \<in> set (code_points s). scalar p) \<and> concat (map units_of_point (code_points s)) = s"
  using assms
proof (induction s rule: well_formed.induct)
  case (2 c)
  then show ?case by (simp add: single_point_scalar units_of_single)
next
  case (3 c d s)
  then show ?case
    by (cases "high_surrogate c")
      (simp_all add: pair_point_scalar units_of_pair single_point_scalar units_of_single)
qed simp

text \<open>Well-formed text that does not start with a byte order mark is read back from its bytes.\<close>

lemma utf8_roundtrip:
  assumes "well_formed s" and "s = [] \<or> unat (hd s) < 0x80"
  shows "utf8_decode (utf8_encode s) = Some s"
proof -
  let ?ns = "concat (map point_bytes (code_points s))"
  note points = code_points_well_formed [OF assms(1)]
  have "map unat (utf8_encode s) = ?ns"
    unfolding utf8_encode_def map_map
    by (rule map_idI) (use points point_bytes_small in \<open>auto simp: unat_byte_of_nat\<close>)
  moreover have "take 3 ?ns \<noteq> [0xEF, 0xBB, 0xBF]"
  proof (cases s rule: code_points.cases)
    case (2 c)
    then show ?thesis using assms
      by (auto simp: single_point_def point_bytes_def high_surrogate_def low_surrogate_def word_le_nat_alt)
  next
    case (3 c d t)
    then show ?thesis using assms
      by (auto simp: single_point_def point_bytes_def high_surrogate_def low_surrogate_def word_le_nat_alt)
  qed simp
  ultimately show ?thesis
    using points decode_points_concat by (simp add: utf8_decode_def Let_def)
qed

section \<open>Base64url\<close>

definition b64_char :: "nat \<Rightarrow> unit16" where
  "b64_char n =
     (if n < 26 then of_nat (65 + n) else if n < 52 then of_nat (71 + n)
      else if n < 62 then of_nat (n - 4) else if n = 62 then 45 else 95)"

definition b64_val :: "unit16 \<Rightarrow> nat option" where
  "b64_val c =
     (let n = unat c in
      if 65 \<le> n \<and> n \<le> 90 then Some (n - 65) else if 97 \<le> n \<and> n \<le> 122 then Some (n - 71)
      else if 48 \<le> n \<and> n \<le> 57 then Some (n + 4) else if n = 45 then Some 62
      else if n = 95 then Some 63 else None)"

fun b64_sextets :: "nat list \<Rightarrow> nat list" where
  "b64_sextets [] = []"
| "b64_sextets [a] = [a div 4, a mod 4 * 16]"
| "b64_sextets [a, b] = [a div 4, a mod 4 * 16 + b div 16, b mod 16 * 4]"
| "b64_sextets (a # b # c # r) =
     [a div 4, a mod 4 * 16 + b div 16, b mod 16 * 4 + c div 64, c mod 64] @ b64_sextets r"

definition b64_encode :: "byte list \<Rightarrow> js_string" where
  "b64_encode bs = map b64_char (b64_sextets (map unat bs))"

text \<open>The decoder on strings of the alphabet; bits past the last full byte are dropped.\<close>

fun b64_octets :: "nat list \<Rightarrow> nat list" where
  "b64_octets [] = []"
| "b64_octets [a] = []"
| "b64_octets [a, b] = [a * 4 + b div 16]"
| "b64_octets [a, b, c] = [a * 4 + b div 16, b mod 16 * 16 + c div 4]"
| "b64_octets (a # b # c # d # r) =
     [a * 4 + b div 16, b mod 16 * 16 + c div 4, c mod 4 * 64 + d] @ b64_octets r"

definition b64_decode :: "js_string \<Rightarrow> byte list option" where
  "b64_decode s =
     (if \<forall>c \<in> set s. b64_val c \<noteq> None then Some (map of_nat (b64_octets (map (the \<circ> b64_val) s))) else None)"

lemma b64_val_char: "n < 64 \<Longrightarrow> b64_val (b64_char n) = Some n"
proof -
  assume n: "n < 64"
  have u: "m < 65536 \<Longrightarrow> unat (of_nat m :: unit16) = m" for m by (simp add: unat_of_nat)
  show ?thesis
    using n u [of "65 + n"] u [of "71 + n"] u [of "n - 4"]
    by (auto simp: b64_char_def b64_val_def Let_def simp del: of_nat_add of_nat_diff)
qed

lemma b64_sextets_small: "\<forall>b \<in> set ns. b < 256 \<Longrightarrow> \<forall>x \<in> set (b64_sextets ns). x < 64"
  by (induction ns rule: b64_sextets.induct) (auto simp: div_less_iff_less_mult)

lemma b64_octets_sextets: "\<forall>b \<in> set ns. b < 256 \<Longrightarrow> b64_octets (b64_sextets ns) = ns"
  by (induction ns rule: b64_sextets.induct) (auto simp: div_mult_mod_eq)

lemma b64_roundtrip: "b64_decode (b64_encode bs) = Some bs"
proof -
  have small: "\<forall>b \<in> set (map unat bs). b < 256" using unat_byte_less by auto
  then have val: "\<forall>x \<in> set (b64_sextets (map unat bs)). b64_val (b64_char x) = Some x"
    using b64_sextets_small b64_val_char by blast
  then have "map (the \<circ> b64_val) (b64_encode bs) = b64_sextets (map unat bs)"
    unfolding b64_encode_def map_map by (intro map_idI) simp
  then show ?thesis using val b64_octets_sextets [OF small]
    by (simp add: b64_decode_def b64_encode_def comp_def)
qed

text \<open>The pattern \<open>^[A-Za-z0-9_-]+$\<close>.\<close>

definition base64url_text :: "js_string \<Rightarrow> bool" where
  "base64url_text s \<longleftrightarrow> s \<noteq> [] \<and> (\<forall>c \<in> set s. b64_val c \<noteq> None)"

lemma b64_encode_text: "bs \<noteq> [] \<Longrightarrow> base64url_text (b64_encode bs)"
proof -
  assume "bs \<noteq> []"
  then have "b64_sextets (map unat bs) \<noteq> []"
    by (cases "map unat bs" rule: b64_sextets.cases) auto
  moreover have "\<forall>b \<in> set (map unat bs). b < 256" using unat_byte_less by auto
  then have "\<forall>x \<in> set (b64_sextets (map unat bs)). b64_val (b64_char x) = Some x"
    using b64_sextets_small b64_val_char by blast
  ultimately show ?thesis by (auto simp: base64url_text_def b64_encode_def)
qed

lemma b64_text_no_dot: "base64url_text s \<Longrightarrow> 46 \<notin> set s"
  by (auto simp: base64url_text_def b64_val_def)

lemma b64_decode_text: "base64url_text s \<Longrightarrow> \<exists>bs. b64_decode s = Some bs"
  by (auto simp: base64url_text_def b64_decode_def)

lemma b64_encode_inject: "b64_encode a = b64_encode b \<longleftrightarrow> a = b"
  by (metis b64_roundtrip option.inject)

section \<open>Hexadecimal\<close>

definition hex_encode :: "byte list \<Rightarrow> js_string" where
  "hex_encode bs = concat (map (\<lambda>b. [hex_digit (unat b div 16), hex_digit (unat b mod 16)]) bs)"

lemma length_hex_encode [simp]: "length (hex_encode bs) = 2 * length bs"
  by (induction bs) (simp_all add: hex_encode_def)

lemma hex_digit_inject: "m < 16 \<Longrightarrow> n < 16 \<Longrightarrow> hex_digit m = hex_digit n \<longleftrightarrow> m = n"
  by (metis hex_val_hex_digit option.inject)

lemma hex_encode_inject [simp]: "hex_encode a = hex_encode b \<longleftrightarrow> a = b"
proof (induction a arbitrary: b)
  case Nil
  then show ?case by (cases b) (simp_all add: hex_encode_def)
next
  case (Cons x a)
  have byte: "hex_digit (unat x div 16) = hex_digit (unat y div 16) \<Longrightarrow>
      hex_digit (unat x mod 16) = hex_digit (unat y mod 16) \<Longrightarrow> x = y" for y
  proof -
    assume "hex_digit (unat x div 16) = hex_digit (unat y div 16)"
      "hex_digit (unat x mod 16) = hex_digit (unat y mod 16)"
    moreover have "unat x div 16 < 16" "unat y div 16 < 16"
      using unat_byte_less [of x] unat_byte_less [of y] by (simp_all add: div_less_iff_less_mult)
    ultimately have "unat x div 16 = unat y div 16" "unat x mod 16 = unat y mod 16"
      by (simp_all add: hex_digit_inject)
    then have "unat x = unat y" by (metis div_mult_mod_eq)
    then show "x = y" by (simp add: word_unat_eq_iff)
  qed
  show ?case
  proof (cases b)
    case Nil
    then show ?thesis by (simp add: hex_encode_def)
  next
    case (Cons y b')
    then show ?thesis using byte [of y] Cons.IH [of b'] by (auto simp: hex_encode_def)
  qed
qed

definition lower_hex :: "unit16 \<Rightarrow> bool" where
  "lower_hex c \<longleftrightarrow> is_digit c \<or> 97 \<le> c \<and> c \<le> 102"

lemma lower_hex_digit: "n < 16 \<Longrightarrow> lower_hex (hex_digit n)"
proof -
  assume n: "n < 16"
  have u: "m < 65536 \<Longrightarrow> unat (of_nat m :: unit16) = m" for m by (simp add: unat_of_nat)
  show ?thesis
    using n u [of "48 + n"] u [of "87 + n"]
    by (auto simp: lower_hex_def is_digit_def hex_digit_def word_le_nat_alt simp del: of_nat_add)
qed

lemma hex_encode_lower: "\<forall>c \<in> set (hex_encode bs). lower_hex c"
  using unat_byte_less by (auto simp: hex_encode_def intro!: lower_hex_digit simp: div_less_iff_less_mult)

lemma wf_hex: "well_formed (hex_encode bs)"
proof (rule well_formed_plain, rule ballI)
  fix c assume "c \<in> set (hex_encode bs)"
  then have "lower_hex c" using hex_encode_lower by blast
  then show "plain_unit c" by (intro plain_small) (auto simp: lower_hex_def is_digit_def word_le_nat_alt)
qed

lemma wf_b64: "base64url_text s \<Longrightarrow> well_formed s"
  by (rule well_formed_plain) (auto simp: base64url_text_def b64_val_def Let_def intro!: plain_small split: if_splits)

end
