(* ===== verification/Evidence_Receipt.thy ===== *)
theory Evidence_Receipt
  imports Codec
begin

text \<open>
  The signed decision records of \<open>packages/evidence/src\<close>: the claim tables (\<open>tables.ts\<close>), errors and
  small checks (\<open>errors.ts\<close>), keys (\<open>keys.ts\<close>), compact signatures (\<open>jws.ts\<close>) and receipts with
  their hash chain (\<open>receipt.ts\<close>). The cryptography of the runtime and the Unicode property table
  are a record of functions every operation takes; what is random (signature nonces, UUIDs) and the
  clock are arguments. A thrown error is its code and claim, without the message.
\<close>

section \<open>Tables\<close>

definition action_classes :: "string list" where
  "action_classes = [''search'', ''read'', ''write'', ''query'', ''delegate'', ''send'', ''summarize'',
     ''observe'', ''execute'', ''dispatch'', ''fetch'', ''invoke'']"

definition side_effect_classes :: "string list" where
  "side_effect_classes = [''none'', ''internal_write'', ''external_send'', ''state_change'',
     ''filesystem_write'', ''process_launch'', ''network_read'', ''subagent_launch'']"

definition verdicts :: "string list" where
  "verdicts = [''compliant'', ''violation'', ''insufficient_evidence'', ''unknown'']"

definition evidence_levels :: "string list" where
  "evidence_levels = [''self_signed'', ''counter_signed'', ''transparency_logged'']"

definition denial_reasons :: "string list" where
  "denial_reasons = [''policy_denied'', ''budget_exhausted'', ''insufficient_evidence'', ''revoked'',
     ''chain_invalid'', ''unknown'', ''observation_gap'']"

definition digest_scopes :: "string list" where
  "digest_scopes = [''result'', ''normalized_input'', ''measurement'', ''custom'']"

definition digest_canonicalizations :: "string list" where
  "digest_canonicalizations = [''jcs-rfc8785'', ''none'']"

definition sensitivities :: "string list" where
  "sensitivities = [''public'', ''internal'', ''confidential'', ''restricted'', ''regulated'', ''unknown'']"

definition receipt_required_claims :: "string list" where
  "receipt_required_claims =
     [''schema_version'', ''canonicalization'', ''receipt_kind'', ''receipt_id'', ''grant_id'',
      ''parent_receipt_hash'', ''parent_receipt_id'', ''actor'', ''verifier_id'', ''step_id'', ''tool'',
      ''action_class'', ''target'', ''resource_family'', ''side_effect_class'', ''verdict'',
      ''evidence_level'', ''reason'', ''policy_decisions'', ''arguments_hash'', ''trace_id'',
      ''run_nonce'', ''invocation_digest'', ''budget_remaining'', ''timestamp'', ''iss'', ''iat'',
      ''exp'', ''jti'']"

definition receipt_optional_claims :: "string list" where
  "receipt_optional_claims =
     [''content_class'', ''content_provenance'', ''sensitivity'', ''instruction_bearing'',
      ''budget_delta'', ''result_hash'', ''public_denial_reason'', ''internal_denial_code'',
      ''evidence_proof_ref'', ''measurements'']"

datatype format_code =
    Missing_claim | Unknown_claim | Invalid_claim | Empty_chain | Invalid_key | Invalid_jws
  | Invalid_sequence | Tail_mismatch

definition seal_required_claims :: "string list" where
  "seal_required_claims =
     [''schema_version'', ''type'', ''iss'', ''sub'', ''aud'', ''iat'', ''exp'', ''jti'', ''passport_jti'',
      ''receipt_chain_head'', ''total_events'', ''permits'', ''denials'']"

definition seal_lifetime_seconds :: int where
  "seal_lifetime_seconds = 7776000"

section \<open>Errors and small checks\<close>

datatype evidence_error = Format_error format_code js_string | Type_error | Syntax_error | Crypto_error

definition requireClaim :: "bool \<Rightarrow> js_string \<Rightarrow> (evidence_error, unit) res" where
  "requireClaim c claim = check c (Format_error Invalid_claim claim)"

text \<open>Checks in the order the code makes them: the first that throws decides.\<close>

definition all_of :: "('e, unit) res list \<Rightarrow> ('e, unit) res" where
  "all_of rs = check_all (\<lambda>r. r) rs"

text \<open>A property read as a string or a number.\<close>

fun as_string :: "json option \<Rightarrow> js_string option" where
  "as_string (Some (String s)) = Some s"
| "as_string _ = None"

fun as_number :: "json option \<Rightarrow> js_num option" where
  "as_number (Some (Number x)) = Some x"
| "as_number _ = None"

definition str_at :: "json \<Rightarrow> string \<Rightarrow> js_string option" where
  "str_at v k = as_string (own v (js k))"

definition num_at :: "json \<Rightarrow> string \<Rightarrow> js_num option" where
  "num_at v k = as_number (own v (js k))"

definition has_own :: "json \<Rightarrow> string \<Rightarrow> bool" where
  "has_own v k \<longleftrightarrow> own v (js k) \<noteq> None"

definition member_of :: "string list \<Rightarrow> js_string option \<Rightarrow> bool" where
  "member_of table s \<longleftrightarrow> (case s of Some x \<Rightarrow> x \<in> set (map js table) | None \<Rightarrow> False)"

definition isNonemptyString :: "js_string option \<Rightarrow> bool" where
  "isNonemptyString s \<longleftrightarrow> (case s of Some x \<Rightarrow> trim x \<noteq> [] | None \<Rightarrow> False)"

definition isNonnegativeInteger :: "js_num option \<Rightarrow> bool" where
  "isNonnegativeInteger x \<longleftrightarrow>
     (case x of Some (Num r) \<Rightarrow> is_safe_integer (Num r) \<and> 0 \<le> r | _ \<Rightarrow> False)"

text \<open>\<open>^[A-Za-z0-9._:-]+$\<close> and \<open>^[a-f0-9]{64}$\<close>.\<close>

definition token_text :: "js_string \<Rightarrow> bool" where
  "token_text s \<longleftrightarrow> s \<noteq> [] \<and>
     (\<forall>c \<in> set s. is_digit c \<or> 65 \<le> c \<and> c \<le> 90 \<or> 97 \<le> c \<and> c \<le> 122 \<or> c \<in> {46, 95, 58, 45})"

definition hash_text :: "js_string \<Rightarrow> bool" where
  "hash_text s \<longleftrightarrow> length s = 64 \<and> (\<forall>c \<in> set s. lower_hex c)"

definition max_epoch_seconds :: int where
  "max_epoch_seconds = 253402300799"

text \<open>The clock is the time value of a date, in milliseconds.\<close>

definition epochSeconds :: "js_num \<Rightarrow> (evidence_error, int) res" where
  "epochSeconds now =
     (case now of
        Num ms \<Rightarrow>
          let seconds = \<lfloor>ms / 1000\<rfloor> in
          if 0 \<le> seconds \<and> seconds \<le> max_epoch_seconds then Inr seconds
          else Inl (Format_error Invalid_claim (js ''iat''))
      | _ \<Rightarrow> Inl (Format_error Invalid_claim (js ''iat'')))"

definition num :: "int \<Rightarrow> json" where
  "num i = Number (Num (of_int i))"

text \<open>\<open>new Date(seconds * 1000).toISOString()\<close> without its milliseconds, for the years 1970 to 9999.\<close>

definition civil_from_days :: "int \<Rightarrow> int \<times> int \<times> int" where
  "civil_from_days days =
     (let z = days + 719468; era = z div 146097; doe = z mod 146097;
          yoe = (doe - doe div 1460 + doe div 36524 - doe div 146096) div 365;
          doy = doe - (365 * yoe + yoe div 4 - yoe div 100);
          mp = (5 * doy + 2) div 153;
          d = doy - (153 * mp + 2) div 5 + 1;
          m = (if mp < 10 then mp + 3 else mp - 9)
      in (yoe + era * 400 + (if m \<le> 2 then 1 else 0), m, d))"

definition padded :: "nat \<Rightarrow> int \<Rightarrow> js_string" where
  "padded w i = (let ds = digits_of (nat i) in replicate (w - length ds) 48 @ ds)"

definition iso_seconds :: "int \<Rightarrow> js_string" where
  "iso_seconds t =
     (let (y, m, d) = civil_from_days (t div 86400); s = t mod 86400 in
      padded 4 y @ 45 # padded 2 m @ 45 # padded 2 d @ 84 # padded 2 (s div 3600) @ 58 #
      padded 2 (s div 60 mod 60) @ 58 # padded 2 (s mod 60) @ [90])"

section \<open>Keys and compact signatures\<close>

datatype key_kind = Key_private | Key_public | Key_secret

record key_object =
  key_kind :: key_kind
  asymmetricKeyType :: "js_string option"
  namedCurve :: "js_string option"
  key_material :: nat

datatype key_arg = Key_object key_object | Pem js_string

record runtime =
  digest_sha256 :: "byte list \<Rightarrow> byte list"
  createPrivateKey :: "js_string \<Rightarrow> key_object option"
  createPublicKey :: "js_string \<Rightarrow> key_object option"
  publicKeyOf :: "key_object \<Rightarrow> key_object option"
  export_der :: "key_object \<Rightarrow> byte list"
  export_pem :: "key_object \<Rightarrow> js_string"
  sign_es256 :: "nat \<Rightarrow> key_object \<Rightarrow> byte list \<Rightarrow> byte list"
  verify_es256 :: "key_object \<Rightarrow> byte list \<Rightarrow> byte list \<Rightarrow> bool"
  control_or_separator :: "nat \<Rightarrow> bool"

definition is_p256 :: "key_object \<Rightarrow> bool" where
  "is_p256 key \<longleftrightarrow> asymmetricKeyType key = Some (js ''ec'') \<and> namedCurve key = Some (js ''prime256v1'')"

definition requireP256 :: "key_object \<Rightarrow> (evidence_error, key_object) res" where
  "requireP256 key = (if is_p256 key then Inr key else Inl Type_error)"

definition loadEvidencePrivateKey :: "runtime \<Rightarrow> js_string \<Rightarrow> (evidence_error, key_object) res" where
  "loadEvidencePrivateKey rt pem =
     (case createPrivateKey rt pem of Some key \<Rightarrow> requireP256 key | None \<Rightarrow> Inl Crypto_error)"

text \<open>The PEM envelope: one line break after the begin line, then base64 text and line breaks.\<close>

definition pem_text_unit :: "unit16 \<Rightarrow> bool" where
  "pem_text_unit c \<longleftrightarrow> is_digit c \<or> 65 \<le> c \<and> c \<le> 90 \<or> 97 \<le> c \<and> c \<le> 122 \<or> c \<in> {43, 47, 61, 13, 10}"

definition pem_envelope :: "js_string \<Rightarrow> bool" where
  "pem_envelope s \<longleftrightarrow>
     (let b = js ''-----BEGIN PUBLIC KEY-----''; e = js ''-----END PUBLIC KEY-----'' in
      startsWith s b \<and> endsWith s e \<and> length b + length e \<le> length s \<and>
      (let mid = take (length s - length b - length e) (drop (length b) s);
           body = (if startsWith mid [13, 10] then drop 2 mid else drop 1 mid)
       in (startsWith mid [13, 10] \<or> startsWith mid [10]) \<and> body \<noteq> [] \<and> (\<forall>c \<in> set body. pem_text_unit c)))"

definition loadEvidencePublicKey :: "runtime \<Rightarrow> js_string \<Rightarrow> (evidence_error, key_object) res" where
  "loadEvidencePublicKey rt pem =
     (if \<not> pem_envelope (trim pem) then Inl Type_error
      else case createPublicKey rt pem of Some key \<Rightarrow> requireP256 key | None \<Rightarrow> Inl Crypto_error)"

definition public_arg :: "runtime \<Rightarrow> key_arg \<Rightarrow> (evidence_error, key_object) res" where
  "public_arg rt k = (case k of Pem p \<Rightarrow> loadEvidencePublicKey rt p | Key_object key \<Rightarrow> Inr key)"

definition private_arg :: "runtime \<Rightarrow> key_arg \<Rightarrow> (evidence_error, key_object) res" where
  "private_arg rt k = (case k of Pem p \<Rightarrow> loadEvidencePrivateKey rt p | Key_object key \<Rightarrow> Inr key)"

definition public_of :: "runtime \<Rightarrow> key_object \<Rightarrow> (evidence_error, key_object) res" where
  "public_of rt key = (case publicKeyOf rt key of Some k \<Rightarrow> Inr k | None \<Rightarrow> Inl Crypto_error)"

definition evidenceKeyId :: "runtime \<Rightarrow> key_arg \<Rightarrow> (evidence_error, js_string) res" where
  "evidenceKeyId rt k =
     and_then (and_then (public_arg rt k) requireP256) (\<lambda>key.
     if key_kind key \<noteq> Key_public then Inl Type_error
     else Inr (js ''sha256:'' @ hex_encode (digest_sha256 rt (export_der rt key))))"

definition sha256 :: "runtime \<Rightarrow> js_string \<Rightarrow> js_string" where
  "sha256 rt s = hex_encode (digest_sha256 rt (utf8_encode s))"

definition canonical :: "json \<Rightarrow> (evidence_error, js_string) res" where
  "canonical v = (case canonicalize v of Inr t \<Rightarrow> Inr t | Inl _ \<Rightarrow> Inl Type_error)"

text \<open>\<open>Buffer.from(text, "ascii")\<close> keeps the low byte of each unit.\<close>

definition ascii_bytes :: "js_string \<Rightarrow> byte list" where
  "ascii_bytes s = map (\<lambda>c. of_nat (unat c)) s"

definition signCompact ::
    "runtime \<Rightarrow> nat \<Rightarrow> json \<Rightarrow> key_arg \<Rightarrow> js_string \<Rightarrow> js_string \<Rightarrow> (evidence_error, js_string) res" where
  "signCompact rt nonce claims privateKey kid typ =
     and_then (private_arg rt privateKey) (\<lambda>key.
     and_then
       (if key_kind key \<noteq> Key_private \<or> \<not> is_p256 key then Inr False
        else and_then (public_of rt key) (\<lambda>pub.
          and_then (evidenceKeyId rt (Key_object pub)) (\<lambda>i. Inr (i = kid)))) (\<lambda>ok.
     if \<not> ok then Inl (Format_error Invalid_key (js ''kid''))
     else
       and_then (canonical (Object [(js ''alg'', String (js ''ES256'')), (js ''kid'', String kid), (js ''typ'', String typ)]))
         (\<lambda>header. and_then (canonical claims) (\<lambda>payload.
           let text = b64_encode (utf8_encode header) @ 46 # b64_encode (utf8_encode payload) in
           Inr (text @ 46 # b64_encode (sign_es256 rt nonce key (ascii_bytes text)))))))"

record decoded =
  jws_header :: json
  jws_payload :: json
  payloadBytes :: "byte list"
  signature :: "byte list"
  signed_data :: js_string

text \<open>One part of a compact record: unpadded base64url, and the only spelling of its bytes.\<close>

definition decode_part :: "js_string \<Rightarrow> byte list option" where
  "decode_part part =
     (if base64url_text part
      then (case b64_decode part of
          Some bs \<Rightarrow> if b64_encode bs = part then Some bs else None
        | None \<Rightarrow> None)
      else None)"

definition decode_json :: "byte list \<Rightarrow> (evidence_error, json) res" where
  "decode_json bs =
     (case utf8_decode bs of
        None \<Rightarrow> Inl Type_error
      | Some s \<Rightarrow> (case json_parse s of Some v \<Rightarrow> Inr v | None \<Rightarrow> Inl Syntax_error))"

definition decodeCompact :: "js_string \<Rightarrow> (evidence_error, decoded) res" where
  "decodeCompact jws =
     (case map decode_part (split_on 46 jws) of
        [Some h, Some p, Some s] \<Rightarrow>
          and_then (decode_json h) (\<lambda>header. and_then (decode_json p) (\<lambda>payload.
            Inr \<lparr>jws_header = header, jws_payload = payload, payloadBytes = p, signature = s,
                 signed_data = (split_on 46 jws ! 0) @ 46 # (split_on 46 jws ! 1)\<rparr>))
      | _ \<Rightarrow> Inl (Format_error Invalid_jws (js ''jws'')))"

definition verifyCompactSignature :: "runtime \<Rightarrow> decoded \<Rightarrow> key_arg \<Rightarrow> (evidence_error, bool) res" where
  "verifyCompactSignature rt dec publicKey =
     and_then (public_arg rt publicKey) (\<lambda>key.
     and_then (evidenceKeyId rt (Key_object key)) (\<lambda>_.
       Inr (length (signature dec) = 64 \<and>
         verify_es256 rt key (ascii_bytes (signed_data dec)) (signature dec))))"

section \<open>Validating receipts\<close>

definition validateDigest :: "json option \<Rightarrow> string \<Rightarrow> (evidence_error, unit) res" where
  "validateDigest value claim =
     (case value of
        None \<Rightarrow> requireClaim False (js claim)
      | Some v \<Rightarrow> all_of
          [requireClaim (is_object v) (js claim),
           requireClaim (length (keys_of v) = 4 \<and>
             set (keys_of v) \<subseteq> js ` {''alg'', ''canonicalization'', ''scope'', ''value''}) (js claim),
           requireClaim (str_at v ''alg'' = Some (js ''sha-256'') \<and>
             member_of digest_canonicalizations (str_at v ''canonicalization'') \<and>
             member_of digest_scopes (str_at v ''scope'') \<and>
             (case str_at v ''value'' of Some x \<Rightarrow> base64url_text x | None \<Rightarrow> False)) (js claim)])"

definition decision_claim :: "nat \<Rightarrow> js_string" where
  "decision_claim i = js ''policy_decisions['' @ digits_of i @ js '']''"

definition rule_id_ok :: "runtime \<Rightarrow> js_string \<Rightarrow> bool" where
  "rule_id_ok rt s \<longleftrightarrow> length (code_points s) \<le> 256 \<and>
     (\<forall>p \<in> set (code_points (filter (\<lambda>c. c \<noteq> 32) s)). \<not> control_or_separator rt p)"

definition validateDecision :: "runtime \<Rightarrow> nat \<times> json \<Rightarrow> (evidence_error, unit) res" where
  "validateDecision rt iv =
     (let claim = decision_claim (fst iv); v = snd iv in all_of
        [requireClaim (is_object v \<and> has_own v ''backend'' \<and> has_own v ''decision'' \<and>
           set (keys_of v) \<subseteq> js ` {''backend'', ''decision'', ''reason'', ''rule_id'', ''eval_ms''}) claim,
         requireClaim (isNonemptyString (str_at v ''backend'')) (claim @ js ''.backend''),
         requireClaim (isNonemptyString (str_at v ''decision'')) (claim @ js ''.decision''),
         requireClaim (\<not> has_own v ''reason'' \<or> own v (js ''reason'') = Some Null \<or> str_at v ''reason'' \<noteq> None)
           (claim @ js ''.reason''),
         requireClaim (\<not> has_own v ''rule_id'' \<or>
           (case str_at v ''rule_id'' of Some s \<Rightarrow> rule_id_ok rt s | None \<Rightarrow> False)) (claim @ js ''.rule_id''),
         requireClaim (\<not> has_own v ''eval_ms'' \<or>
           (case num_at v ''eval_ms'' of Some (Num r) \<Rightarrow> 0 \<le> r | _ \<Rightarrow> False)) (claim @ js ''.eval_ms'')])"

definition nonempty_claims :: "string list" where
  "nonempty_claims = [''receipt_id'', ''grant_id'', ''actor'', ''verifier_id'', ''trace_id'', ''run_nonce'',
     ''step_id'', ''tool'', ''target'', ''resource_family'', ''reason'', ''iss'', ''jti'']"

definition claim_guards :: "(string \<times> string list) list" where
  "claim_guards = [(''action_class'', action_classes), (''side_effect_class'', side_effect_classes),
     (''verdict'', verdicts), (''evidence_level'', evidence_levels)]"

text \<open>The value of an integer claim.\<close>

definition int_at :: "json \<Rightarrow> string \<Rightarrow> int option" where
  "int_at v k = (case num_at v k of Some (Num r) \<Rightarrow> Some \<lfloor>r\<rfloor> | _ \<Rightarrow> None)"

definition parent_ok :: "json \<Rightarrow> bool" where
  "parent_ok v \<longleftrightarrow>
     (if own v (js ''parent_receipt_hash'') = Some Null then own v (js ''parent_receipt_id'') = Some Null
      else str_at v ''parent_receipt_id'' = map_option (take 16) (str_at v ''parent_receipt_hash''))"

definition validateKey :: "js_string \<times> json \<Rightarrow> (evidence_error, unit) res" where
  "validateKey kv =
     (if fst kv \<notin> js ` set (receipt_required_claims @ receipt_optional_claims)
      then Inl (Format_error Unknown_claim (fst kv))
      else case canonicalize (snd kv) of
        Inl _ \<Rightarrow> Inl (Format_error Invalid_claim (fst kv))
      | Inr _ \<Rightarrow> Inr ())"

fun entries_of :: "json \<Rightarrow> (js_string \<times> json) list" where
  "entries_of (Object kvs) = kvs"
| "entries_of _ = []"

fun elements_of :: "json option \<Rightarrow> json list option" where
  "elements_of (Some (Array vs)) = Some vs"
| "elements_of _ = None"

definition validateReceiptClaims :: "runtime \<Rightarrow> json \<Rightarrow> (evidence_error, unit) res" where
  "validateReceiptClaims rt v = all_of
     [requireClaim (is_object v) (js ''claims''),
      check_all (\<lambda>claim. check (has_own v claim) (Format_error Missing_claim (js claim))) receipt_required_claims,
      check_all validateKey (entries_of v),
      requireClaim (str_at v ''schema_version'' = Some (js ''ardur.execution_receipt.v0.2'')) (js ''schema_version''),
      requireClaim (str_at v ''canonicalization'' = Some (js ''jcs-rfc8785'')) (js ''canonicalization''),
      requireClaim (str_at v ''receipt_kind'' = Some (js ''action'')) (js ''receipt_kind''),
      check_all (\<lambda>claim. requireClaim (isNonemptyString (str_at v claim)) (js claim)) nonempty_claims,
      requireClaim (case str_at v ''run_nonce'' of Some s \<Rightarrow> 16 \<le> length s \<and> base64url_text s | None \<Rightarrow> False)
        (js ''run_nonce''),
      requireClaim (own v (js ''parent_receipt_hash'') = Some Null \<or>
        (case str_at v ''parent_receipt_hash'' of Some h \<Rightarrow> hash_text h | None \<Rightarrow> False)) (js ''parent_receipt_hash''),
      requireClaim (parent_ok v) (js ''parent_receipt_id''),
      check_all (\<lambda>(claim, table). requireClaim (member_of table (str_at v claim)) (js claim)) claim_guards,
      validateDigest (own v (js ''invocation_digest'')) ''invocation_digest'',
      requireClaim (case own v (js ''invocation_digest'') of
          Some d \<Rightarrow> str_at d ''canonicalization'' = Some (js ''jcs-rfc8785'') \<and>
            str_at d ''scope'' = Some (js ''normalized_input'')
        | None \<Rightarrow> False) (js ''invocation_digest''),
      requireClaim (case str_at v ''arguments_hash'' of Some h \<Rightarrow> hash_text h | None \<Rightarrow> False) (js ''arguments_hash''),
      (if has_own v ''result_hash'' then validateDigest (own v (js ''result_hash'')) ''result_hash'' else Inr ()),
      requireClaim (isNonnegativeInteger (num_at v ''iat'') \<and>
        (case int_at v ''iat'' of Some t \<Rightarrow> t \<le> max_epoch_seconds | None \<Rightarrow> False)) (js ''iat''),
      requireClaim (isNonnegativeInteger (num_at v ''exp'') \<and>
        int_at v ''exp'' = map_option (\<lambda>t. t + 3600) (int_at v ''iat'')) (js ''exp''),
      requireClaim (str_at v ''timestamp'' = map_option iso_seconds (int_at v ''iat'')) (js ''timestamp''),
      requireClaim (str_at v ''jti'' = str_at v ''receipt_id'') (js ''jti''),
      requireClaim (str_at v ''iss'' = str_at v ''verifier_id'') (js ''iss''),
      (case elements_of (own v (js ''policy_decisions'')) of
         None \<Rightarrow> requireClaim False (js ''policy_decisions'')
       | Some ds \<Rightarrow> check_all (validateDecision rt) (enumerate 0 ds)),
      (case own v (js ''budget_remaining'') of
         Some b \<Rightarrow> and_then (requireClaim (is_object b) (js ''budget_remaining'')) (\<lambda>_.
           check_all (\<lambda>(k, x). requireClaim (token_text k \<and> isNonnegativeInteger (as_number (Some x)))
             (js ''budget_remaining.'' @ k)) (entries_of b))
       | None \<Rightarrow> requireClaim False (js ''budget_remaining'')),
      (if str_at v ''verdict'' = Some (js ''compliant'')
       then check_all (\<lambda>claim. requireClaim (\<not> has_own v claim) (js claim))
         [''public_denial_reason'', ''internal_denial_code'']
       else all_of
         [requireClaim (member_of denial_reasons (str_at v ''public_denial_reason'')) (js ''public_denial_reason''),
          requireClaim (case str_at v ''internal_denial_code'' of Some c \<Rightarrow> token_text c | None \<Rightarrow> False)
            (js ''internal_denial_code'')]),
      requireClaim (\<not> has_own v ''sensitivity'' \<or> member_of sensitivities (str_at v ''sensitivity'')) (js ''sensitivity''),
      requireClaim (\<not> has_own v ''instruction_bearing'' \<or>
        (\<exists>b \<in> {True, False}. own v (js ''instruction_bearing'') = Some (Bool b))) (js ''instruction_bearing'')]"

section \<open>Building receipts and chains\<close>

record run_identity =
  id_runId :: js_string
  id_spaceId :: js_string
  id_botId :: "js_string option"
  id_actor :: "js_string option"
  id_verifierId :: "js_string option"
  id_grantId :: js_string
  id_traceId :: js_string
  id_runNonce :: js_string

record receipt_input = run_identity +
  in_tool :: js_string
  in_args :: json
  in_actionClass :: js_string
  in_sideEffectClass :: js_string
  in_target :: js_string
  in_resourceFamily :: js_string
  in_verdict :: js_string
  in_reason :: js_string
  in_policyDecisions :: json
  in_budgetRemaining :: json
  in_optional :: "(js_string \<times> json) list"
  in_now :: js_num

definition step_text :: "js_string \<Rightarrow> nat \<Rightarrow> js_string" where
  "step_text runId step = runId @ 58 # digits_of step"

definition receiptIdentity ::
    "('a) run_identity_scheme \<Rightarrow> nat \<Rightarrow> (evidence_error, (js_string \<times> json) list) res" where
  "receiptIdentity inp step =
     and_then (requireClaim (isNonemptyString (Some (id_runId inp))) (js ''runId'')) (\<lambda>_.
     and_then (requireClaim (isNonemptyString (Some (id_spaceId inp))) (js ''spaceId'')) (\<lambda>_.
     let verifierId = (case id_verifierId inp of
           Some i \<Rightarrow> i | None \<Rightarrow> js ''ardur:'' @ id_spaceId inp @ js '':evidence'')
     in Inr
       [(js ''grant_id'', String (id_grantId inp)),
        (js ''trace_id'', String (id_traceId inp)),
        (js ''run_nonce'', String (id_runNonce inp)),
        (js ''actor'', String (case id_actor inp of Some a \<Rightarrow> a
           | None \<Rightarrow> (case id_botId inp of Some b \<Rightarrow> b | None \<Rightarrow> []))),
        (js ''verifier_id'', String verifierId),
        (js ''iss'', String verifierId),
        (js ''step_id'', String (step_text (id_runId inp) step))]))"

definition optional_entries :: "receipt_input \<Rightarrow> (js_string \<times> json) list" where
  "optional_entries inp =
     concat (map (\<lambda>k. case map_of (in_optional inp) (js k) of Some x \<Rightarrow> [(js k, x)] | None \<Rightarrow> [])
       receipt_optional_claims)"

definition opt_string :: "js_string option \<Rightarrow> json" where
  "opt_string s = (case s of Some x \<Rightarrow> String x | None \<Rightarrow> Null)"

definition receipt_entries ::
    "runtime \<Rightarrow> js_string \<Rightarrow> receipt_input \<Rightarrow> int \<Rightarrow> js_string option \<Rightarrow> js_string \<Rightarrow> js_string \<Rightarrow> (js_string \<times> json) list" where
  "receipt_entries rt uuid inp iat parentHash args_text invocation =
     [(js ''schema_version'', String (js ''ardur.execution_receipt.v0.2'')),
      (js ''canonicalization'', String (js ''jcs-rfc8785'')),
      (js ''receipt_kind'', String (js ''action'')),
      (js ''receipt_id'', String uuid),
      (js ''parent_receipt_hash'', opt_string parentHash),
      (js ''parent_receipt_id'', opt_string (map_option (take 16) parentHash)),
      (js ''tool'', String (in_tool inp)),
      (js ''action_class'', String (in_actionClass inp)),
      (js ''side_effect_class'', String (in_sideEffectClass inp)),
      (js ''target'', String (in_target inp)),
      (js ''resource_family'', String (in_resourceFamily inp)),
      (js ''verdict'', String (in_verdict inp)),
      (js ''evidence_level'', String (js ''self_signed'')),
      (js ''reason'', String (in_reason inp)),
      (js ''policy_decisions'', in_policyDecisions inp),
      (js ''arguments_hash'', String (sha256 rt args_text)),
      (js ''invocation_digest'', Object
        [(js ''alg'', String (js ''sha-256'')),
         (js ''canonicalization'', String (js ''jcs-rfc8785'')),
         (js ''scope'', String (js ''normalized_input'')),
         (js ''value'', String (b64_encode (digest_sha256 rt (utf8_encode invocation))))]),
      (js ''budget_remaining'', in_budgetRemaining inp),
      (js ''timestamp'', String (iso_seconds iat)),
      (js ''iat'', num iat),
      (js ''exp'', num (iat + 3600)),
      (js ''jti'', String uuid)]"

definition buildReceiptClaims ::
    "runtime \<Rightarrow> js_string \<Rightarrow> receipt_input \<Rightarrow> nat \<Rightarrow> js_string option \<Rightarrow> (evidence_error, json) res" where
  "buildReceiptClaims rt uuid inp step previous =
     and_then (receiptIdentity inp step) (\<lambda>identity.
     and_then (requireClaim (int step \<le> max_safe_integer) (js ''step'')) (\<lambda>_.
     and_then (epochSeconds (in_now inp)) (\<lambda>iat.
     and_then (canonical (in_args inp)) (\<lambda>args_text.
     and_then (canonical (Object [(js ''tool'', String (in_tool inp)), (js ''args'', in_args inp)])) (\<lambda>invocation.
       let parentHash = map_option (sha256 rt) previous;
           claims = Object (identity @ receipt_entries rt uuid inp iat parentHash args_text invocation @
             optional_entries inp)
       in and_then (validateReceiptClaims rt claims) (\<lambda>_. Inr claims))))))"

definition receipt_typ :: js_string where
  "receipt_typ = js ''application/ardur.er+jwt''"

definition signReceipt ::
    "runtime \<Rightarrow> nat \<Rightarrow> json \<Rightarrow> key_arg \<Rightarrow> js_string \<Rightarrow> (evidence_error, js_string) res" where
  "signReceipt rt nonce claims privateKey kid =
     and_then (validateReceiptClaims rt claims) (\<lambda>_.
     and_then (requireClaim (str_at claims ''evidence_level'' = Some (js ''self_signed'')) (js ''evidence_level''))
       (\<lambda>_. signCompact rt nonce claims privateKey kid receipt_typ))"

record chain_record =
  rec_jws :: js_string
  rec_receiptId :: js_string
  rec_sha256 :: js_string
  rec_parentSha256 :: "js_string option"
  rec_seq :: nat

record evidence_chain =
  chain_key :: key_object
  chain_kid :: js_string
  previousJws :: "js_string option"
  nextStep :: nat

definition chain :: "runtime \<Rightarrow> key_arg \<Rightarrow> js_string \<Rightarrow> js_string option \<Rightarrow> nat \<Rightarrow> (evidence_error, evidence_chain) res" where
  "chain rt privateKey kid previous step =
     and_then (private_arg rt privateKey) (\<lambda>key.
       Inr \<lparr>chain_key = key, chain_kid = kid, previousJws = previous, nextStep = step\<rparr>)"

definition append_receipt ::
    "runtime \<Rightarrow> nat \<Rightarrow> js_string \<Rightarrow> evidence_chain \<Rightarrow> receipt_input \<Rightarrow>
     (evidence_error, chain_record \<times> evidence_chain) res" where
  "append_receipt rt nonce uuid ch inp =
     and_then (buildReceiptClaims rt uuid inp (nextStep ch) (previousJws ch)) (\<lambda>claims.
     and_then (signReceipt rt nonce claims (Key_object (chain_key ch)) (chain_kid ch)) (\<lambda>jws.
       Inr (\<lparr>rec_jws = jws, rec_receiptId = uuid, rec_sha256 = sha256 rt jws,
             rec_parentSha256 = map_option (sha256 rt) (previousJws ch), rec_seq = nextStep ch\<rparr>,
            ch\<lparr>previousJws := Some jws, nextStep := nextStep ch + 1\<rparr>)))"

definition createEvidenceChain :: "runtime \<Rightarrow> key_arg \<Rightarrow> js_string \<Rightarrow> (evidence_error, evidence_chain) res" where
  "createEvidenceChain rt privateKey kid = chain rt privateKey kid None 0"

text \<open>The checks of a stored tail; any failure among them is reported as an invalid tail.\<close>

definition tail_claims ::
    "runtime \<Rightarrow> js_string \<Rightarrow> key_arg \<Rightarrow> js_string \<Rightarrow> (evidence_error, json) res" where
  "tail_claims rt lastJws privateKey kid =
     and_then (decodeCompact lastJws) (\<lambda>dec.
     and_then (validateReceiptClaims rt (jws_payload dec)) (\<lambda>_.
     and_then (private_arg rt privateKey) (\<lambda>priv.
     and_then (public_of rt priv) (\<lambda>key.
     let header = jws_header dec in
     and_then (evidenceKeyId rt (Key_object key)) (\<lambda>i.
     and_then (requireClaim (is_object header \<and> str_at header ''alg'' = Some (js ''ES256'') \<and>
       str_at header ''typ'' = Some receipt_typ \<and> str_at header ''kid'' = Some kid \<and> i = kid \<and>
       length (keys_of header) = 3) (js ''header'')) (\<lambda>_.
     and_then (verifyCompactSignature rt dec (Key_object key)) (\<lambda>sig_ok.
     and_then (requireClaim sig_ok (js ''signature'')) (\<lambda>_.
     and_then (canonical (jws_payload dec)) (\<lambda>t.
     and_then (requireClaim (utf8_encode t = payloadBytes dec) (js ''payload'')) (\<lambda>_.
       Inr (jws_payload dec)))))))))))"

definition resumeChain ::
    "runtime \<Rightarrow> js_string \<Rightarrow> nat \<Rightarrow> run_identity \<Rightarrow> key_arg \<Rightarrow> js_string \<Rightarrow> (evidence_error, evidence_chain) res" where
  "resumeChain rt lastJws lastSeq expectedRun privateKey kid =
     (if \<not> int lastSeq < max_safe_integer then Inl (Format_error Invalid_sequence (js ''lastSeq''))
      else
        and_then (receiptIdentity expectedRun lastSeq) (\<lambda>identity.
        and_then (case tail_claims rt lastJws privateKey kid of
            Inl _ \<Rightarrow> Inl (Format_error Invalid_jws (js ''lastJws'')) | Inr c \<Rightarrow> Inr c) (\<lambda>claims.
        and_then (check_all (\<lambda>(claim, expected). check (own claims claim = Some expected)
            (Format_error Tail_mismatch claim)) identity) (\<lambda>_.
          chain rt privateKey kid (Some lastJws) (lastSeq + 1)))))"

section \<open>Checks do not depend on the order of keys\<close>

named_theorems norm_simps \<open>what the checks read of a value with its keys sorted\<close>

lemma all_of_Inr_iff [simp]: "all_of rs = Inr u \<longleftrightarrow> (\<forall>r \<in> set rs. r = Inr ())"
  by (simp add: all_of_def)

lemma requireClaim_Inr_iff [simp]: "requireClaim c claim = Inr u \<longleftrightarrow> c"
  by (simp add: requireClaim_def)

lemma wf_own: "wf_json v \<Longrightarrow> own v k = Some w \<Longrightarrow> wf_json w"
  by (cases v) (auto dest: map_of_SomeD)

lemma as_string_norm [norm_simps]: "as_string (map_option norm_json x) = as_string x"
  and as_number_norm [norm_simps]: "as_number (map_option norm_json x) = as_number x"
  by (cases x; cases "the x"; simp)+

lemma norm_eq_simps [norm_simps]:
  "norm_json w = Null \<longleftrightarrow> w = Null" "norm_json w = Bool b \<longleftrightarrow> w = Bool b"
  by (cases w; simp)+

lemma str_at_norm [norm_simps]: "wf_json v \<Longrightarrow> str_at (norm_json v) k = str_at v k"
  and num_at_norm [norm_simps]: "wf_json v \<Longrightarrow> num_at (norm_json v) k = num_at v k"
  and has_own_norm [norm_simps]: "wf_json v \<Longrightarrow> has_own (norm_json v) k = has_own v k"
  by (simp_all add: str_at_def num_at_def has_own_def norm_simps)

lemma int_at_norm [norm_simps]: "wf_json v \<Longrightarrow> int_at (norm_json v) k = int_at v k"
  by (simp add: int_at_def norm_simps)

lemma own_norm_eq [norm_simps]:
  "wf_json v \<Longrightarrow> own (norm_json v) k = Some Null \<longleftrightarrow> own v k = Some Null"
  "wf_json v \<Longrightarrow> own (norm_json v) k = Some (Bool b) \<longleftrightarrow> own v k = Some (Bool b)"
  by (auto simp: norm_simps)

lemma parent_ok_norm [norm_simps]: "wf_json v \<Longrightarrow> parent_ok (norm_json v) = parent_ok v"
  unfolding parent_ok_def by (simp add: norm_simps del: own_norm)

lemma elements_norm [norm_simps]:
  "elements_of (map_option norm_json x) = map_option (map norm_json) (elements_of x)"
  by (cases x; cases "the x"; simp)

lemma set_entries_norm [norm_simps]:
  "set (entries_of (norm_json v)) = (\<lambda>kv. (fst kv, norm_json (snd kv))) ` set (entries_of v)"
  by (cases v) simp_all

lemma validateDigest_norm [norm_simps]:
  assumes "\<And>v. x = Some v \<Longrightarrow> wf_json v"
  shows "validateDigest (map_option norm_json x) claim = validateDigest x claim"
  using assms by (cases x) (simp_all add: validateDigest_def norm_simps)

lemma validateDecision_norm [norm_simps]:
  "wf_json v \<Longrightarrow> validateDecision rt (i, norm_json v) = validateDecision rt (i, v)"
  by (simp add: validateDecision_def Let_def norm_simps del: own_norm)

lemma validateKey_norm [norm_simps]: "validateKey (k, norm_json v) = validateKey (k, v)"
  by (simp add: validateKey_def canonicalize_norm split: sum.split)

lemma case_own_norm [norm_simps]:
  assumes "wf_json v"
  shows "(case own (norm_json v) k of Some d \<Rightarrow> f d | None \<Rightarrow> c) = (case own v k of Some d \<Rightarrow> f (norm_json d) | None \<Rightarrow> c)"
  using assms by (cases "own v k") simp_all

lemma check_all_entries_norm:
  "check_all f (entries_of (norm_json v)) = Inr () \<longleftrightarrow> (\<forall>(k, x) \<in> set (entries_of v). f (k, norm_json x) = Inr ())"
  by (auto simp: norm_simps)

lemma check_all_decisions_norm:
  assumes "\<forall>d \<in> set ds. wf_json d"
  shows "check_all (validateDecision rt) (enumerate n (map norm_json ds)) = check_all (validateDecision rt) (enumerate n ds)"
  using assms by (induction ds arbitrary: n) (simp_all add: norm_simps)

lemma digest_scope_norm:
  "wf_json v \<Longrightarrow>
   (case own v k of Some d \<Rightarrow> str_at (norm_json d) a = b \<and> str_at (norm_json d) e = f | None \<Rightarrow> False) =
   (case own v k of Some d \<Rightarrow> str_at d a = b \<and> str_at d e = f | None \<Rightarrow> False)"
  by (auto simp: norm_simps wf_own split: option.split)

lemma decisions_norm:
  assumes "wf_json v"
  shows "(case elements_of (own (norm_json v) k) of
       None \<Rightarrow> requireClaim False c
     | Some ds \<Rightarrow> check_all (validateDecision rt) (enumerate 0 ds)) =
    (case elements_of (own v k) of
       None \<Rightarrow> requireClaim False c
     | Some ds \<Rightarrow> check_all (validateDecision rt) (enumerate 0 ds))"
proof (cases "elements_of (own v k)")
  case None
  then show ?thesis using assms by (simp add: norm_simps)
next
  case (Some ds)
  then have "own v k = Some (Array ds)" by (cases "own v k" rule: elements_of.cases) auto
  from wf_own [OF assms this] have "\<forall>d \<in> set ds. wf_json d" by simp
  then show ?thesis using assms Some by (simp add: norm_simps check_all_decisions_norm)
qed

lemma budget_norm:
  assumes "wf_json v"
  shows "(case own (norm_json v) k of
       Some b \<Rightarrow> and_then (requireClaim (is_object b) c) (\<lambda>_.
         check_all (\<lambda>(k, x). requireClaim (token_text k \<and> isNonnegativeInteger (as_number (Some x))) (p @ k)) (entries_of b))
     | None \<Rightarrow> requireClaim False c) = Inr () \<longleftrightarrow>
    (case own v k of
       Some b \<Rightarrow> and_then (requireClaim (is_object b) c) (\<lambda>_.
         check_all (\<lambda>(k, x). requireClaim (token_text k \<and> isNonnegativeInteger (as_number (Some x))) (p @ k)) (entries_of b))
     | None \<Rightarrow> requireClaim False c) = Inr ()"
proof (cases "own v k")
  case (Some b)
  have "as_number (Some (norm_json x)) = as_number (Some x)" for x using as_number_norm [of "Some x"] by simp
  then show ?thesis using assms Some by (auto simp: case_own_norm check_all_entries_norm simp del: check_all_Inr_iff own_norm)
      (auto simp: norm_simps)
qed (use assms in simp)

text \<open>The checks of a receipt pass on a value exactly when they pass on it with its keys sorted.\<close>

lemma validate_norm:
  assumes "wf_json v"
  shows "validateReceiptClaims rt (norm_json v) = Inr () \<longleftrightarrow> validateReceiptClaims rt v = Inr ()"
proof -
  have keys: "check_all validateKey (entries_of (norm_json v)) = Inr () \<longleftrightarrow> check_all validateKey (entries_of v) = Inr ()"
    by (auto simp: norm_simps)
  have digest: "validateDigest (own (norm_json v) k) c = validateDigest (own v k) c" for k c
    using assms wf_own [OF assms] by (simp add: norm_simps)
  note simps = keys digest decisions_norm [OF assms] budget_norm [OF assms] case_own_norm [OF assms]
    digest_scope_norm [OF assms] assms
  show ?thesis
    unfolding validateReceiptClaims_def all_of_Inr_iff list.set ball_simps
    unfolding simps(1,2,3,4)
    by (simp only: norm_simps simps is_object_norm)
qed

section \<open>What was signed is what is decoded\<close>

lemma decode_part_encode: "bs \<noteq> [] \<Longrightarrow> decode_part (b64_encode bs) = Some bs"
  by (simp add: decode_part_def b64_encode_text b64_roundtrip)

lemma utf8_encode_ne: "s \<noteq> [] \<Longrightarrow> utf8_encode s \<noteq> []"
proof -
  assume "s \<noteq> []"
  then have "code_points s \<noteq> []" by (cases s rule: code_points.cases) auto
  then obtain p ps where "code_points s = p # ps" by (meson list.exhaust)
  moreover have "point_bytes p \<noteq> []" by (simp add: point_bytes_def)
  ultimately show ?thesis by (simp add: utf8_encode_def)
qed

lemma canonical_Inr_iff [simp]: "canonical v = Inr t \<longleftrightarrow> canonicalize v = Inr t"
  by (simp add: canonical_def split: sum.split)

lemma decode_json_canonical:
  assumes "wf_json (Object kvs)" and "safe_numbers (Object kvs)" and "canonicalize (Object kvs) = Inr t"
  shows "decode_json (utf8_encode t) = Inr (norm_json (Object kvs))"
proof -
  have "t \<noteq> []" "hd t = 123" using assms(3) unfolding canonicalize_Object by auto
  then have "utf8_decode (utf8_encode t) = Some t"
    using canonical_well_formed [OF assms(2,3)] by (intro utf8_roundtrip) simp_all
  moreover have "json_parse t = Some (norm_json (Object kvs))"
    using json_parse_reads [OF canonical_reads [OF assms]] .
  ultimately show ?thesis by (simp add: decode_json_def)
qed

lemma split_three:
  assumes "46 \<notin> set a" "46 \<notin> set b" "46 \<notin> set c"
  shows "split_on 46 (a @ 46 # b @ 46 # c) = [a, b, c]"
  using assms by (simp add: split_on_append_sep split_on_single)

definition header_of :: "js_string \<Rightarrow> js_string \<Rightarrow> json" where
  "header_of kid typ = Object [(js ''alg'', String (js ''ES256'')), (js ''kid'', String kid), (js ''typ'', String typ)]"

lemma header_props: "wf_json (header_of kid typ)" "safe_numbers (header_of kid typ)"
  by (simp_all add: header_of_def)

text \<open>What the code relies on of the cryptography: signatures of 64 bytes and digests of 32.\<close>

definition crypto_sizes :: "runtime \<Rightarrow> bool" where
  "crypto_sizes rt \<longleftrightarrow> (\<forall>n k d. length (sign_es256 rt n k d) = 64) \<and> (\<forall>d. length (digest_sha256 rt d) = 32)"

lemma signCompact_cases:
  assumes "signCompact rt nonce claims privateKey kid typ = Inr jws"
  obtains key pub h p where "private_arg rt privateKey = Inr key" "key_kind key = Key_private" "is_p256 key"
    "public_of rt key = Inr pub" "evidenceKeyId rt (Key_object pub) = Inr kid"
    "canonicalize (header_of kid typ) = Inr h" "canonicalize claims = Inr p"
    "jws = (b64_encode (utf8_encode h) @ 46 # b64_encode (utf8_encode p)) @ 46 #
       b64_encode (sign_es256 rt nonce key (ascii_bytes (b64_encode (utf8_encode h) @ 46 # b64_encode (utf8_encode p))))"
  using assms by (auto simp: signCompact_def header_of_def [symmetric] Let_def split: if_splits)

lemma canonical_object_ne: "canonicalize (Object kvs) = Inr t \<Longrightarrow> t \<noteq> []"
  unfolding canonicalize_Object by auto

lemma decode_signed:
  assumes "signCompact rt nonce (Object kvs) privateKey kid typ = Inr jws" and "crypto_sizes rt"
    and "wf_json (Object kvs)" and "safe_numbers (Object kvs)"
  shows "\<exists>key h p. private_arg rt privateKey = Inr key \<and> canonicalize (header_of kid typ) = Inr h \<and>
     canonicalize (Object kvs) = Inr p \<and>
     (let d = b64_encode (utf8_encode h) @ 46 # b64_encode (utf8_encode p) in
      decodeCompact jws = Inr \<lparr>jws_header = norm_json (header_of kid typ), jws_payload = norm_json (Object kvs),
        payloadBytes = utf8_encode p, signature = sign_es256 rt nonce key (ascii_bytes d), signed_data = d\<rparr>)"
  using assms(1)
proof (rule signCompact_cases)
  fix key pub h p
  let ?d = "b64_encode (utf8_encode h) @ 46 # b64_encode (utf8_encode p)"
  let ?s = "sign_es256 rt nonce key (ascii_bytes ?d)"
  assume key: "private_arg rt privateKey = Inr key" and h: "canonicalize (header_of kid typ) = Inr h"
    and p: "canonicalize (Object kvs) = Inr p" and jws: "jws = ?d @ 46 # b64_encode ?s"
  have s: "?s \<noteq> []" using assms(2) by (metis crypto_sizes_def list.size(3) zero_neq_numeral)
  have ne: "utf8_encode h \<noteq> []" "utf8_encode p \<noteq> []"
    using canonical_object_ne p h by (auto simp: header_of_def intro!: utf8_encode_ne)
  have parts: "split_on 46 jws = [b64_encode (utf8_encode h), b64_encode (utf8_encode p), b64_encode ?s]"
    unfolding jws using split_three b64_text_no_dot b64_encode_text s ne by auto
  have "decodeCompact jws = Inr \<lparr>jws_header = norm_json (header_of kid typ), jws_payload = norm_json (Object kvs),
        payloadBytes = utf8_encode p, signature = ?s, signed_data = ?d\<rparr>"
    using decode_json_canonical [OF assms(3,4) p]
      decode_json_canonical [OF header_props [unfolded header_of_def] h [unfolded header_of_def]]
    by (simp add: decodeCompact_def parts decode_part_encode s ne header_of_def [symmetric] del: norm_json.simps)
  with key h p show ?thesis by (auto simp: Let_def)
qed

lemma wf_iso: "well_formed (iso_seconds t)"
  by (rule well_formed_plain) (auto simp: iso_seconds_def padded_def Let_def plain_digit digits_of_digits plain_small split: prod.split)

end
