(* ===== verification/Evidence_Verify.thy ===== *)
theory Evidence_Verify
  imports Evidence_Receipt
begin

text \<open>
  Checking a journal of decision records and its seal (\<open>packages/evidence/src/verify.ts\<close>), sealing a
  run (\<open>seal.ts\<close>) and the bundle handed to a reader (\<open>bundle.ts\<close>). Failures carry their index and
  code, not the message.
\<close>

section \<open>Verification\<close>

datatype verification_code =
    V_empty_chain | V_malformed_jws | V_header_invalid | V_kid_mismatch | V_signature_invalid
  | V_payload_not_canonical | V_claims_invalid | V_chain_broken | V_run_mismatch
  | V_seal_signature_invalid | V_seal_claims_invalid | V_seal_missing_chain_head
  | V_receipt_chain_head_mismatch | V_signed_after_revocation

type_synonym failure = "int \<times> verification_code"

datatype signer_match = Expected_key | Different_key | No_expected_key

record verification_result =
  signerMatch :: "signer_match option"
  ok :: bool
  recordCount :: nat
  headReceiptId :: "js_string option"
  failures :: "failure list"

definition validateSealClaims :: "json \<Rightarrow> (evidence_error, unit) res" where
  "validateSealClaims v = all_of
     [requireClaim (is_object v) (js ''seal''),
      requireClaim (length (keys_of v) = length seal_required_claims \<and>
        list_all (has_own v) seal_required_claims) (js ''seal''),
      requireClaim (str_at v ''schema_version'' = Some (js ''ardur.behavioral_attestation.v0.2'')) (js ''schema_version''),
      requireClaim (str_at v ''type'' = Some (js ''behavioral_attestation'')) (js ''type''),
      requireClaim (str_at v ''aud'' = Some (js ''vibap-attestation-verifier'')) (js ''aud''),
      check_all (\<lambda>claim. requireClaim (isNonemptyString (str_at v claim)) (js claim))
        [''iss'', ''sub'', ''jti'', ''passport_jti''],
      requireClaim (isNonnegativeInteger (num_at v ''iat'')) (js ''iat''),
      requireClaim (isNonnegativeInteger (num_at v ''exp'') \<and>
        int_at v ''exp'' = map_option (\<lambda>t. t + seal_lifetime_seconds) (int_at v ''iat'')) (js ''exp''),
      check_all (\<lambda>claim. requireClaim (isNonnegativeInteger (num_at v claim)) (js claim))
        [''total_events'', ''permits'', ''denials''],
      requireClaim (case (int_at v ''permits'', int_at v ''denials'') of
          (Some p, Some d) \<Rightarrow> int_at v ''total_events'' = Some (p + d) | _ \<Rightarrow> False) (js ''total_events''),
      requireClaim (case own v (js ''receipt_chain_head'') of
          Some head \<Rightarrow> is_object head \<and> length (keys_of head) = 3 \<and>
            str_at head ''hash_algorithm'' = Some (js ''sha-256'') \<and>
            isNonemptyString (str_at head ''receipt_id'') \<and>
            (case str_at head ''receipt_jwt_sha256'' of Some h \<Rightarrow> hash_text h | None \<Rightarrow> False)
        | None \<Rightarrow> False) (js ''receipt_chain_head''),
      and_then (canonical v) (\<lambda>_. Inr ())]"

text \<open>A record inspected on its own: what is decoded, the code it fails with, or a thrown error.\<close>

definition inspect ::
    "runtime \<Rightarrow> js_string \<Rightarrow> key_object \<Rightarrow> js_string \<Rightarrow> (evidence_error, verification_code + decoded) res" where
  "inspect rt jws key typ =
     (case decodeCompact jws of
        Inl _ \<Rightarrow> Inr (Inl V_malformed_jws)
      | Inr dec \<Rightarrow>
          let header = jws_header dec; seal = (typ = js ''JWT'') in
          if \<not> is_object header \<or> str_at header ''alg'' \<noteq> Some (js ''ES256'') \<or>
             str_at header ''typ'' \<noteq> Some typ \<or> str_at header ''kid'' = None \<or> length (keys_of header) \<noteq> 3
          then Inr (Inl V_header_invalid)
          else and_then (canonical header) (\<lambda>t.
            if b64_encode (utf8_encode t) \<noteq> split_on 46 (signed_data dec) ! 0 then Inr (Inl V_header_invalid)
            else case evidenceKeyId rt (Key_object key) of
              Inl _ \<Rightarrow> Inr (Inl (if seal then V_seal_signature_invalid else V_signature_invalid))
            | Inr i \<Rightarrow>
                if str_at header ''kid'' \<noteq> Some i
                then Inr (Inl (if seal then V_seal_signature_invalid else V_kid_mismatch))
                else case verifyCompactSignature rt dec (Key_object key) of
                  Inl _ \<Rightarrow> Inr (Inl (if seal then V_seal_signature_invalid else V_signature_invalid))
                | Inr False \<Rightarrow> Inr (Inl (if seal then V_seal_signature_invalid else V_signature_invalid))
                | Inr True \<Rightarrow>
                    (case canonical (jws_payload dec) of
                       Inl _ \<Rightarrow> Inr (Inl V_payload_not_canonical)
                     | Inr p \<Rightarrow>
                         if utf8_encode p \<noteq> payloadBytes dec then Inr (Inl V_payload_not_canonical)
                         else Inr (Inr dec))))"

definition verificationKey :: "runtime \<Rightarrow> key_arg \<Rightarrow> (evidence_error, key_object) res" where
  "verificationKey rt publicKey =
     and_then (public_arg rt publicKey) (\<lambda>key. and_then (evidenceKeyId rt (Key_object key)) (\<lambda>_. Inr key))"

text \<open>The time of revocation is in milliseconds, \<open>NaN\<close> for an invalid date; \<open>%\<close> truncates.\<close>

definition revocation_second :: "rat \<Rightarrow> rat" where
  "revocation_second ms = (if 0 \<le> ms then of_int (1000 * \<lfloor>ms / 1000\<rfloor>) else of_int (- 1000 * \<lfloor>- ms / 1000\<rfloor>))"

definition signedAtOrAfterRevocation :: "int \<Rightarrow> js_num \<Rightarrow> bool" where
  "signedAtOrAfterRevocation iatSeconds revokedAt =
     (case revokedAt of Num ms \<Rightarrow> revocation_second ms \<le> of_int (iatSeconds * 1000) | _ \<Rightarrow> False)"

definition after_revocation :: "js_num option \<Rightarrow> json \<Rightarrow> bool" where
  "after_revocation revokedAt claims \<longleftrightarrow>
     (case (revokedAt, int_at claims ''iat'') of
        (Some r, Some t) \<Rightarrow> signedAtOrAfterRevocation t r
      | _ \<Rightarrow> False)"

text \<open>\<open>step_id\<close> up to its last colon; without one \<open>slice(0, -1)\<close> drops the last unit.\<close>

definition run_of_step :: "js_string \<Rightarrow> js_string" where
  "run_of_step s = (case lastIndexOf s 58 of Some i \<Rightarrow> take i s | None \<Rightarrow> butlast s)"

definition identity_claims :: "string list" where
  "identity_claims = [''grant_id'', ''trace_id'', ''run_nonce'', ''actor'', ''verifier_id'', ''iss'']"

definition same_run :: "json \<Rightarrow> js_string \<Rightarrow> nat \<Rightarrow> json \<Rightarrow> bool" where
  "same_run first runId index claims \<longleftrightarrow>
     isNonemptyString (Some runId) \<and> str_at claims ''step_id'' = Some (step_text runId index) \<and>
     (\<forall>k \<in> set identity_claims. own claims (js k) = own first (js k))"

text \<open>The parent of record \<open>index\<close> is the record before it.\<close>

definition linked :: "runtime \<Rightarrow> js_string option \<Rightarrow> json \<Rightarrow> bool" where
  "linked rt previous payload \<longleftrightarrow>
     own payload (js ''parent_receipt_hash'') = Some (opt_string (map_option (sha256 rt) previous)) \<and>
     own payload (js ''parent_receipt_id'') = Some (opt_string (map_option (take 16 \<circ> sha256 rt) previous))"

record walk =
  walk_first :: "json option"
  walk_head :: "js_string option"
  walk_failures :: "failure list"

definition check_record ::
    "runtime \<Rightarrow> key_object \<Rightarrow> js_num option \<Rightarrow> nat \<Rightarrow> walk \<Rightarrow> nat \<Rightarrow> js_string option \<Rightarrow> js_string \<Rightarrow> walk" where
  "check_record rt key revokedAt n_records w index previous jws =
     (case inspect rt jws key receipt_typ of
        Inl _ \<Rightarrow> w\<lparr>walk_failures := walk_failures w @ [(int index, V_header_invalid)]\<rparr>
      | Inr (Inl code) \<Rightarrow> w\<lparr>walk_failures := walk_failures w @ [(int index, code)]\<rparr>
      | Inr (Inr dec) \<Rightarrow>
          let claims = jws_payload dec;
              broken = (if is_object claims \<and> \<not> linked rt previous claims then [(int index, V_chain_broken)] else [])
          in if validateReceiptClaims rt claims \<noteq> Inr ()
             then w\<lparr>walk_failures := walk_failures w @ broken @ [(int index, V_claims_invalid)]\<rparr>
             else
               let first = (if index = 0 then Some claims else walk_first w);
                   mismatch = (case first of
                     None \<Rightarrow> []
                   | Some f \<Rightarrow>
                       if same_run f (run_of_step (the (str_at f ''step_id''))) index claims then []
                       else [(int index, V_run_mismatch)]);
                   revoked = (if after_revocation revokedAt claims then [(int index, V_signed_after_revocation)] else [])
               in \<lparr>walk_first = first,
                   walk_head = (if index = n_records - 1 then str_at claims ''receipt_id'' else walk_head w),
                   walk_failures = walk_failures w @ broken @ mismatch @ revoked\<rparr>)"

fun walk_records ::
    "runtime \<Rightarrow> key_object \<Rightarrow> js_num option \<Rightarrow> nat \<Rightarrow> walk \<Rightarrow> nat \<Rightarrow> js_string option \<Rightarrow> js_string list \<Rightarrow> walk" where
  "walk_records rt key revokedAt n_records w index previous [] = w"
| "walk_records rt key revokedAt n_records w index previous (jws # rest) =
     walk_records rt key revokedAt n_records (check_record rt key revokedAt n_records w index previous jws)
       (index + 1) (Some jws) rest"

definition start_walk :: walk where
  "start_walk = \<lparr>walk_first = None, walk_head = None, walk_failures = []\<rparr>"

definition verifyChainContents ::
    "runtime \<Rightarrow> js_string list \<Rightarrow> key_arg \<Rightarrow> js_num option \<Rightarrow> verification_result" where
  "verifyChainContents rt jwsList publicKey revokedAt =
     (let failed = (\<lambda>fs. \<lparr>signerMatch = None, ok = False, recordCount = length jwsList,
                          headReceiptId = None, failures = fs\<rparr>) in
      if jwsList = [] then failed [(- 1, V_empty_chain)]
      else case verificationKey rt publicKey of
        Inl _ \<Rightarrow> failed [(- 1, V_signature_invalid)]
      | Inr key \<Rightarrow>
          let w = walk_records rt key revokedAt (length jwsList) start_walk 0 None jwsList
          in \<lparr>signerMatch = None, ok = (walk_failures w = []), recordCount = length jwsList,
              headReceiptId = walk_head w, failures = walk_failures w\<rparr>)"

definition payload_of :: "js_string \<Rightarrow> json" where
  "payload_of jws = (case decodeCompact jws of Inr dec \<Rightarrow> jws_payload dec | Inl _ \<Rightarrow> Null)"

definition compliant_count :: "json list \<Rightarrow> int" where
  "compliant_count rs = int (length (filter (\<lambda>r. str_at r ''verdict'' = Some (js ''compliant'')) rs))"

definition names_tail :: "runtime \<Rightarrow> json \<Rightarrow> js_string \<Rightarrow> js_string option \<Rightarrow> bool" where
  "names_tail rt seal lastJws headId \<longleftrightarrow>
     (case own seal (js ''receipt_chain_head'') of
        Some head \<Rightarrow> str_at head ''receipt_jwt_sha256'' = Some (sha256 rt lastJws) \<and>
          own head (js ''receipt_id'') = map_option String headId
      | None \<Rightarrow> False)"

definition seal_matches :: "json \<Rightarrow> json list \<Rightarrow> bool" where
  "seal_matches seal receipts \<longleftrightarrow>
     int_at seal ''total_events'' = Some (int (length receipts)) \<and>
     int_at seal ''permits'' = Some (compliant_count receipts) \<and>
     int_at seal ''denials'' = Some (int (length receipts) - compliant_count receipts) \<and>
     (\<forall>r \<in> set receipts. own r (js ''actor'') = own seal (js ''sub'') \<and>
        own r (js ''grant_id'') = own seal (js ''passport_jti'') \<and> own r (js ''iss'') = own seal (js ''iss''))"

definition add_failure :: "verification_result \<Rightarrow> verification_code \<Rightarrow> verification_result" where
  "add_failure r code = r\<lparr>ok := False, failures := failures r @ [(int (recordCount r), code)]\<rparr>"

text \<open>The checks of a seal that decoded and is well-formed.\<close>

definition check_seal ::
    "runtime \<Rightarrow> js_num option \<Rightarrow> js_string list \<Rightarrow> verification_result \<Rightarrow> json \<Rightarrow> verification_result" where
  "check_seal rt revokedAt jwsList result seal =
     (let r1 = (if after_revocation revokedAt seal then add_failure result V_signed_after_revocation else result)
      in if jwsList = [] then add_failure r1 V_receipt_chain_head_mismatch
         else
           let r2 = (if names_tail rt seal (last jwsList) (headReceiptId r1) then r1
                     else add_failure r1 V_receipt_chain_head_mismatch)
           in if failures r2 \<noteq> [] then r2
              else
                let r3 = (if seal_matches seal (map payload_of jwsList) then r2
                          else add_failure r2 V_seal_claims_invalid)
                in r3\<lparr>ok := (failures r3 = [])\<rparr>)"

definition verifySealContents ::
    "runtime \<Rightarrow> js_string \<Rightarrow> js_string list \<Rightarrow> key_arg \<Rightarrow> js_num option \<Rightarrow> verification_result" where
  "verifySealContents rt sealJwt jwsList publicKey revokedAt =
     (let result = verifyChainContents rt jwsList publicKey revokedAt in
      case and_then (verificationKey rt publicKey) (\<lambda>key. inspect rt sealJwt key (js ''JWT'')) of
        Inl _ \<Rightarrow> add_failure result V_seal_signature_invalid
      | Inr (Inl code) \<Rightarrow> add_failure result code
      | Inr (Inr dec) \<Rightarrow>
          let payload = jws_payload dec in
          if \<not> is_object payload \<or> \<not> has_own payload ''receipt_chain_head'' \<or>
             own payload (js ''receipt_chain_head'') = Some Null
          then add_failure result V_seal_missing_chain_head
          else if validateSealClaims payload \<noteq> Inr () then add_failure result V_seal_claims_invalid
          else check_seal rt revokedAt jwsList result payload)"

definition withSignerMatch ::
    "runtime \<Rightarrow> verification_result \<Rightarrow> key_arg \<Rightarrow> js_string option \<Rightarrow> verification_result" where
  "withSignerMatch rt result publicKey expected =
     (if \<not> ok result then result
      else result\<lparr>signerMatch := Some
        (if expected = None \<or> trim (the expected) = [] then No_expected_key
         else if evidenceKeyId rt publicKey = Inr (trim (the expected)) then Expected_key else Different_key)\<rparr>)"

definition verifyChain ::
    "runtime \<Rightarrow> js_string list \<Rightarrow> key_arg \<Rightarrow> js_string option \<Rightarrow> js_num option \<Rightarrow> verification_result" where
  "verifyChain rt jwsList publicKey expected revokedAt =
     withSignerMatch rt (verifyChainContents rt jwsList publicKey revokedAt) publicKey expected"

definition verifySeal ::
    "runtime \<Rightarrow> js_string \<Rightarrow> js_string list \<Rightarrow> key_arg \<Rightarrow> js_string option \<Rightarrow> js_num option \<Rightarrow> verification_result" where
  "verifySeal rt sealJwt jwsList publicKey expected revokedAt =
     withSignerMatch rt (verifySealContents rt sealJwt jwsList publicKey revokedAt) publicKey expected"

section \<open>Sealing and bundling\<close>

record seal_input =
  seal_records :: "js_string list"
  seal_actor :: js_string
  seal_grantId :: js_string
  seal_iss :: js_string
  seal_now :: js_num

definition seal_claims :: "runtime \<Rightarrow> js_string \<Rightarrow> seal_input \<Rightarrow> int \<Rightarrow> json" where
  "seal_claims rt uuid inp iat =
     (let claims = map payload_of (seal_records inp);
          permits = compliant_count claims
      in Object
        [(js ''schema_version'', String (js ''ardur.behavioral_attestation.v0.2'')),
         (js ''type'', String (js ''behavioral_attestation'')),
         (js ''iss'', String (seal_iss inp)),
         (js ''sub'', String (seal_actor inp)),
         (js ''aud'', String (js ''vibap-attestation-verifier'')),
         (js ''iat'', num iat),
         (js ''exp'', num (iat + seal_lifetime_seconds)),
         (js ''jti'', String uuid),
         (js ''passport_jti'', String (seal_grantId inp)),
         (js ''receipt_chain_head'', Object
           [(js ''hash_algorithm'', String (js ''sha-256'')),
            (js ''receipt_id'', opt_string (str_at (last claims) ''receipt_id'')),
            (js ''receipt_jwt_sha256'', String (sha256 rt (last (seal_records inp))))]),
         (js ''total_events'', num (int (length claims))),
         (js ''permits'', num permits),
         (js ''denials'', num (int (length claims) - permits))])"

definition sealRun ::
    "runtime \<Rightarrow> nat \<Rightarrow> js_string \<Rightarrow> seal_input \<Rightarrow> key_arg \<Rightarrow> js_string \<Rightarrow> (evidence_error, js_string) res" where
  "sealRun rt nonce uuid inp privateKey kid =
     (if seal_records inp = [] then Inl (Format_error Empty_chain (js ''records''))
      else
        and_then (private_arg rt privateKey) (\<lambda>key.
        and_then (public_of rt key) (\<lambda>pub.
        and_then (requireClaim (ok (verifyChain rt (seal_records inp) (Key_object pub) None None)) (js ''records'')) (\<lambda>_.
        and_then (requireClaim (\<forall>r \<in> set (map payload_of (seal_records inp)).
            own r (js ''actor'') = Some (String (seal_actor inp)) \<and>
            own r (js ''grant_id'') = Some (String (seal_grantId inp)) \<and>
            own r (js ''iss'') = Some (String (seal_iss inp))) (js ''records'')) (\<lambda>_.
        and_then (epochSeconds (seal_now inp)) (\<lambda>iat.
        and_then (validateSealClaims (seal_claims rt uuid inp iat)) (\<lambda>_.
          signCompact rt nonce (seal_claims rt uuid inp iat) (Key_object key) kid (js ''JWT''))))))))"

record bundle_file =
  path :: js_string
  contents :: js_string

definition evidence_check_command :: js_string where
  "evidence_check_command =
     js ''ardur verify --chain-only --receipt-public-key evidence-public.pem --seal seal.jwt journal.jsonl''"

definition bundle_readme :: "js_string \<Rightarrow> js_string" where
  "bundle_readme runId = join [10]
     [js ''Ardur Evidence bundle'', [],
      js ''Run: '' @ json_quote runId, [],
      js ''This bundle contains signed decision records, a signed end-of-run seal, and the public key needed to check them. The journal is in recorded order; the seal names its final record and decision totals.'', [],
      js ''With the trusted public key, verification detects edits, missing middle records, a removed tail, and records added after the seal. Without the seal, a removed tail cannot be detected. Confirm the public key through a source you trust: replacing the entire bundle and its key is not detectable from the bundle alone.'', [],
      js ''These records are self-signed statements about decisions. They do not independently prove that a tool ran, that its results were true, that the rules were correct, or that every real-world event was recorded. Anyone holding the private key can create a different signed history. Arguments are hashed, not included; the caller is responsible for redacting targets and other metadata.'', [],
      js ''From this folder, run the independent Ardur Evidence checker:'', [],
      evidence_check_command, []]"

definition journal_line :: "js_string \<Rightarrow> js_string" where
  "journal_line jwt = js ''{\"jwt\":'' @ json_quote jwt @ js ''}''"

definition buildEvidenceBundle ::
    "runtime \<Rightarrow> js_string \<Rightarrow> js_string list \<Rightarrow> js_string \<Rightarrow> js_string \<Rightarrow> (evidence_error, bundle_file list) res" where
  "buildEvidenceBundle rt runId records seal publicKeyPem =
     and_then (requireClaim (isNonemptyString (Some runId)) (js ''runId'')) (\<lambda>_.
     and_then (case loadEvidencePublicKey rt publicKeyPem of
         Inl _ \<Rightarrow> Inl (Format_error Invalid_key (js ''publicKeyPem''))
       | Inr key \<Rightarrow> Inr (export_pem rt key)) (\<lambda>publicPem.
     and_then (requireClaim (ok (verifySeal rt seal records (Pem publicPem) None None)) (js ''seal'')) (\<lambda>_.
       Inr [\<lparr>path = js ''journal.jsonl'', contents = join [10] (map journal_line records) @ [10]\<rparr>,
            \<lparr>path = js ''seal.jwt'', contents = seal @ [10]\<rparr>,
            \<lparr>path = js ''evidence-public.pem'', contents = publicPem\<rparr>,
            \<lparr>path = js ''README.md'', contents = bundle_readme runId\<rparr>])))"

section \<open>What a passing check means\<close>

definition record_ok ::
    "runtime \<Rightarrow> key_object \<Rightarrow> js_num option \<Rightarrow> json \<Rightarrow> nat \<Rightarrow> js_string option \<Rightarrow> js_string \<Rightarrow> bool" where
  "record_ok rt key revokedAt first index previous jws \<longleftrightarrow>
     (\<exists>dec. inspect rt jws key receipt_typ = Inr (Inr dec) \<and> linked rt previous (jws_payload dec) \<and>
        validateReceiptClaims rt (jws_payload dec) = Inr () \<and>
        same_run first (run_of_step (the (str_at first ''step_id''))) index (jws_payload dec) \<and>
        \<not> after_revocation revokedAt (jws_payload dec))"

fun chain_ok ::
    "runtime \<Rightarrow> key_object \<Rightarrow> js_num option \<Rightarrow> json \<Rightarrow> nat \<Rightarrow> js_string option \<Rightarrow> js_string list \<Rightarrow> bool" where
  "chain_ok rt key revokedAt first index previous [] = True"
| "chain_ok rt key revokedAt first index previous (jws # rest) =
     (record_ok rt key revokedAt first index previous jws \<and>
      chain_ok rt key revokedAt first (index + 1) (Some jws) rest)"

lemma inspect_decodes: "inspect rt jws key typ = Inr (Inr dec) \<Longrightarrow> decodeCompact jws = Inr dec"
  by (auto simp: inspect_def Let_def split: sum.splits if_splits bool.splits)

lemma inspect_payload: "inspect rt jws key typ = Inr (Inr dec) \<Longrightarrow> payload_of jws = jws_payload dec"
  by (simp add: payload_of_def inspect_decodes)

lemma validate_is_object: "validateReceiptClaims rt v = Inr () \<Longrightarrow> is_object v"
  by (simp add: validateReceiptClaims_def)

lemma check_record_failures:
  assumes "if index = 0 then first = payload_of jws else walk_first w = Some first"
  shows "walk_failures (check_record rt key revokedAt n w index previous jws) = [] \<longleftrightarrow>
     walk_failures w = [] \<and> record_ok rt key revokedAt first index previous jws"
proof (cases "inspect rt jws key receipt_typ")
  case (Inl e)
  then show ?thesis by (simp add: check_record_def record_ok_def)
next
  case (Inr r)
  show ?thesis
  proof (cases r)
    case (Inl c)
    then show ?thesis using Inr by (simp add: check_record_def record_ok_def)
  next
    case (Inr dec)
    then have i: "inspect rt jws key receipt_typ = Inr (Inr dec)" using \<open>inspect rt jws key receipt_typ = Inr r\<close> by simp
    have f: "(if index = 0 then Some (jws_payload dec) else walk_first w) = Some first"
      using assms inspect_payload [OF i] by (simp split: if_splits)
    show ?thesis
      unfolding check_record_def record_ok_def i sum.case Let_def f option.case
      using validate_is_object [of rt "jws_payload dec"] by (auto split: if_splits)
  qed
qed

lemma check_record_first:
  assumes "walk_failures (check_record rt key revokedAt n w index previous jws) = []"
    and "if index = 0 then first = payload_of jws else walk_first w = Some first"
  shows "walk_first (check_record rt key revokedAt n w index previous jws) = Some first"
    and "walk_head (check_record rt key revokedAt n w index previous jws) =
      (if index = n - 1 then str_at (payload_of jws) ''receipt_id'' else walk_head w)"
proof -
  obtain dec where i: "inspect rt jws key receipt_typ = Inr (Inr dec)"
    and v: "validateReceiptClaims rt (jws_payload dec) = Inr ()"
    using assms check_record_failures [OF assms(2)] unfolding record_ok_def by blast
  show "walk_first (check_record rt key revokedAt n w index previous jws) = Some first"
    and "walk_head (check_record rt key revokedAt n w index previous jws) =
      (if index = n - 1 then str_at (payload_of jws) ''receipt_id'' else walk_head w)"
    using assms(2) inspect_payload [OF i] by (simp_all add: check_record_def i v Let_def split: if_splits)
qed

lemma walk_records_failures_mono:
  "walk_failures (walk_records rt key revokedAt n w k previous l) = [] \<Longrightarrow> walk_failures w = []"
proof (induction l arbitrary: w k previous)
  case (Cons jws rest)
  from Cons.IH [OF Cons.prems [unfolded walk_records.simps]]
  show ?case by (auto simp: check_record_def Let_def split: sum.splits if_splits option.splits)
qed simp

lemma walk_records_ok:
  assumes "l \<noteq> [] \<Longrightarrow> if k = 0 then first = payload_of (hd l) else walk_first w = Some first"
  shows "walk_failures (walk_records rt key revokedAt n w k previous l) = [] \<longleftrightarrow>
     walk_failures w = [] \<and> chain_ok rt key revokedAt first k previous l"
  using assms
proof (induction l arbitrary: w k previous)
  case (Cons jws rest)
  let ?w = "check_record rt key revokedAt n w k previous jws"
  have start: "if k = 0 then first = payload_of jws else walk_first w = Some first" using Cons.prems by simp
  note step = check_record_failures [OF start, of rt key revokedAt n previous]
  show ?case
  proof (cases "walk_failures ?w = []")
    case True
    then have "walk_first ?w = Some first" using check_record_first(1) [OF True start] by simp
    then show ?thesis using Cons.IH [of "k + 1" ?w "Some jws"] True step by simp
  next
    case False
    then show ?thesis using step walk_records_failures_mono [of rt key revokedAt n ?w "k + 1" "Some jws" rest] by auto
  qed
qed simp

lemma walk_records_head:
  assumes "walk_failures (walk_records rt key revokedAt n w k previous l) = []"
    and "l \<noteq> []" and "k + length l = n"
    and "if k = 0 then first = payload_of (hd l) else walk_first w = Some first"
  shows "walk_head (walk_records rt key revokedAt n w k previous l) = str_at (payload_of (last l)) ''receipt_id''"
  using assms
proof (induction l arbitrary: w k previous)
  case (Cons jws rest)
  let ?w = "check_record rt key revokedAt n w k previous jws"
  have ok: "walk_failures ?w = []" using walk_records_failures_mono Cons.prems(1) by simp
  have start: "if k = 0 then first = payload_of jws else walk_first w = Some first" using Cons.prems(4) by simp
  show ?case
  proof (cases rest)
    case Nil
    then show ?thesis using check_record_first(2) [OF ok start] Cons.prems(3) by auto
  next
    case (Cons a b)
    then show ?thesis
      using Cons.IH [of ?w "k + 1" "Some jws"] Cons.prems check_record_first(1) [OF ok start] by simp
  qed
qed simp

lemma verifyChainContents_ok:
  "ok (verifyChainContents rt l pk revokedAt) \<longleftrightarrow> l \<noteq> [] \<and>
     (\<exists>key. verificationKey rt pk = Inr key \<and> chain_ok rt key revokedAt (payload_of (hd l)) 0 None l)"
proof (cases "verificationKey rt pk")
  case (Inr key)
  have "walk_failures (walk_records rt key revokedAt n start_walk 0 None l) = [] \<longleftrightarrow>
      chain_ok rt key revokedAt (payload_of (hd l)) 0 None l" for n
    using walk_records_ok [of l 0 "payload_of (hd l)" start_walk] by (simp add: start_walk_def)
  then show ?thesis using Inr by (simp add: verifyChainContents_def Let_def)
qed (simp add: verifyChainContents_def Let_def)

lemma verifyChainContents_head:
  assumes "ok (verifyChainContents rt l pk revokedAt)"
  shows "headReceiptId (verifyChainContents rt l pk revokedAt) = str_at (payload_of (last l)) ''receipt_id''"
    and "failures (verifyChainContents rt l pk revokedAt) = []"
    and "recordCount (verifyChainContents rt l pk revokedAt) = length l"
    and "signerMatch (verifyChainContents rt l pk revokedAt) = None"
proof -
  obtain key where key: "l \<noteq> []" "verificationKey rt pk = Inr key"
    using assms unfolding verifyChainContents_ok by blast
  let ?w = "walk_records rt key revokedAt (length l) start_walk 0 None l"
  have ok: "walk_failures ?w = []" using assms key by (simp add: verifyChainContents_def Let_def)
  then show "headReceiptId (verifyChainContents rt l pk revokedAt) = str_at (payload_of (last l)) ''receipt_id''"
    using walk_records_head [of rt key revokedAt "length l" start_walk 0 None l "payload_of (hd l)"] key
    by (simp add: verifyChainContents_def Let_def)
  show "failures (verifyChainContents rt l pk revokedAt) = []"
    and "recordCount (verifyChainContents rt l pk revokedAt) = length l"
    and "signerMatch (verifyChainContents rt l pk revokedAt) = None"
    using ok key by (simp_all add: verifyChainContents_def Let_def)
qed

lemma ok_withSignerMatch [simp]: "ok (withSignerMatch rt r pk e) = ok r"
  by (simp add: withSignerMatch_def)

lemma chain_ok_nth:
  "chain_ok rt key revokedAt first k previous l \<Longrightarrow> i < length l \<Longrightarrow>
   record_ok rt key revokedAt first (k + i) (if i = 0 then previous else Some (l ! (i - 1))) (l ! i)"
proof (induction l arbitrary: k previous i)
  case (Cons jws rest)
  then show ?case
  proof (cases i)
    case (Suc j)
    then have "record_ok rt key revokedAt first (k + 1 + j) (if j = 0 then Some jws else Some (rest ! (j - 1))) (rest ! j)"
      using Cons.IH [of "k + 1" "Some jws" j] Cons.prems by simp
    then show ?thesis using Suc by (cases j) simp_all
  qed simp
qed simp

lemma chain_failures_ok: "failures (verifyChainContents rt l pk revokedAt) = [] \<longleftrightarrow> ok (verifyChainContents rt l pk revokedAt)"
  by (simp add: verifyChainContents_def Let_def split: sum.split)

lemma seal_has_head:
  "validateSealClaims v = Inr () \<Longrightarrow>
   is_object v \<and> has_own v ''receipt_chain_head'' \<and> own v (js ''receipt_chain_head'') \<noteq> Some Null"
  by (auto simp: validateSealClaims_def has_own_def split: option.splits)

lemma check_seal_ok:
  assumes "failures result = [] \<longleftrightarrow> ok result"
  shows "ok (check_seal rt revokedAt l result seal) \<longleftrightarrow>
     ok result \<and> \<not> after_revocation revokedAt seal \<and> l \<noteq> [] \<and>
     names_tail rt seal (last l) (headReceiptId result) \<and> seal_matches seal (map payload_of l)"
  using assms by (auto simp: check_seal_def Let_def add_failure_def)

lemma verifySealContents_ok:
  "ok (verifySealContents rt sealJwt l pk revokedAt) \<longleftrightarrow>
     ok (verifyChainContents rt l pk revokedAt) \<and>
     (\<exists>key dec. verificationKey rt pk = Inr key \<and> inspect rt sealJwt key (js ''JWT'') = Inr (Inr dec) \<and>
        validateSealClaims (jws_payload dec) = Inr () \<and> \<not> after_revocation revokedAt (jws_payload dec) \<and>
        names_tail rt (jws_payload dec) (last l) (str_at (payload_of (last l)) ''receipt_id'') \<and>
        seal_matches (jws_payload dec) (map payload_of l))"
proof -
  let ?r = "verifyChainContents rt l pk revokedAt"
  have bad: "\<not> ok (add_failure r c)" for r c by (simp add: add_failure_def)
  show ?thesis
  proof (cases "and_then (verificationKey rt pk) (\<lambda>key. inspect rt sealJwt key (js ''JWT''))")
    case (Inl e)
    then have "\<nexists>key dec. verificationKey rt pk = Inr key \<and> inspect rt sealJwt key (js ''JWT'') = Inr (Inr dec)"
      by auto
    then show ?thesis using Inl bad by (auto simp: verifySealContents_def Let_def)
  next
    case (Inr x)
    then obtain key where key: "verificationKey rt pk = Inr key" "inspect rt sealJwt key (js ''JWT'') = Inr x" by auto
    show ?thesis
    proof (cases x)
      case (Inl c)
      then show ?thesis using Inr key bad by (simp add: verifySealContents_def Let_def)
    next
      case (Inr dec)
      let ?p = "jws_payload dec"
      have "ok (verifySealContents rt sealJwt l pk revokedAt) \<longleftrightarrow>
          validateSealClaims ?p = Inr () \<and> ok (check_seal rt revokedAt l ?r ?p)"
        using Inr key bad seal_has_head [of ?p] by (auto simp: verifySealContents_def Let_def)
      also have "\<dots> \<longleftrightarrow> validateSealClaims ?p = Inr () \<and> ok ?r \<and> \<not> after_revocation revokedAt ?p \<and> l \<noteq> [] \<and>
          names_tail rt ?p (last l) (headReceiptId ?r) \<and> seal_matches ?p (map payload_of l)"
        by (simp add: check_seal_ok [OF chain_failures_ok])
      finally show ?thesis
        using key Inr verifyChainContents_head(1) [of rt l pk revokedAt] verifyChainContents_ok [of rt l pk revokedAt]
        by auto
    qed
  qed
qed

text \<open>Linked records with equal parents have equal predecessors, where the digests do not collide.\<close>

lemma linked_parent:
  assumes "linked rt (Some a) p" and "linked rt (Some b) p"
  shows "sha256 rt a = sha256 rt b"
  using assms by (simp add: linked_def opt_string_def)

lemma chain_ok_linked:
  assumes "chain_ok rt key revokedAt first 0 None l" and "i < length l"
  shows "linked rt (if i = 0 then None else Some (l ! (i - 1))) (payload_of (l ! i))"
  using chain_ok_nth [OF assms] inspect_payload by (auto simp: record_ok_def)

text \<open>
  C8. A seal fixes the whole journal: two journals that verify under the same seal are equal, record
  by record and in order, unless two of their records collide under SHA-256. So under a seal no
  record can be edited, dropped from the middle or the end, added or reordered.
\<close>

theorem seal_fixes_journal:
  assumes "ok (verifySeal rt sealJwt l1 pk1 e1 r1)" and "ok (verifySeal rt sealJwt l2 pk2 e2 r2)"
    and inj: "\<forall>x \<in> set l1. \<forall>y \<in> set l2. sha256 rt x = sha256 rt y \<longrightarrow> x = y"
  shows "l1 = l2"
proof -
  obtain k1 k2 d1 d2 where
    c1: "l1 \<noteq> []" "chain_ok rt k1 r1 (payload_of (hd l1)) 0 None l1" and
    c2: "l2 \<noteq> []" "chain_ok rt k2 r2 (payload_of (hd l2)) 0 None l2" and
    d: "decodeCompact sealJwt = Inr d1" "decodeCompact sealJwt = Inr d2" and
    t1: "names_tail rt (jws_payload d1) (last l1) (str_at (payload_of (last l1)) ''receipt_id'')" and
    t2: "names_tail rt (jws_payload d2) (last l2) (str_at (payload_of (last l2)) ''receipt_id'')" and
    m: "seal_matches (jws_payload d1) (map payload_of l1)" "seal_matches (jws_payload d2) (map payload_of l2)"
    using assms(1,2) unfolding verifySeal_def ok_withSignerMatch verifySealContents_ok verifyChainContents_ok
    by (metis inspect_decodes)
  have len: "length l1 = length l2" using m d by (simp add: seal_matches_def)
  have "sha256 rt (last l1) = sha256 rt (last l2)"
    using t1 t2 d by (auto simp: names_tail_def split: option.splits)
  then have last: "last l1 = last l2" using inj c1(1) c2(1) by (meson last_in_set)
  have tail_eq: "l1 ! (length l1 - 1 - j) = l2 ! (length l1 - 1 - j)" if "j < length l1" for j
    using that
  proof (induction j)
    case 0
    then show ?case using last c1(1) c2(1) len by (simp add: last_conv_nth)
  next
    case (Suc j)
    let ?i = "length l1 - 1 - j"
    have i: "0 < ?i" "?i < length l1" "?i - 1 = length l1 - 1 - Suc j" using Suc.prems by auto
    have eq: "l1 ! ?i = l2 ! ?i" using Suc by simp
    have "linked rt (Some (l1 ! (?i - 1))) (payload_of (l1 ! ?i))"
      using chain_ok_linked [OF c1(2) i(2)] i(1) by simp
    moreover have "linked rt (Some (l2 ! (?i - 1))) (payload_of (l1 ! ?i))"
      using chain_ok_linked [OF c2(2), of ?i] i(1,2) len eq by simp
    ultimately have "sha256 rt (l1 ! (?i - 1)) = sha256 rt (l2 ! (?i - 1))" by (rule linked_parent)
    moreover have "l1 ! (?i - 1) \<in> set l1" "l2 ! (?i - 1) \<in> set l2" using i len by (auto intro!: nth_mem)
    ultimately have "l1 ! (?i - 1) = l2 ! (?i - 1)" using inj by blast
    then show ?case unfolding i(3) .
  qed
  show ?thesis
  proof (rule nth_equalityI [OF len])
    fix i assume "i < length l1"
    then show "l1 ! i = l2 ! i" using tail_eq [of "length l1 - 1 - i"] by simp
  qed
qed

lemma chain_ok_valid:
  assumes "chain_ok rt key revokedAt first k previous l" and "jws \<in> set l"
  shows "validateReceiptClaims rt (payload_of jws) = Inr () \<and> \<not> after_revocation revokedAt (payload_of jws)"
proof -
  obtain i where "i < length l" "jws = l ! i" using assms(2) by (metis in_set_conv_nth)
  with chain_ok_nth [OF assms(1) this(1)] inspect_payload show ?thesis by (auto simp: record_ok_def)
qed


section \<open>What a bundle holds\<close>

text \<open>A reader splits the journal into lines and parses each one.\<close>

definition read_journal :: "js_string \<Rightarrow> js_string option list" where
  "read_journal txt = map (\<lambda>line. case json_parse line of Some v \<Rightarrow> str_at v ''jwt'' | None \<Rightarrow> None)
     (butlast (split_on 10 txt))"

lemma quote_body_no_newline: "10 \<notin> set (quote_body s)"
proof -
  have hex: "10 \<notin> set (hex4 c)" for c
  proof -
    have "hex_val u = None" if "u = 10" for u :: unit16 using that by (simp add: hex_val_def)
    moreover have "unat c div 4096 < 16"
      using unsigned_less [of c, where 'a = nat] by (simp add: div_less_iff_less_mult)
    ultimately show ?thesis using hex_val_hex_digit by (auto simp: hex4_def Let_def) (metis mod_less_divisor option.distinct(1) zero_less_numeral)+
  qed
  then have "10 \<notin> set (escape_unit c)" for c by (simp add: escape_unit_def)
  then show ?thesis using hex
    by (induction s rule: quote_body.induct) (auto simp: high_surrogate_def low_surrogate_def)
qed

lemma journal_line_reads: "json_parse (journal_line jwt) = Some (Object [(js ''jwt'', String jwt)])"
proof -
  have q: "json_quote (js ''jwt'') = js ''\"jwt\"''" by code_simp
  have "reads_entry (json_quote (js ''jwt'') @ 58 # json_quote jwt) (js ''jwt'', String jwt)"
    unfolding reads_entry_def using reads_string by auto
  then have "reads (123 # join [44] [json_quote (js ''jwt'') @ 58 # json_quote jwt] @ [125]) (Object [(js ''jwt'', String jwt)])"
    by (intro reads_object) simp_all
  moreover have "123 # join [44] [json_quote (js ''jwt'') @ 58 # json_quote jwt] @ [125] = journal_line jwt"
    unfolding q by (simp add: journal_line_def js_def)
  ultimately show ?thesis using json_parse_reads by metis
qed

lemma journal_line_no_newline: "10 \<notin> set (journal_line jwt)"
  using quote_body_no_newline [of jwt] by (simp add: journal_line_def json_quote_def js_def)

text \<open>
  A bundle is only built around a journal and seal that verify under the key it carries, and its
  journal file gives back exactly the records, in order, to a reader that takes it line by line.
\<close>

theorem bundle_journal_reads_back:
  assumes "buildEvidenceBundle rt runId records seal publicKeyPem = Inr files"
  shows "ok (verifySeal rt seal records (Pem (contents (files ! 2))) None None) \<and>
     read_journal (contents (files ! 0)) = map Some records \<and> contents (files ! 1) = seal @ [10]"
proof -
  from assms obtain pem where files: "files = [\<lparr>path = js ''journal.jsonl'', contents = join [10] (map journal_line records) @ [10]\<rparr>,
            \<lparr>path = js ''seal.jwt'', contents = seal @ [10]\<rparr>, \<lparr>path = js ''evidence-public.pem'', contents = pem\<rparr>,
            \<lparr>path = js ''README.md'', contents = bundle_readme runId\<rparr>]"
    and ok: "ok (verifySeal rt seal records (Pem pem) None None)"
    by (auto simp: buildEvidenceBundle_def)
  have ne: "records \<noteq> []" using ok by (auto simp: verifySeal_def verifySealContents_ok verifyChainContents_ok)
  have "split_on 10 (join [10] ws @ [10]) = ws @ [[]]" if "ws \<noteq> []" "\<forall>w \<in> set ws. 10 \<notin> set w" for ws :: "js_string list"
    using that
  proof (induction "[10] :: js_string" ws rule: join.induct)
    case (3 w v ws)
    then show ?case by (simp add: split_on_append_sep)
  qed (simp_all add: split_on_append_sep [where s = "[]", simplified])
  then have "split_on 10 (join [10] (map journal_line records) @ [10]) = map journal_line records @ [[]]"
    using ne journal_line_no_newline by simp
  then show ?thesis using ok
    by (simp add: files read_journal_def journal_line_reads str_at_def comp_def)
qed

end
