(* ===== verification/Evidence_Chain.thy ===== *)
theory Evidence_Chain
  imports Evidence_Verify
begin

text \<open>
  How writing and checking a journal fit together: what is signed passes inspection, a chain built
  by appending verifies, a sealed run verifies, and a chain can be resumed where it stopped. At the
  end a sample run with one record, on which the theorems of the evidence format are instantiated.
\<close>

section \<open>What is signed passes inspection\<close>

text \<open>The cryptography does its part: sizes, and a signature verifies under the key's public half.\<close>

definition crypto_works :: "runtime \<Rightarrow> bool" where
  "crypto_works rt \<longleftrightarrow> crypto_sizes rt \<and>
     (\<forall>n key pub d. publicKeyOf rt key = Some pub \<longrightarrow> verify_es256 rt pub d (sign_es256 rt n key d))"

lemma norm_header [simp]: "norm_json (header_of kid typ) = header_of kid typ"
proof -
  have "js ''alg'' < js ''kid''" "js ''kid'' < js ''typ''" "js ''alg'' < js ''typ''" by code_simp+
  then show ?thesis by (simp add: header_of_def less_imp_le)
qed

lemma header_str_at [simp]:
  "str_at (header_of kid typ) ''alg'' = Some (js ''ES256'')"
  "str_at (header_of kid typ) ''kid'' = Some kid"
  "str_at (header_of kid typ) ''typ'' = Some typ"
  "is_object (header_of kid typ)" "length (keys_of (header_of kid typ)) = 3"
  by (simp_all add: header_of_def str_at_def)

lemma inspect_signed:
  assumes "signCompact rt nonce (Object kvs) (Key_object key) kid typ = Inr jws" and "crypto_works rt"
    and "wf_json (Object kvs)" and "safe_numbers (Object kvs)" and "public_of rt key = Inr pub"
  shows "\<exists>dec. inspect rt jws pub typ = Inr (Inr dec) \<and> jws_payload dec = norm_json (Object kvs)"
proof -
  have sizes: "crypto_sizes rt" using assms(2) by (simp add: crypto_works_def)
  from decode_signed [OF assms(1) sizes assms(3,4)] obtain h p
    where h: "canonicalize (header_of kid typ) = Inr h" and p: "canonicalize (Object kvs) = Inr p"
      and dec: "decodeCompact jws = Inr \<lparr>jws_header = header_of kid typ, jws_payload = norm_json (Object kvs),
        payloadBytes = utf8_encode p,
        signature = sign_es256 rt nonce key (ascii_bytes (b64_encode (utf8_encode h) @ 46 # b64_encode (utf8_encode p))),
        signed_data = b64_encode (utf8_encode h) @ 46 # b64_encode (utf8_encode p)\<rparr>"
    by (auto simp: Let_def private_arg_def)
  from assms(1) have kid: "evidenceKeyId rt (Key_object pub) = Inr kid"
    by (rule signCompact_cases) (use assms(5) in \<open>auto simp: private_arg_def\<close>)
  have ne: "utf8_encode h \<noteq> []"
    using h canonical_object_ne by (auto simp: header_of_def intro!: utf8_encode_ne)
  have split: "split_on 46 (b64_encode (utf8_encode h) @ 46 # b64_encode (utf8_encode p)) ! 0 = b64_encode (utf8_encode h)"
    using b64_text_no_dot [OF b64_encode_text [OF ne]] by (simp add: split_on_append_sep)
  have sig: "verifyCompactSignature rt dec (Key_object pub) = Inr True"
    if "signature dec = sign_es256 rt nonce key (ascii_bytes (signed_data dec))" for dec
    using that assms(2,5) kid
    by (auto simp: verifyCompactSignature_def public_arg_def crypto_works_def crypto_sizes_def public_of_def split: option.splits)
  have canon: "canonical (header_of kid typ) = Inr h" "canonical (norm_json (Object kvs)) = Inr p"
    using h p by (simp_all only: canonical_Inr_iff canonicalize_norm)
  show ?thesis
    by (simp add: inspect_def dec kid split sig canon del: norm_json.simps)
qed

section \<open>A chain built by appending verifies\<close>

text \<open>Appends in order, each with its own signature nonce and receipt id.\<close>

fun append_all :: "runtime \<Rightarrow> evidence_chain \<Rightarrow> (nat \<times> js_string \<times> receipt_input) list \<Rightarrow>
    (evidence_error, chain_record list \<times> evidence_chain) res" where
  "append_all rt ch [] = Inr ([], ch)"
| "append_all rt ch ((nonce, uuid, inp) # rest) =
     and_then (append_receipt rt nonce uuid ch inp) (\<lambda>(r, ch1).
       and_then (append_all rt ch1 rest) (\<lambda>(rs, ch2). Inr (r # rs, ch2)))"

text \<open>What the caller hands in is plain data with safe integers.\<close>

definition plain_input :: "receipt_input \<Rightarrow> bool" where
  "plain_input inp \<longleftrightarrow> wf_json (in_policyDecisions inp) \<and> safe_numbers (in_policyDecisions inp) \<and>
     wf_json (in_budgetRemaining inp) \<and> safe_numbers (in_budgetRemaining inp) \<and>
     (\<forall>kv \<in> set (in_optional inp). wf_json (snd kv) \<and> safe_numbers (snd kv))"

lemma optional_keys:
  "distinct (map fst (optional_entries inp)) \<and> fst ` set (optional_entries inp) \<subseteq> js ` set receipt_optional_claims"
proof -
  have "distinct (map fst (concat (map (\<lambda>k. case f (js k) of Some x \<Rightarrow> [(js k, x)] | None \<Rightarrow> []) ks))) \<and>
      fst ` set (concat (map (\<lambda>k. case f (js k) of Some x \<Rightarrow> [(js k, x)] | None \<Rightarrow> []) ks)) \<subseteq> js ` set ks"
    if "distinct ks" for f :: "js_string \<Rightarrow> json option" and ks
    using that
  proof (induction ks)
    case (Cons k ks)
    then show ?case by (cases "f (js k)") (auto simp: image_iff subset_iff)
  qed simp
  moreover have "distinct receipt_optional_claims" by code_simp
  ultimately show ?thesis unfolding optional_entries_def by blast
qed

lemma optional_values: "kv \<in> set (optional_entries inp) \<Longrightarrow> kv \<in> set (in_optional inp)"
  by (auto simp: optional_entries_def split: option.splits dest: map_of_SomeD [OF sym])

text \<open>The seven claims every receipt of a run shares, the step among them.\<close>

definition verifier_of :: "('a) run_identity_scheme \<Rightarrow> js_string" where
  "verifier_of inp = (case id_verifierId inp of
     Some i \<Rightarrow> i | None \<Rightarrow> js ''ardur:'' @ id_spaceId inp @ js '':evidence'')"

definition actor_of :: "('a) run_identity_scheme \<Rightarrow> js_string" where
  "actor_of inp = (case id_actor inp of Some a \<Rightarrow> a | None \<Rightarrow> (case id_botId inp of Some b \<Rightarrow> b | None \<Rightarrow> []))"

lemma receiptIdentity_cases:
  "receiptIdentity inp step = Inr identity \<longleftrightarrow>
     trim (id_runId inp) \<noteq> [] \<and> trim (id_spaceId inp) \<noteq> [] \<and> identity =
       [(js ''grant_id'', String (id_grantId inp)), (js ''trace_id'', String (id_traceId inp)),
        (js ''run_nonce'', String (id_runNonce inp)), (js ''actor'', String (actor_of inp)),
        (js ''verifier_id'', String (verifier_of inp)), (js ''iss'', String (verifier_of inp)),
        (js ''step_id'', String (step_text (id_runId inp) step))]"
  by (auto simp: receiptIdentity_def isNonemptyString_def verifier_of_def actor_of_def Let_def)

lemma epochSeconds_bounds: "epochSeconds now = Inr t \<Longrightarrow> 0 \<le> t \<and> t \<le> max_epoch_seconds"
  by (auto simp: epochSeconds_def Let_def split: js_num.splits if_splits)

lemma safe_num: "\<bar>i\<bar> \<le> max_safe_integer \<Longrightarrow> safe_numbers (num i)"
  by (simp add: num_def flip: of_int_abs)

lemma optional_not_required: "js k \<notin> fst ` set (optional_entries inp)" if "k \<notin> set receipt_optional_claims"
  using optional_keys [of inp] that by auto

lemma built_claims:
  assumes "buildReceiptClaims rt uuid inp step previous = Inr claims" and "plain_input inp"
  shows "wf_json claims" and "safe_numbers claims" and "validateReceiptClaims rt claims = Inr ()"
    and "\<exists>kvs. claims = Object kvs"
    and "own claims (js ''parent_receipt_hash'') = Some (opt_string (map_option (sha256 rt) previous))"
    and "own claims (js ''parent_receipt_id'') = Some (opt_string (map_option (take 16 \<circ> sha256 rt) previous))"
    and "own claims (js ''step_id'') = Some (String (step_text (id_runId inp) step))"
    and "own claims (js ''receipt_id'') = Some (String uuid)"
    and "own claims (js ''grant_id'') = Some (String (id_grantId inp))"
    and "own claims (js ''trace_id'') = Some (String (id_traceId inp))"
    and "own claims (js ''run_nonce'') = Some (String (id_runNonce inp))"
    and "own claims (js ''actor'') = Some (String (actor_of inp))"
    and "own claims (js ''verifier_id'') = Some (String (verifier_of inp))"
    and "own claims (js ''iss'') = Some (String (verifier_of inp))"
    and "trim (id_runId inp) \<noteq> []"
proof -
  from assms(1) obtain identity iat args_text invocation
    where idn: "receiptIdentity inp step = Inr identity" and iat: "epochSeconds (in_now inp) = Inr iat"
      and claims: "claims = Object (identity @ receipt_entries rt uuid inp iat (map_option (sha256 rt) previous)
          args_text invocation @ optional_entries inp)"
      and valid: "validateReceiptClaims rt claims = Inr ()"
    by (auto simp: buildReceiptClaims_def Let_def)
  show "validateReceiptClaims rt claims = Inr ()" by (rule valid)
  show "\<exists>kvs. claims = Object kvs" using claims by blast
  note identity = idn [unfolded receiptIdentity_cases]
  show "trim (id_runId inp) \<noteq> []" using identity by simp
  have opt: "\<forall>kv \<in> set (optional_entries inp). wf_json (snd kv) \<and> safe_numbers (snd kv)"
    using assms(2) optional_values by (auto simp: plain_input_def)
  have dis: "\<forall>k \<in> set receipt_required_claims. js k \<notin> fst ` set (optional_entries inp)"
    using optional_not_required by (auto simp: receipt_required_claims_def receipt_optional_claims_def)
  have "distinct (map fst (identity @ receipt_entries rt uuid inp iat (map_option (sha256 rt) previous) args_text invocation @ optional_entries inp))"
    using dis optional_keys [of inp] identity by (simp add: receipt_entries_def receipt_required_claims_def)
  moreover have "\<forall>kv \<in> set (receipt_entries rt uuid inp iat h args_text invocation). wf_json (snd kv)" for h
    using assms(2) by (simp add: receipt_entries_def plain_input_def opt_string_def num_def split: option.split)
  ultimately show "wf_json claims" using opt identity by (auto simp: claims)
  have "\<bar>iat\<bar> \<le> max_safe_integer" "\<bar>iat + 3600\<bar> \<le> max_safe_integer"
    using epochSeconds_bounds [OF iat] by (simp_all add: max_epoch_seconds_def max_safe_integer_def)
  then have "\<forall>kv \<in> set (receipt_entries rt uuid inp iat h args_text invocation). safe_numbers (snd kv)" for h
    using assms(2) safe_num by (simp add: receipt_entries_def plain_input_def opt_string_def split: option.split)
  then show "safe_numbers claims" using opt identity by (auto simp: claims)
  note own_simps = claims identity receipt_entries_def option.map_comp
  show "own claims (js ''parent_receipt_hash'') = Some (opt_string (map_option (sha256 rt) previous))"
    "own claims (js ''parent_receipt_id'') = Some (opt_string (map_option (take 16 \<circ> sha256 rt) previous))"
    "own claims (js ''step_id'') = Some (String (step_text (id_runId inp) step))"
    "own claims (js ''receipt_id'') = Some (String uuid)"
    "own claims (js ''grant_id'') = Some (String (id_grantId inp))"
    "own claims (js ''trace_id'') = Some (String (id_traceId inp))"
    "own claims (js ''run_nonce'') = Some (String (id_runNonce inp))"
    "own claims (js ''actor'') = Some (String (actor_of inp))"
    "own claims (js ''verifier_id'') = Some (String (verifier_of inp))"
    "own claims (js ''iss'') = Some (String (verifier_of inp))"
    by (simp_all add: own_simps)
qed

lemma run_of_step_text [simp]: "run_of_step (step_text r n) = r"
proof -
  have "58 \<notin> set (digits_of n)" using digits_of_digits digit_neqs(12) by blast
  then show ?thesis by (simp add: run_of_step_def step_text_def lastIndexOf_append_sep)
qed

text \<open>The receipt claims of a run's step are checked against any other step of the same run.\<close>

definition claims_of_run :: "('a) run_identity_scheme \<Rightarrow> nat \<Rightarrow> json \<Rightarrow> bool" where
  "claims_of_run idn step v \<longleftrightarrow>
     own v (js ''step_id'') = Some (String (step_text (id_runId idn) step)) \<and>
     own v (js ''grant_id'') = Some (String (id_grantId idn)) \<and>
     own v (js ''trace_id'') = Some (String (id_traceId idn)) \<and>
     own v (js ''run_nonce'') = Some (String (id_runNonce idn)) \<and>
     own v (js ''actor'') = Some (String (actor_of idn)) \<and>
     own v (js ''verifier_id'') = Some (String (verifier_of idn)) \<and>
     own v (js ''iss'') = Some (String (verifier_of idn)) \<and> trim (id_runId idn) \<noteq> []"

lemma claims_of_run_same:
  assumes "claims_of_run idn 0 first" and "claims_of_run idn step v"
  shows "same_run first (run_of_step (the (str_at first ''step_id''))) step v"
  using assms by (simp add: claims_of_run_def same_run_def str_at_def isNonemptyString_def identity_claims_def)

lemma appended_record:
  assumes "append_receipt rt nonce uuid ch inp = Inr (r, ch1)" and "plain_input inp" and "crypto_works rt"
    and "public_of rt (chain_key ch) = Inr pub"
  shows "\<exists>dec. inspect rt (rec_jws r) pub receipt_typ = Inr (Inr dec) \<and> linked rt (previousJws ch) (jws_payload dec) \<and>
      validateReceiptClaims rt (jws_payload dec) = Inr () \<and>
      claims_of_run (run_identity.truncate inp) (nextStep ch) (jws_payload dec) \<and>
      str_at (jws_payload dec) ''receipt_id'' = Some uuid"
    and "ch1 = ch\<lparr>previousJws := Some (rec_jws r), nextStep := nextStep ch + 1\<rparr>"
proof -
  from assms(1) obtain claims where b: "buildReceiptClaims rt uuid inp (nextStep ch) (previousJws ch) = Inr claims"
    and s: "signReceipt rt nonce claims (Key_object (chain_key ch)) (chain_kid ch) = Inr (rec_jws r)"
    and c: "ch1 = ch\<lparr>previousJws := Some (rec_jws r), nextStep := nextStep ch + 1\<rparr>"
    by (auto simp: append_receipt_def)
  show "ch1 = ch\<lparr>previousJws := Some (rec_jws r), nextStep := nextStep ch + 1\<rparr>" by (rule c)
  note built = built_claims [OF b assms(2)]
  obtain kvs where kvs: "claims = Object kvs" using built(4) by blast
  have "signCompact rt nonce (Object kvs) (Key_object (chain_key ch)) (chain_kid ch) receipt_typ = Inr (rec_jws r)"
    using s by (simp add: signReceipt_def kvs)
  from inspect_signed [OF this assms(3) built(1,2) [unfolded kvs] assms(4)] obtain dec
    where dec: "inspect rt (rec_jws r) pub receipt_typ = Inr (Inr dec)" "jws_payload dec = norm_json claims"
    using kvs by blast
  have own: "own claims k = Some (String x) \<Longrightarrow> own (norm_json claims) k = Some (String x)" for k x
    using built(1) by simp
  have opt: "own claims k = Some (opt_string x) \<Longrightarrow> own (norm_json claims) k = Some (opt_string x)" for k x
    using built(1) by (simp add: opt_string_def split: option.splits)
  have same: "actor_of (run_identity.truncate inp) = actor_of inp" "verifier_of (run_identity.truncate inp) = verifier_of inp"
    by (simp_all add: actor_of_def verifier_of_def run_identity.truncate_def split: option.split)
  show "\<exists>dec. inspect rt (rec_jws r) pub receipt_typ = Inr (Inr dec) \<and> linked rt (previousJws ch) (jws_payload dec) \<and>
      validateReceiptClaims rt (jws_payload dec) = Inr () \<and>
      claims_of_run (run_identity.truncate inp) (nextStep ch) (jws_payload dec) \<and>
      str_at (jws_payload dec) ''receipt_id'' = Some uuid"
  proof (intro exI conjI)
    show "inspect rt (rec_jws r) pub receipt_typ = Inr (Inr dec)" by (rule dec(1))
    show "linked rt (previousJws ch) (jws_payload dec)"
      unfolding linked_def dec(2) using opt [OF built(5)] opt [OF built(6)] by blast
    show "validateReceiptClaims rt (jws_payload dec) = Inr ()" unfolding dec(2) validate_norm [OF built(1)] by (rule built(3))
    show "claims_of_run (run_identity.truncate inp) (nextStep ch) (jws_payload dec)"
      unfolding claims_of_run_def dec(2) same
      using built(7-14) [THEN own] built(15) by (simp add: run_identity.truncate_def del: own_norm)
    show "str_at (jws_payload dec) ''receipt_id'' = Some uuid" unfolding dec(2) using own [OF built(8)] by (simp add: str_at_def del: own_norm)
  qed
qed

text \<open>The appends of one run: every input is plain and names the same run.\<close>

definition run_inputs :: "run_identity \<Rightarrow> (nat \<times> js_string \<times> receipt_input) list \<Rightarrow> bool" where
  "run_inputs idn xs \<longleftrightarrow>
     (\<forall>(nonce, uuid, inp) \<in> set xs. plain_input inp \<and> run_identity.truncate inp = idn)"

text \<open>One append of a run and the appends after it.\<close>

lemma append_all_Cons:
  assumes "append_all rt ch ((nonce, uuid, inp) # rest) = Inr (rs, ch')"
    and "run_inputs idn ((nonce, uuid, inp) # rest)" and "crypto_works rt"
    and "public_of rt (chain_key ch) = Inr pub"
  obtains r rs' dec where "rs = r # rs'" "run_inputs idn rest"
    "append_all rt (ch\<lparr>previousJws := Some (rec_jws r), nextStep := nextStep ch + 1\<rparr>) rest = Inr (rs', ch')"
    "inspect rt (rec_jws r) pub receipt_typ = Inr (Inr dec)" "payload_of (rec_jws r) = jws_payload dec"
    "linked rt (previousJws ch) (jws_payload dec)" "validateReceiptClaims rt (jws_payload dec) = Inr ()"
    "claims_of_run idn (nextStep ch) (jws_payload dec)" "str_at (jws_payload dec) ''receipt_id'' = Some uuid"
proof -
  from assms(1) obtain r ch1 rs' where a: "append_receipt rt nonce uuid ch inp = Inr (r, ch1)"
    and rest: "append_all rt ch1 rest = Inr (rs', ch')" and rs: "rs = r # rs'"
    by (auto split: prod.splits)
  have inp: "plain_input inp" "run_identity.truncate inp = idn" "run_inputs idn rest"
    using assms(2) by (auto simp: run_inputs_def)
  from appended_record [OF a inp(1) assms(3,4)] that rs rest inp(2,3) inspect_payload show thesis by blast
qed

lemma append_all_chain_ok:
  assumes "append_all rt ch xs = Inr (rs, ch')" and "run_inputs idn xs" and "crypto_works rt"
    and "public_of rt (chain_key ch) = Inr pub" and "claims_of_run idn 0 first"
  shows "chain_ok rt pub None first (nextStep ch) (previousJws ch) (map rec_jws rs)"
  using assms
proof (induction xs arbitrary: ch rs)
  case (Cons x rest)
  obtain nonce uuid inp where x: "x = (nonce, uuid, inp)" by (cases x)
  obtain r rs' dec
    where r: "rs = r # rs'" "run_inputs idn rest"
      "append_all rt (ch\<lparr>previousJws := Some (rec_jws r), nextStep := nextStep ch + 1\<rparr>) rest = Inr (rs', ch')"
      "inspect rt (rec_jws r) pub receipt_typ = Inr (Inr dec)" "payload_of (rec_jws r) = jws_payload dec"
      "linked rt (previousJws ch) (jws_payload dec)" "validateReceiptClaims rt (jws_payload dec) = Inr ()"
      "claims_of_run idn (nextStep ch) (jws_payload dec)" "str_at (jws_payload dec) ''receipt_id'' = Some uuid"
    by (rule append_all_Cons [OF Cons.prems(1,2) [unfolded x] Cons.prems(3,4)])
  then have "record_ok rt pub None first (nextStep ch) (previousJws ch) (rec_jws r)"
    unfolding record_ok_def using claims_of_run_same [OF Cons.prems(5)] by (auto simp: after_revocation_def)
  then show ?case using Cons.IH [OF r(3,2) Cons.prems(3) _ Cons.prems(5)] Cons.prems(4) by (simp add: r(1))
qed simp

lemma append_all_ends:
  assumes "append_all rt ch xs = Inr (rs, ch')" and "run_inputs idn xs" and "crypto_works rt"
    and "public_of rt (chain_key ch) = Inr pub"
  shows "map (\<lambda>r. str_at (payload_of (rec_jws r)) ''receipt_id'') rs = map (\<lambda>x. Some (fst (snd x))) xs \<and>
    (xs \<noteq> [] \<longrightarrow> claims_of_run idn (nextStep ch) (payload_of (rec_jws (hd rs)))) \<and>
    ch' = ch\<lparr>previousJws := (if rs = [] then previousJws ch else Some (rec_jws (last rs))),
             nextStep := nextStep ch + length rs\<rparr>"
  using assms
proof (induction xs arbitrary: ch rs)
  case (Cons x rest)
  obtain nonce uuid inp where x: "x = (nonce, uuid, inp)" by (cases x)
  obtain r rs' dec
    where r: "rs = r # rs'" "run_inputs idn rest"
      "append_all rt (ch\<lparr>previousJws := Some (rec_jws r), nextStep := nextStep ch + 1\<rparr>) rest = Inr (rs', ch')"
      "inspect rt (rec_jws r) pub receipt_typ = Inr (Inr dec)" "payload_of (rec_jws r) = jws_payload dec"
      "linked rt (previousJws ch) (jws_payload dec)" "validateReceiptClaims rt (jws_payload dec) = Inr ()"
      "claims_of_run idn (nextStep ch) (jws_payload dec)" "str_at (jws_payload dec) ''receipt_id'' = Some uuid"
    by (rule append_all_Cons [OF Cons.prems(1,2) [unfolded x] Cons.prems(3,4)])
  let ?ch = "ch\<lparr>previousJws := Some (rec_jws r), nextStep := nextStep ch + 1\<rparr>"
  have "public_of rt (chain_key ?ch) = Inr pub" using Cons.prems(4) by simp
  note IH = Cons.IH [OF r(3,2) Cons.prems(3) this]
  show ?case
  proof (intro conjI impI)
    show "map (\<lambda>r. str_at (payload_of (rec_jws r)) ''receipt_id'') rs = map (\<lambda>x. Some (fst (snd x))) (x # rest)"
      unfolding r(1) x list.map using IH r(5,9) by (simp del: map_eq_conv)
    show "claims_of_run idn (nextStep ch) (payload_of (rec_jws (hd rs)))" using r(1,5,8) by simp
    have "ch' = ?ch\<lparr>previousJws := (if rs' = [] then previousJws ?ch else Some (rec_jws (last rs'))),
        nextStep := nextStep ?ch + length rs'\<rparr>" using IH by blast
    then show "ch' = ch\<lparr>previousJws := (if rs = [] then previousJws ch else Some (rec_jws (last rs))),
        nextStep := nextStep ch + length rs\<rparr>" by (simp add: r(1))
  qed
qed simp


section \<open>A sealed run verifies\<close>

lemma head_norm:
  assumes "wf_json v"
  shows "(case own (norm_json v) k of
       Some head \<Rightarrow> is_object head \<and> length (keys_of head) = 3 \<and> str_at head ''hash_algorithm'' = Some h \<and>
         isNonemptyString (str_at head ''receipt_id'') \<and>
         (case str_at head ''receipt_jwt_sha256'' of Some h \<Rightarrow> hash_text h | None \<Rightarrow> False)
     | None \<Rightarrow> False) =
    (case own v k of
       Some head \<Rightarrow> is_object head \<and> length (keys_of head) = 3 \<and> str_at head ''hash_algorithm'' = Some h \<and>
         isNonemptyString (str_at head ''receipt_id'') \<and>
         (case str_at head ''receipt_jwt_sha256'' of Some h \<Rightarrow> hash_text h | None \<Rightarrow> False)
     | None \<Rightarrow> False)"
  using assms wf_own [OF assms] by (cases "own v k") (simp_all add: norm_simps)

lemma seal_norm:
  assumes "wf_json v"
  shows "validateSealClaims (norm_json v) = Inr () \<longleftrightarrow> validateSealClaims v = Inr ()"
proof -
  have "has_own (norm_json v) = has_own v" using assms by (intro ext) (rule has_own_norm)
  moreover have "canonical (norm_json v) = canonical v" by (simp add: canonical_def canonicalize_norm)
  ultimately show ?thesis
    unfolding validateSealClaims_def all_of_Inr_iff list.set ball_simps
    by (simp only: norm_simps head_norm [OF assms] is_object_norm length_keys_norm assms)
qed

lemma after_revocation_None [simp]: "\<not> after_revocation None v"
  by (simp add: after_revocation_def)

lemma seal_claims_own:
  "own (seal_claims rt uuid inp iat) (js ''sub'') = Some (String (seal_actor inp))"
  "own (seal_claims rt uuid inp iat) (js ''passport_jti'') = Some (String (seal_grantId inp))"
  "own (seal_claims rt uuid inp iat) (js ''iss'') = Some (String (seal_iss inp))"
  "own (seal_claims rt uuid inp iat) (js ''total_events'') = Some (num (int (length (seal_records inp))))"
  "own (seal_claims rt uuid inp iat) (js ''permits'') = Some (num (compliant_count (map payload_of (seal_records inp))))"
  "own (seal_claims rt uuid inp iat) (js ''denials'') =
     Some (num (int (length (seal_records inp)) - compliant_count (map payload_of (seal_records inp))))"
  "own (seal_claims rt uuid inp iat) (js ''receipt_chain_head'') = Some (Object
     [(js ''hash_algorithm'', String (js ''sha-256'')),
      (js ''receipt_id'', opt_string (str_at (last (map payload_of (seal_records inp))) ''receipt_id'')),
      (js ''receipt_jwt_sha256'', String (sha256 rt (last (seal_records inp))))])"
  by (simp_all add: seal_claims_def Let_def)

lemma int_at_num: "own v (js k) = Some (num i) \<Longrightarrow> int_at v k = Some i"
  by (simp add: int_at_def num_at_def num_def)

lemma seal_claims_wf: "wf_json (seal_claims rt uuid inp iat)"
  by (simp add: seal_claims_def Let_def num_def opt_string_def split: option.split)

lemma safe_of_nonneg: "isNonnegativeInteger (as_number (Some (num i))) \<Longrightarrow> safe_numbers (num i)"
  by (auto simp: isNonnegativeInteger_def num_def simp flip: of_int_abs)

lemma seal_claims_safe:
  assumes "validateSealClaims (seal_claims rt uuid inp iat) = Inr ()"
  shows "safe_numbers (seal_claims rt uuid inp iat)"
proof -
  have "own v (js k) = Some (num i) \<Longrightarrow> isNonnegativeInteger (num_at v k) \<Longrightarrow> safe_numbers (num i)" for v k i
    by (rule safe_of_nonneg) (simp add: num_at_def)
  moreover have "own (seal_claims rt uuid inp iat) (js ''iat'') = Some (num iat)"
    "own (seal_claims rt uuid inp iat) (js ''exp'') = Some (num (iat + seal_lifetime_seconds))"
    by (simp_all add: seal_claims_def Let_def)
  moreover have "\<forall>k \<in> {''iat'', ''exp'', ''total_events'', ''permits'', ''denials''}.
      isNonnegativeInteger (num_at (seal_claims rt uuid inp iat) k)"
    using assms unfolding validateSealClaims_def by simp
  ultimately have "safe_numbers (num iat)" "safe_numbers (num (iat + seal_lifetime_seconds))"
    "safe_numbers (num (int (length (seal_records inp))))"
    "safe_numbers (num (compliant_count (map payload_of (seal_records inp))))"
    "safe_numbers (num (int (length (seal_records inp)) - compliant_count (map payload_of (seal_records inp))))"
    using seal_claims_own(4-6) [of rt uuid inp iat] by blast+
  then show ?thesis by (simp add: seal_claims_def Let_def opt_string_def split: option.split)
qed

lemma valid_receipt_id:
  "validateReceiptClaims rt v = Inr () \<Longrightarrow> \<exists>i. str_at v ''receipt_id'' = Some i \<and> own v (js ''receipt_id'') = Some (String i)"
proof -
  assume "validateReceiptClaims rt v = Inr ()"
  then have "isNonemptyString (str_at v ''receipt_id'')"
    by (simp add: validateReceiptClaims_def nonempty_claims_def)
  then obtain i where i: "str_at v ''receipt_id'' = Some i" by (auto simp: isNonemptyString_def split: option.splits)
  then have "own v (js ''receipt_id'') = Some (String i)"
    unfolding str_at_def by (cases "own v (js ''receipt_id'')" rule: as_string.cases) auto
  with i show ?thesis by blast
qed

lemma chain_ok_revocation:
  "chain_ok rt key None first k previous l \<Longrightarrow> \<forall>jws \<in> set l. \<not> after_revocation revokedAt (payload_of jws) \<Longrightarrow>
   chain_ok rt key revokedAt first k previous l"
proof (induction l arbitrary: k previous)
  case (Cons jws rest)
  then show ?case using inspect_payload by (auto simp: record_ok_def)
qed simp

text \<open>Nothing in the journal is dated at or after the revocation, and the seal is not either.\<close>

definition before_revocation :: "runtime \<Rightarrow> js_num option \<Rightarrow> js_string \<Rightarrow> seal_input \<Rightarrow> bool" where
  "before_revocation rt revokedAt uuid inp \<longleftrightarrow>
     (\<forall>jws \<in> set (seal_records inp). \<not> after_revocation revokedAt (payload_of jws)) \<and>
     (case epochSeconds (seal_now inp) of
        Inr iat \<Rightarrow> \<not> after_revocation revokedAt (seal_claims rt uuid inp iat) | Inl _ \<Rightarrow> True)"

lemma sealed_contents_ok:
  assumes "sealRun rt nonce uuid inp privateKey kid = Inr seal" and "crypto_works rt"
    and "private_arg rt privateKey = Inr key" and "public_of rt key = Inr pub"
    and "before_revocation rt revokedAt uuid inp"
  shows "ok (verifySealContents rt seal (seal_records inp) (Key_object pub) revokedAt)"
proof -
  from assms obtain iat where
    chain: "ok (verifyChainContents rt (seal_records inp) (Key_object pub) None)" and ne: "seal_records inp \<noteq> []"
    and fresh: "\<not> after_revocation revokedAt (seal_claims rt uuid inp iat)"
      "\<forall>jws \<in> set (seal_records inp). \<not> after_revocation revokedAt (payload_of jws)"
    and run: "\<forall>r \<in> set (map payload_of (seal_records inp)). own r (js ''actor'') = Some (String (seal_actor inp)) \<and>
            own r (js ''grant_id'') = Some (String (seal_grantId inp)) \<and> own r (js ''iss'') = Some (String (seal_iss inp))"
    and valid: "validateSealClaims (seal_claims rt uuid inp iat) = Inr ()"
    and signed: "signCompact rt nonce (seal_claims rt uuid inp iat) (Key_object key) kid (js ''JWT'') = Inr seal"
    by (auto simp: sealRun_def verifyChain_def before_revocation_def split: if_splits)
  let ?c = "seal_claims rt uuid inp iat"
  obtain kvs where kvs: "?c = Object kvs" by (auto simp: seal_claims_def Let_def)
  obtain dec where dec: "inspect rt seal pub (js ''JWT'') = Inr (Inr dec)" "jws_payload dec = norm_json ?c"
    using inspect_signed [OF signed [unfolded kvs] assms(2) _ _ assms(4)] seal_claims_wf [of rt uuid inp iat]
      seal_claims_safe [OF valid] kvs by auto
  obtain k where k: "verificationKey rt (Key_object pub) = Inr k"
    "chain_ok rt k None (payload_of (hd (seal_records inp))) 0 None (seal_records inp)"
    using chain unfolding verifyChainContents_ok by blast
  then have "k = pub" by (auto simp: verificationKey_def public_arg_def)
  from valid_receipt_id [OF conjunct1 [OF chain_ok_valid [OF k(2) last_in_set [OF ne]]]]
  obtain i where i: "str_at (payload_of (last (seal_records inp))) ''receipt_id'' = Some i" by blast
  note own_norm_c = own_norm [OF seal_claims_wf [of rt uuid inp iat]]
  have tail: "names_tail rt (norm_json ?c) (last (seal_records inp)) (Some i)"
  proof -
    let ?h = "Object [(js ''hash_algorithm'', String (js ''sha-256'')), (js ''receipt_id'', String i),
      (js ''receipt_jwt_sha256'', String (sha256 rt (last (seal_records inp))))]"
    have "own ?c (js ''receipt_chain_head'') = Some ?h" using i ne by (simp add: seal_claims_own opt_string_def last_map)
    moreover have "wf_json ?h" by simp
    ultimately show ?thesis
      by (simp add: names_tail_def own_norm_c norm_simps del: norm_json.simps own.simps) (simp add: str_at_def)
  qed
  have "seal_matches (norm_json ?c) (map payload_of (seal_records inp))"
    using run seal_claims_wf [of rt uuid inp iat]
    by (simp add: seal_matches_def norm_simps int_at_num [OF seal_claims_own(4)] int_at_num [OF seal_claims_own(5)]
        int_at_num [OF seal_claims_own(6)] seal_claims_own)
  moreover have "\<not> after_revocation revokedAt (norm_json ?c)"
    using fresh(1) seal_claims_wf [of rt uuid inp iat] by (simp add: after_revocation_def norm_simps)
  moreover have "ok (verifyChainContents rt (seal_records inp) (Key_object pub) revokedAt)"
    unfolding verifyChainContents_ok using ne k chain_ok_revocation [OF k(2) fresh(2)] by blast
  ultimately show ?thesis
    unfolding verifySealContents_ok
    using k \<open>k = pub\<close> dec valid tail i seal_norm [OF seal_claims_wf [of rt uuid inp iat]] by auto
qed

text \<open>
  C22. What is sealed checks: whenever a run's journal can be sealed, journal and seal verify
  together under the sealing key's public half, also after a revocation later than all their dates,
  and the signer is reported as expected exactly when the fingerprint asked for is the key's id.
\<close>

theorem sealed_run_verifies:
  assumes "sealRun rt nonce uuid inp privateKey kid = Inr seal" and "crypto_works rt"
    and "private_arg rt privateKey = Inr key" and "public_of rt key = Inr pub"
    and "before_revocation rt revokedAt uuid inp"
    and "evidenceKeyId rt (Key_object pub) = Inr i" and "trim fingerprint \<noteq> []"
  shows "ok (verifySeal rt seal (seal_records inp) (Key_object pub) (Some fingerprint) revokedAt) \<and>
     (signerMatch (verifySeal rt seal (seal_records inp) (Key_object pub) (Some fingerprint) revokedAt) = Some Expected_key
       \<longleftrightarrow> trim fingerprint = i)"
  using sealed_contents_ok [OF assms(1-5)] assms(6,7) by (simp add: verifySeal_def withSignerMatch_def)

section \<open>Resumption\<close>

lemma inspected_tail:
  assumes "inspect rt jws pub receipt_typ = Inr (Inr dec)" and "validateReceiptClaims rt (jws_payload dec) = Inr ()"
    and "private_arg rt privateKey = Inr key" and "public_of rt key = Inr pub"
    and "evidenceKeyId rt (Key_object pub) = Inr kid"
  shows "tail_claims rt jws privateKey kid = Inr (jws_payload dec)"
proof -
  have d: "decodeCompact jws = Inr dec" by (rule inspect_decodes [OF assms(1)])
  have "receipt_typ \<noteq> js ''JWT''" by (simp add: receipt_typ_def)
  then have "is_object (jws_header dec) \<and> str_at (jws_header dec) ''alg'' = Some (js ''ES256'') \<and>
      str_at (jws_header dec) ''typ'' = Some receipt_typ \<and> str_at (jws_header dec) ''kid'' = Some kid \<and>
      length (keys_of (jws_header dec)) = 3 \<and> verifyCompactSignature rt dec (Key_object pub) = Inr True \<and>
      (\<exists>t. canonical (jws_payload dec) = Inr t \<and> utf8_encode t = payloadBytes dec)"
    using assms(1,5) by (auto simp: inspect_def d Let_def split: if_splits sum.splits bool.splits)
  then show ?thesis using assms(2-5) d by (auto simp: tail_claims_def Let_def)
qed

lemma tail_identity:
  assumes "claims_of_run idn step v" and "receiptIdentity idn step = Inr identity"
  shows "check_all (\<lambda>(claim, expected). check (own v claim = Some expected) (Format_error Tail_mismatch claim)) identity = Inr ()"
  using assms unfolding receiptIdentity_cases claims_of_run_def by auto


section \<open>A sample run\<close>

definition sample_key :: key_object where
  "sample_key = \<lparr>key_kind = Key_private, asymmetricKeyType = Some (js ''ec''), namedCurve = Some (js ''prime256v1''),
     key_material = 7\<rparr>"

definition sample_pem :: js_string where
  "sample_pem = js ''-----BEGIN PUBLIC KEY-----'' @ [10, 65, 65, 10] @ js ''-----END PUBLIC KEY-----''"

definition sample_rt :: runtime where
  "sample_rt =
     \<lparr>digest_sha256 = (\<lambda>_. replicate 32 0), createPrivateKey = (\<lambda>_. None),
      createPublicKey = (\<lambda>_. Some (sample_key\<lparr>key_kind := Key_public\<rparr>)),
      publicKeyOf = (\<lambda>k. Some (k\<lparr>key_kind := Key_public\<rparr>)), export_der = (\<lambda>_. []), export_pem = (\<lambda>_. sample_pem),
      sign_es256 = (\<lambda>_ _ _. replicate 64 0), verify_es256 = (\<lambda>_ _ _. True), control_or_separator = (\<lambda>_. False)\<rparr>"

definition sample_kid :: js_string where
  "sample_kid = js ''sha256:'' @ replicate 64 48"

definition sample_identity :: run_identity where
  "sample_identity = \<lparr>id_runId = js ''run'', id_spaceId = js ''sp'', id_botId = Some (js ''bot''), id_actor = None,
     id_verifierId = None, id_grantId = js ''g'', id_traceId = js ''t'', id_runNonce = js ''abcdefghijklmnop''\<rparr>"

definition sample_input :: receipt_input where
  "sample_input = run_identity.extend sample_identity
     (receipt_input.fields (js ''read_file'') Null (js ''read'') (js ''none'') (js ''f'') (js ''file'') (js ''compliant'')
       (js ''ok'') (Array []) (Object []) [] (Num 0))"

definition sample_ch :: evidence_chain where
  "sample_ch = \<lparr>chain_key = sample_key, chain_kid = sample_kid, previousJws = None, nextStep = 0\<rparr>"

lemma js_trim: "trim (js ''run'') = js ''run''" "trim (js ''sp'') = js ''sp''" "trim (js ''g'') = js ''g''"
  "trim (js ''bot'') = js ''bot''" "trim (js ''t'') = js ''t''" "trim (js ''abcdefghijklmnop'') = js ''abcdefghijklmnop''"
  "trim (js ''read_file'') = js ''read_file''" "trim (js ''f'') = js ''f''" "trim (js ''file'') = js ''file''" "trim (js ''ok'') = js ''ok''"
  "trim (js ''u'') = js ''u''" "trim (js ''ardur:sp:evidence'') = js ''ardur:sp:evidence''" "trim (js ''run:0'') = js ''run:0''"
  by code_simp+

lemma epoch0: "epochSeconds (Num 0) = Inr 0" by (simp add: epochSeconds_def max_epoch_seconds_def)

lemma input_fields: "id_runId sample_input = js ''run''" "id_spaceId sample_input = js ''sp''" "actor_of sample_input = js ''bot''"
  "verifier_of sample_input = js ''ardur:sp:evidence''" "id_grantId sample_input = js ''g''"
  "id_traceId sample_input = js ''t''" "id_runNonce sample_input = js ''abcdefghijklmnop''"
  "step_text (js ''run'') 0 = js ''run:0''" "in_args sample_input = Null" "in_tool sample_input = js ''read_file''"
  "in_now sample_input = Num 0" "optional_entries sample_input = []"
  by (simp_all add: sample_input_def sample_identity_def run_identity.defs receipt_input.defs actor_of_def verifier_of_def
     js_append [symmetric] step_text_def digits_of_small optional_entries_def receipt_optional_claims_def) (simp add: js_def)


lemma input_fields2: "in_actionClass sample_input = js ''read''" "in_sideEffectClass sample_input = js ''none''"
  "in_target sample_input = js ''f''" "in_resourceFamily sample_input = js ''file''" "in_verdict sample_input = js ''compliant''"
  "in_reason sample_input = js ''ok''" "in_policyDecisions sample_input = Array []" "in_budgetRemaining sample_input = Object []"
  by (simp_all add: sample_input_def sample_identity_def run_identity.defs receipt_input.defs)

definition sample_entries :: "js_string \<Rightarrow> js_string \<Rightarrow> (js_string \<times> json) list" where
  "sample_entries a b =
     [(js ''grant_id'', String (js ''g'')), (js ''trace_id'', String (js ''t'')),
      (js ''run_nonce'', String (js ''abcdefghijklmnop'')), (js ''actor'', String (js ''bot'')),
      (js ''verifier_id'', String (js ''ardur:sp:evidence'')), (js ''iss'', String (js ''ardur:sp:evidence'')),
      (js ''step_id'', String (js ''run:0''))] @
     receipt_entries sample_rt (js ''u'') sample_input 0 None a b"

lemma sample_own:
  "str_at (Object (sample_entries a b)) ''schema_version'' = Some (js ''ardur.execution_receipt.v0.2'')"
  "str_at (Object (sample_entries a b)) ''canonicalization'' = Some (js ''jcs-rfc8785'')"
  "str_at (Object (sample_entries a b)) ''receipt_kind'' = Some (js ''action'')"
  "str_at (Object (sample_entries a b)) ''receipt_id'' = Some (js ''u'')"
  "str_at (Object (sample_entries a b)) ''jti'' = Some (js ''u'')"
  "str_at (Object (sample_entries a b)) ''grant_id'' = Some (js ''g'')"
  "str_at (Object (sample_entries a b)) ''actor'' = Some (js ''bot'')"
  "str_at (Object (sample_entries a b)) ''verifier_id'' = Some (js ''ardur:sp:evidence'')"
  "str_at (Object (sample_entries a b)) ''iss'' = Some (js ''ardur:sp:evidence'')"
  "str_at (Object (sample_entries a b)) ''trace_id'' = Some (js ''t'')"
  "str_at (Object (sample_entries a b)) ''run_nonce'' = Some (js ''abcdefghijklmnop'')"
  "str_at (Object (sample_entries a b)) ''step_id'' = Some (js ''run:0'')"
  "str_at (Object (sample_entries a b)) ''tool'' = Some (js ''read_file'')"
  "str_at (Object (sample_entries a b)) ''target'' = Some (js ''f'')"
  "str_at (Object (sample_entries a b)) ''resource_family'' = Some (js ''file'')"
  "str_at (Object (sample_entries a b)) ''reason'' = Some (js ''ok'')"
  "str_at (Object (sample_entries a b)) ''action_class'' = Some (js ''read'')"
  "str_at (Object (sample_entries a b)) ''side_effect_class'' = Some (js ''none'')"
  "str_at (Object (sample_entries a b)) ''verdict'' = Some (js ''compliant'')"
  "str_at (Object (sample_entries a b)) ''evidence_level'' = Some (js ''self_signed'')"
  "str_at (Object (sample_entries a b)) ''arguments_hash'' = Some (sha256 sample_rt a)"
  "str_at (Object (sample_entries a b)) ''timestamp'' = Some (iso_seconds 0)"
  "own (Object (sample_entries a b)) (js ''parent_receipt_hash'') = Some Null"
  "own (Object (sample_entries a b)) (js ''parent_receipt_id'') = Some Null"
  "own (Object (sample_entries a b)) (js ''policy_decisions'') = Some (Array [])"
  "own (Object (sample_entries a b)) (js ''budget_remaining'') = Some (Object [])"
  "num_at (Object (sample_entries a b)) ''iat'' = Some (Num 0)"
  "num_at (Object (sample_entries a b)) ''exp'' = Some (Num 3600)"
  "has_own (Object (sample_entries a b)) ''result_hash'' = False"
  "has_own (Object (sample_entries a b)) ''sensitivity'' = False"
  "has_own (Object (sample_entries a b)) ''instruction_bearing'' = False"
  "has_own (Object (sample_entries a b)) ''public_denial_reason'' = False"
  "has_own (Object (sample_entries a b)) ''internal_denial_code'' = False"
  "list_all (has_own (Object (sample_entries a b))) receipt_required_claims"
  by (simp_all add: sample_entries_def receipt_entries_def input_fields input_fields2 str_at_def num_at_def has_own_def
     opt_string_def num_def receipt_required_claims_def)

lemma sample_digest:
  "own (Object (sample_entries a b)) (js ''invocation_digest'') = Some (Object
     [(js ''alg'', String (js ''sha-256'')), (js ''canonicalization'', String (js ''jcs-rfc8785'')),
      (js ''scope'', String (js ''normalized_input'')), (js ''value'', String (b64_encode (replicate 32 0)))])"
  by (simp add: sample_entries_def receipt_entries_def sample_rt_def)

lemma sample_keys:
  "fst ` set (sample_entries a b) \<subseteq> js ` set receipt_required_claims"
  "\<forall>kv \<in> set (sample_entries a b). tidy (snd kv)"
proof -
  have safe: "tidy (num 0)" "tidy (num 3600)"
    using safe_num [of 0] safe_num [of 3600] by (simp_all add: num_def max_safe_integer_def)
  have w: "well_formed (sha256 rt a)" "well_formed (b64_encode (digest_sha256 sample_rt x))" for rt x
    using wf_b64 [OF b64_encode_text [of "digest_sha256 sample_rt x"]] by (simp_all add: sha256_def wf_hex sample_rt_def)
  show "fst ` set (sample_entries a b) \<subseteq> js ` set receipt_required_claims"
    by (simp add: sample_entries_def receipt_entries_def receipt_required_claims_def)
  show "\<forall>kv \<in> set (sample_entries a b). tidy (snd kv)"
    using safe w by (simp add: sample_entries_def receipt_entries_def input_fields input_fields2 opt_string_def wf_iso)
qed

lemma sample_hash: "hash_text (sha256 sample_rt a)"
  using hex_encode_lower by (simp add: hash_text_def sha256_def sample_rt_def)

lemma sample_valid: "validateReceiptClaims sample_rt (Object (sample_entries a b)) = Inr ()"
proof -
  let ?v = "Object (sample_entries a b)"
  have keys: "check_all validateKey (entries_of ?v) = Inr ()"
  proof -
    have "validateKey kv = Inr ()" if kv: "kv \<in> set (sample_entries a b)" for kv
    proof -
      have "fst kv \<in> js ` set receipt_required_claims" using sample_keys(1) [of a b] kv by blast
      then have "fst kv \<in> js ` set (receipt_required_claims @ receipt_optional_claims)" by auto
      moreover obtain t where "canonicalize (snd kv) = Inr t" using sample_keys(2) [of a b] kv tidy_canonical by blast
      ultimately show ?thesis by (simp only: validateKey_def if_True if_False simp_thms sum.case)
    qed
    then show ?thesis by simp
  qed
  have digest: "validateDigest (own ?v (js ''invocation_digest'')) ''invocation_digest'' = Inr ()"
    using b64_encode_text [of "replicate 32 0"]
    unfolding sample_digest
    by (simp add: validateDigest_def str_at_def member_of_def digest_canonicalizations_def digest_scopes_def)
  have nonce: "base64url_text (js ''abcdefghijklmnop'')" by code_simp
  have nonneg: "isNonnegativeInteger (Some (Num 0))" "isNonnegativeInteger (Some (Num 3600))"
    using safe_num [of 0] safe_num [of 3600] by (simp_all add: num_def max_safe_integer_def isNonnegativeInteger_def)
  have required: "\<forall>k \<in> set receipt_required_claims. has_own ?v k" using sample_own(34) [of a b] by (simp add: list_all_iff)
  show ?thesis
    unfolding validateReceiptClaims_def all_of_Inr_iff list.set ball_simps
    using keys digest nonce nonneg required sample_hash [of a]
    unfolding sample_digest
    by (simp del: own.simps add: sample_own nonempty_claims_def isNonemptyString_def js_trim claim_guards_def member_of_def
        action_classes_def side_effect_classes_def verdicts_def evidence_levels_def parent_ok_def int_at_def
        max_epoch_seconds_def str_at_def [of "Object (_ # _)"]) simp
qed


lemma sample_chain: "createEvidenceChain sample_rt (Key_object sample_key) sample_kid = Inr sample_ch"
  by (simp add: createEvidenceChain_def chain_def private_arg_def sample_ch_def)

lemma sample_crypto: "crypto_works sample_rt"
  by (simp add: crypto_works_def crypto_sizes_def sample_rt_def)

lemma sample_pub: "public_of sample_rt sample_key = Inr (sample_key\<lparr>key_kind := Key_public\<rparr>)"
  by (simp add: public_of_def sample_rt_def)

lemma sample_id: "evidenceKeyId sample_rt (Key_object (sample_key\<lparr>key_kind := Key_public\<rparr>)) = Inr sample_kid"
proof -
  have "hex_encode (replicate 32 0) = replicate 64 48" by code_simp
  then show ?thesis
    by (simp add: evidenceKeyId_def public_arg_def requireP256_def is_p256_def sample_key_def sample_rt_def sample_kid_def)
qed

lemma sample_header:
  "well_formed typ \<Longrightarrow> \<exists>h. canonicalize (header_of sample_kid typ) = Inr h"
  using tidy_canonical [of "header_of sample_kid typ"] well_formed_append [of "js ''sha256:''" "replicate 64 48"]
    well_formed_plain [of "replicate 64 48"]
  by (auto simp: header_of_def sample_kid_def plain_small)

lemma sample_sign:
  assumes "tidy claims" and "well_formed typ"
  shows "\<exists>j. signCompact sample_rt n claims (Key_object sample_key) sample_kid typ = Inr j"
  using sample_header [OF assms(2)] tidy_canonical [OF assms(1)] sample_pub sample_id
  by (auto simp: signCompact_def private_arg_def sample_key_def is_p256_def Let_def canonical_def
      header_of_def [symmetric] simp del: canonicalize.simps)

lemma sample_append: "\<exists>r. append_all sample_rt sample_ch [(0, js ''u'', sample_input)] = Inr ([r], sample_ch\<lparr>previousJws := Some (rec_jws r), nextStep := 1\<rparr>)"
proof -
  obtain a where a: "canonicalize (in_args sample_input) = Inr a" by (simp add: input_fields)
  obtain b where b: "canonicalize (Object [(js ''tool'', String (in_tool sample_input)), (js ''args'', in_args sample_input)]) = Inr b"
    using tidy_canonical [of "Object [(js ''tool'', String (in_tool sample_input)), (js ''args'', in_args sample_input)]"]
    by (auto simp: input_fields)
  have "receiptIdentity sample_input 0 = Inr
      [(js ''grant_id'', String (js ''g'')), (js ''trace_id'', String (js ''t'')),
      (js ''run_nonce'', String (js ''abcdefghijklmnop'')), (js ''actor'', String (js ''bot'')),
      (js ''verifier_id'', String (js ''ardur:sp:evidence'')), (js ''iss'', String (js ''ardur:sp:evidence'')),
      (js ''step_id'', String (js ''run:0''))]"
    unfolding receiptIdentity_cases by (simp add: input_fields js_trim)
  then have build: "buildReceiptClaims sample_rt (js ''u'') sample_input 0 None = Inr (Object (sample_entries a b))"
    using a b sample_valid [of a b]
    by (simp add: buildReceiptClaims_def canonical_def input_fields(11,12) epoch0 max_safe_integer_def sample_entries_def del: canonicalize.simps)
  have keys: "fst ` set (sample_entries a b) \<subseteq> js ` set receipt_required_claims" by (rule sample_keys(1))
  have "\<forall>kv \<in> set (sample_entries a b). well_formed (fst kv)" using keys by (auto simp: subset_iff image_iff)
  then have "tidy (Object (sample_entries a b))" using sample_keys(2) [of a b] by simp
  from sample_sign [OF this, of receipt_typ]
  have "\<exists>j. signReceipt sample_rt 0 (Object (sample_entries a b)) (Key_object sample_key) sample_kid = Inr j"
    using sample_valid [of a b] by (simp add: signReceipt_def sample_own receipt_typ_def)
  then obtain j where "signReceipt sample_rt 0 (Object (sample_entries a b)) (Key_object sample_key) sample_kid = Inr j" by blast
  then show ?thesis using build
    by (intro exI [of _ "\<lparr>rec_jws = j, rec_receiptId = js ''u'', rec_sha256 = sha256 sample_rt j, rec_parentSha256 = None, rec_seq = 0\<rparr>"])
      (simp add: append_receipt_def sample_ch_def)
qed


lemma sample_inputs: "run_inputs sample_identity [(0, js ''u'', sample_input)]"
  by (simp add: run_inputs_def plain_input_def input_fields2 sample_input_def sample_identity_def run_identity.defs receipt_input.defs)

lemma sample_verification_key:
  "verificationKey sample_rt (Key_object (sample_key\<lparr>key_kind := Key_public\<rparr>)) = Inr (sample_key\<lparr>key_kind := Key_public\<rparr>)"
  using sample_id by (simp add: verificationKey_def public_arg_def)




definition sample_seal_input :: "js_string \<Rightarrow> seal_input" where
  "sample_seal_input jws = \<lparr>seal_records = [jws], seal_actor = js ''bot'', seal_grantId = js ''g'',
     seal_iss = js ''ardur:sp:evidence'', seal_now = Num 0\<rparr>"

lemma sample_record:
  assumes "append_all sample_rt sample_ch [(0, js ''u'', sample_input)] = Inr ([r], ch')"
  shows "str_at (payload_of (rec_jws r)) ''receipt_id'' = Some (js ''u'')"
    and "claims_of_run sample_identity 0 (payload_of (rec_jws r))"
    and "ok (verifyChain sample_rt [rec_jws r] (Key_object (sample_key\<lparr>key_kind := Key_public\<rparr>)) e None)"
proof -
  have pub: "public_of sample_rt (chain_key sample_ch) = Inr (sample_key\<lparr>key_kind := Key_public\<rparr>)"
    using sample_pub by (simp add: sample_ch_def)
  note ends = append_all_ends [OF assms sample_inputs sample_crypto pub]
  show "str_at (payload_of (rec_jws r)) ''receipt_id'' = Some (js ''u'')" using ends by simp
  show run: "claims_of_run sample_identity 0 (payload_of (rec_jws r))" using ends by (simp add: sample_ch_def)
  from append_all_chain_ok [OF assms sample_inputs sample_crypto pub run]
  show "ok (verifyChain sample_rt [rec_jws r] (Key_object (sample_key\<lparr>key_kind := Key_public\<rparr>)) e None)"
    unfolding verifyChain_def ok_withSignerMatch verifyChainContents_ok
    using sample_verification_key by (simp add: sample_ch_def)
qed

lemma sample_seal_valid:
  assumes "str_at (payload_of jws) ''receipt_id'' = Some (js ''u'')"
  shows "validateSealClaims (seal_claims sample_rt (js ''s'') (sample_seal_input jws) 0) = Inr ()"
    and "tidy (seal_claims sample_rt (js ''s'') (sample_seal_input jws) 0)"
proof -
  define p where "p = compliant_count [payload_of jws]"
  have p: "p = 0 \<or> p = 1" by (simp add: p_def compliant_count_def)
  let ?v = "seal_claims sample_rt (js ''s'') (sample_seal_input jws) 0"
  have v: "?v = Object
        [(js ''schema_version'', String (js ''ardur.behavioral_attestation.v0.2'')),
         (js ''type'', String (js ''behavioral_attestation'')), (js ''iss'', String (js ''ardur:sp:evidence'')),
         (js ''sub'', String (js ''bot'')), (js ''aud'', String (js ''vibap-attestation-verifier'')),
         (js ''iat'', num 0), (js ''exp'', num seal_lifetime_seconds), (js ''jti'', String (js ''s'')),
         (js ''passport_jti'', String (js ''g'')),
         (js ''receipt_chain_head'', Object
           [(js ''hash_algorithm'', String (js ''sha-256'')), (js ''receipt_id'', String (js ''u'')),
            (js ''receipt_jwt_sha256'', String (sha256 sample_rt jws))]),
         (js ''total_events'', num 1), (js ''permits'', num p), (js ''denials'', num (1 - p))]"
    using assms by (simp add: seal_claims_def sample_seal_input_def Let_def p_def opt_string_def)
  have n: "0 \<le> i \<Longrightarrow> i \<le> max_safe_integer \<Longrightarrow> isNonnegativeInteger (Some (Num (of_int i))) \<and> is_safe_integer (Num (of_int i))" for i
    by (simp add: isNonnegativeInteger_def flip: of_int_abs)
  have nums: "isNonnegativeInteger (Some (Num (of_int i))) \<and> is_safe_integer (Num (of_int i))"
    if "i \<in> {0, 1, p, 1 - p, seal_lifetime_seconds}" for i
    by (rule n) (use that p in \<open>auto simp: seal_lifetime_seconds_def max_safe_integer_def\<close>)
  note each = nums [of 0] nums [of 1] nums [of p] nums [of "1 - p"] nums [of seal_lifetime_seconds]
  show t: "tidy ?v"
    using each unfolding v by (simp add: num_def sha256_def wf_hex del: is_safe_integer.simps)
  then obtain t where "canonicalize ?v = Inr t" using tidy_canonical by blast
  then have canon: "canonical ?v = Inr t" by simp
  have trim: "trim (js ''s'') = js ''s''" by code_simp
  have int: "int_at (Object kvs) k = Some i" if "map_of kvs (js k) = Some (num i)" for kvs k i
    by (rule int_at_num) (simp add: that)
  show "validateSealClaims ?v = Inr ()"
    unfolding validateSealClaims_def all_of_Inr_iff list.set ball_simps canon unfolding v
    using each sample_hash [of jws]
    by (simp add: str_at_def num_at_def int num_def seal_required_claims_def has_own_def isNonemptyString_def js_trim trim
        int_at_def del: is_safe_integer.simps)
qed

lemma sample_sealed:
  assumes "append_all sample_rt sample_ch [(0, js ''u'', sample_input)] = Inr ([r], ch')"
  shows "\<exists>seal. sealRun sample_rt 0 (js ''s'') (sample_seal_input (rec_jws r)) (Key_object sample_key) sample_kid = Inr seal"
proof -
  let ?i = "sample_seal_input (rec_jws r)"
  note rec = sample_record [OF assms]
  note seal = sample_seal_valid [OF rec(1)]
  obtain j where j: "signCompact sample_rt 0 (seal_claims sample_rt (js ''s'') ?i 0) (Key_object sample_key) sample_kid (js ''JWT'') = Inr j"
    using sample_sign [OF seal(2), of "js ''JWT''"] by auto
  have fields: "seal_records ?i = [rec_jws r]" "seal_actor ?i = js ''bot''" "seal_grantId ?i = js ''g''"
    "seal_iss ?i = js ''ardur:sp:evidence''" "seal_now ?i = Num 0" by (simp_all add: sample_seal_input_def)
  have ids: "actor_of sample_identity = js ''bot''" "verifier_of sample_identity = js ''ardur:sp:evidence''" "id_grantId sample_identity = js ''g''"
    by (simp_all add: sample_identity_def actor_of_def verifier_of_def js_append [symmetric])
  have "sealRun sample_rt 0 (js ''s'') ?i (Key_object sample_key) sample_kid = Inr j"
    using rec(2) by (simp add: sealRun_def fields private_arg_def sample_pub rec(3) claims_of_run_def ids epoch0 seal(1) j)
  then show ?thesis ..
qed

lemma sample_verified:
  "\<exists>jws seal. ok (verifySealContents sample_rt seal [jws] (Key_object (sample_key\<lparr>key_kind := Key_public\<rparr>))
     (Some (Num (of_int (1000 * max_epoch_seconds + 1000)))))"
proof -
  obtain r ch' where r: "append_all sample_rt sample_ch [(0, js ''u'', sample_input)] = Inr ([r], ch')" using sample_append by blast
  obtain seal where seal: "sealRun sample_rt 0 (js ''s'') (sample_seal_input (rec_jws r)) (Key_object sample_key) sample_kid = Inr seal"
    using sample_sealed [OF r] by blast
  let ?t = "1000 * max_epoch_seconds + 1000"
  have late: "revocation_second (of_int ?t) = of_int ?t"
    by (simp add: revocation_second_def max_epoch_seconds_def)
  have fresh: "t \<le> max_epoch_seconds \<Longrightarrow> \<not> signedAtOrAfterRevocation t (Num (of_int ?t))" for t
    unfolding signedAtOrAfterRevocation_def js_num.case late of_int_le_iff by linarith
  have "int_at (payload_of (rec_jws r)) ''iat'' = Some t \<Longrightarrow> t \<le> max_epoch_seconds" for t
    using sample_record(3) [OF r, of None] chain_ok_valid
    unfolding verifyChain_def ok_withSignerMatch verifyChainContents_ok by (fastforce simp: validateReceiptClaims_def)
  then have "\<not> after_revocation (Some (Num (of_int ?t))) (payload_of (rec_jws r))"
    using fresh unfolding after_revocation_def by (simp only: prod.case option.case split: option.split) blast
  moreover have "int_at (seal_claims sample_rt (js ''s'') inp 0) ''iat'' = Some 0" for inp
    by (rule int_at_num) (simp add: seal_claims_def Let_def)
  then have "\<not> after_revocation (Some (Num (of_int ?t))) (seal_claims sample_rt (js ''s'') (sample_seal_input (rec_jws r)) 0)"
    using fresh [of 0] unfolding after_revocation_def by (simp only: prod.case option.case) (simp add: max_epoch_seconds_def)
  ultimately have "before_revocation sample_rt (Some (Num (of_int ?t))) (js ''s'') (sample_seal_input (rec_jws r))"
    by (simp add: before_revocation_def sample_seal_input_def epoch0)
  from sealed_contents_ok [OF seal sample_crypto _ sample_pub this] show ?thesis
    by (auto simp: private_arg_def sample_seal_input_def)
qed

theorem sealed_run_verifies_witness:
  "\<exists>jws seal. ok (verifySeal sample_rt seal [jws] (Key_object (sample_key\<lparr>key_kind := Key_public\<rparr>)) (Some (js ''other'')) None) \<and>
     signerMatch (verifySeal sample_rt seal [jws] (Key_object (sample_key\<lparr>key_kind := Key_public\<rparr>)) (Some (js ''other'')) None)
       \<noteq> Some Expected_key"
proof -
  obtain r ch' where r: "append_all sample_rt sample_ch [(0, js ''u'', sample_input)] = Inr ([r], ch')" using sample_append by blast
  obtain seal where seal: "sealRun sample_rt 0 (js ''s'') (sample_seal_input (rec_jws r)) (Key_object sample_key) sample_kid = Inr seal"
    using sample_sealed [OF r] by blast
  have "before_revocation sample_rt None (js ''s'') (sample_seal_input (rec_jws r))"
    by (simp add: before_revocation_def split: sum.split)
  moreover have "trim (js ''other'') = js ''other''" by code_simp
  moreover have "js ''other'' \<noteq> sample_kid"
  proof
    assume "js ''other'' = sample_kid"
    then have "length (js ''other'') = length sample_kid" by (rule arg_cong)
    then show False by (simp add: sample_kid_def)
  qed
  ultimately show ?thesis
    using sealed_run_verifies [OF seal sample_crypto _ sample_pub _ sample_id, of None "js ''other''"]
    by (auto simp: private_arg_def sample_seal_input_def)
qed

theorem seal_fixes_journal_witness:
  "\<exists>l1 l2 seal. length l1 = 1 \<and>
     ok (verifySeal sample_rt seal l1 (Key_object (sample_key\<lparr>key_kind := Key_public\<rparr>)) None
       (Some (Num (of_int (1000 * max_epoch_seconds + 1000))))) \<and>
     ok (verifySeal sample_rt seal l2 (Key_object (sample_key\<lparr>key_kind := Key_public\<rparr>)) (Some (js ''x''))
       (Some (Num (of_int (1000 * max_epoch_seconds + 1000))))) \<and> l1 = l2"
proof -
  obtain jws seal where v: "ok (verifySealContents sample_rt seal [jws] (Key_object (sample_key\<lparr>key_kind := Key_public\<rparr>))
     (Some (Num (of_int (1000 * max_epoch_seconds + 1000)))))" using sample_verified by blast
  have v1: "ok (verifySeal sample_rt seal [jws] (Key_object (sample_key\<lparr>key_kind := Key_public\<rparr>)) e
     (Some (Num (of_int (1000 * max_epoch_seconds + 1000)))))" for e using v by (simp add: verifySeal_def)
  from seal_fixes_journal [OF v1 [of None] v1 [of "Some (js ''x'')"]] have "[jws] = [jws]" by simp
  then show ?thesis using v1 [of None] v1 [of "Some (js ''x'')"]
    by (intro exI [of _ "[jws]"] exI [of _ seal]) simp
qed


lemma sample_pem_key: "verificationKey sample_rt (Pem sample_pem) = verificationKey sample_rt (Key_object (sample_key\<lparr>key_kind := Key_public\<rparr>))"
  and sample_pem_loads: "loadEvidencePublicKey sample_rt sample_pem = Inr (sample_key\<lparr>key_kind := Key_public\<rparr>)"
proof -
  have "pem_envelope (trim sample_pem)" by code_simp
  then show "loadEvidencePublicKey sample_rt sample_pem = Inr (sample_key\<lparr>key_kind := Key_public\<rparr>)"
    by (simp add: loadEvidencePublicKey_def sample_rt_def requireP256_def is_p256_def sample_key_def)
  then show "verificationKey sample_rt (Pem sample_pem) = verificationKey sample_rt (Key_object (sample_key\<lparr>key_kind := Key_public\<rparr>))"
    by (simp add: verificationKey_def public_arg_def)
qed

theorem bundle_journal_reads_back_witness:
  "\<exists>jws seal files. buildEvidenceBundle sample_rt (js ''run'') [jws] seal sample_pem = Inr files \<and>
     read_journal (contents (files ! 0)) = [Some jws]"
proof -
  obtain r ch' where r: "append_all sample_rt sample_ch [(0, js ''u'', sample_input)] = Inr ([r], ch')" using sample_append by blast
  obtain seal where seal: "sealRun sample_rt 0 (js ''s'') (sample_seal_input (rec_jws r)) (Key_object sample_key) sample_kid = Inr seal"
    using sample_sealed [OF r] by blast
  have "ok (verifySealContents sample_rt seal [rec_jws r] (Key_object (sample_key\<lparr>key_kind := Key_public\<rparr>)) None)"
    using sealed_contents_ok [OF seal sample_crypto _ sample_pub, of None]
    by (simp add: before_revocation_def sample_seal_input_def private_arg_def split: sum.split)
  then have v: "ok (verifySeal sample_rt seal [rec_jws r] (Pem sample_pem) None None)"
    unfolding verifySeal_def ok_withSignerMatch verifySealContents_ok verifyChainContents_ok sample_pem_key .
  have "export_pem sample_rt k = sample_pem" for k by (simp add: sample_rt_def)
  then obtain files where "buildEvidenceBundle sample_rt (js ''run'') [rec_jws r] seal sample_pem = Inr files"
    using v by (simp add: buildEvidenceBundle_def sample_pem_loads isNonemptyString_def js_trim)
  then show ?thesis using bundle_journal_reads_back by fastforce
qed

end
