(* ===== verification/Redaction.thy ===== *)
theory Redaction
  imports Json
begin

text \<open>
  Keeping secrets and broken text out of what is stored and shown
  (\<open>packages/core/src/events.ts\<close>): redaction of known secrets in a text, the same redaction over a
  stream of chunks, the search for a secret inside a JSON value, and the repair of unpaired
  surrogates in strings and JSON values. A secret list is what the caller passes; empty entries are
  ignored. The loops advance by the length of the secret they found, which is at least one.
\<close>

section \<open>Redacting a text\<close>

definition secretAt :: "js_string \<Rightarrow> js_string \<Rightarrow> bool" where
  "secretAt rest secret \<longleftrightarrow> startsWith rest secret"

definition hasSecret :: "js_string \<Rightarrow> js_string list \<Rightarrow> bool" where
  "hasSecret value secrets \<longleftrightarrow> (\<exists>secret \<in> set secrets. secret \<noteq> [] \<and> includes_str value secret)"

text \<open>The distinct non-empty secrets, longest first.\<close>

definition active_secrets :: "js_string list \<Rightarrow> js_string list" where
  "active_secrets secrets =
     sort_cmp (\<lambda>a b. length b \<le> length a) (uniq (filter (\<lambda>s. s \<noteq> []) secrets))"

definition redacted :: js_string where
  "redacted = js ''[redacted]''"

fun redact_from :: "js_string list \<Rightarrow> js_string \<Rightarrow> js_string" where
  "redact_from active [] = []"
| "redact_from active (c # rest) =
     (case find (secretAt (c # rest)) active of
        Some secret \<Rightarrow> redacted @ redact_from active (drop (length secret - 1) rest)
      | None \<Rightarrow> c # redact_from active rest)"

definition redactSecrets :: "js_string \<Rightarrow> js_string list \<Rightarrow> js_string" where
  "redactSecrets value secrets = redact_from (active_secrets secrets) value"

section \<open>Searching a JSON value\<close>

text \<open>What \<open>JSON.parse(JSON.stringify(value))\<close> makes of plain data: numbers that JSON cannot write
  become null. A value that does not serialise at all is \<open>None\<close>.\<close>

fun as_carried :: "json \<Rightarrow> json" where
  "as_carried (Number x) = (case x of Num r \<Rightarrow> Number (Num r) | _ \<Rightarrow> Null)"
| "as_carried (Array vs) = Array (map as_carried vs)"
| "as_carried (Object kvs) = Object (map (\<lambda>kv. (fst kv, as_carried (snd kv))) kvs)"
| "as_carried v = v"

fun primitive_text :: "json \<Rightarrow> js_string" where
  "primitive_text (Bool b) = (if b then js ''true'' else js ''false'')"
| "primitive_text (Number (Num r)) = number_to_string r"
| "primitive_text _ = js ''null''"

text \<open>The stack of values still to look at; the last pushed is looked at first.\<close>

partial_function (option) search_pending :: "js_string list \<Rightarrow> json list \<Rightarrow> bool option" where
  "search_pending active pending =
     (case pending of
        [] \<Rightarrow> Some False
      | current # others \<Rightarrow>
          (case current of
             String s \<Rightarrow> if hasSecret s active then Some True else search_pending active others
           | Array vs \<Rightarrow> search_pending active (rev vs @ others)
           | Object kvs \<Rightarrow>
               if \<exists>kv \<in> set kvs. hasSecret (fst kv) active then Some True
               else search_pending active (rev (map snd kvs) @ others)
           | _ \<Rightarrow> if hasSecret (primitive_text current) active then Some True
                  else search_pending active others))"

definition containsSecret :: "json option \<Rightarrow> js_string list \<Rightarrow> bool option" where
  "containsSecret value secrets =
     (let active = filter (\<lambda>s. s \<noteq> []) secrets in
      if active = [] then Some False
      else case value of
        None \<Rightarrow> Some False
      | Some v \<Rightarrow> search_pending active [as_carried v])"

section \<open>Repairing surrogates\<close>

definition endsWithHighSurrogate :: "js_string \<Rightarrow> bool" where
  "endsWithHighSurrogate s \<longleftrightarrow> s \<noteq> [] \<and> high_surrogate (last s)"

fun sanitizeUtf16ForJson :: "js_string \<Rightarrow> js_string" where
  "sanitizeUtf16ForJson [] = []"
| "sanitizeUtf16ForJson [c] = [if high_surrogate c \<or> low_surrogate c then 0xFFFD else c]"
| "sanitizeUtf16ForJson (c # d # s) =
     (if high_surrogate c then
        (if low_surrogate d then c # d # sanitizeUtf16ForJson s
         else 0xFFFD # sanitizeUtf16ForJson (d # s))
      else if low_surrogate c then 0xFFFD # sanitizeUtf16ForJson (d # s)
      else c # sanitizeUtf16ForJson (d # s))"

text \<open>Assigning a property of a plain object: \<open>__proto__\<close> reaches the setter of
  \<open>Object.prototype\<close> and makes no own property.\<close>

definition set_prop :: "(js_string \<times> json) list \<Rightarrow> js_string \<times> json \<Rightarrow> (js_string \<times> json) list" where
  "set_prop out kv = (if fst kv = js ''__proto__'' then out else put_prop out kv)"

fun safe_members ::
    "js_string list \<Rightarrow> (js_string \<times> json) list \<Rightarrow> (js_string \<times> json) list \<Rightarrow> (js_string \<times> json) list" where
  "safe_members used out [] = out"
| "safe_members used out (kv # kvs) =
     (let base = sanitizeUtf16ForJson (fst kv);
          seen = count_list used base;
          safeKey = (if seen > 0 then base @ 35 # digits_of (seen + 1) else base)
      in safe_members (base # used) (set_prop out (safeKey, snd kv)) kvs)"

fun sanitizeJsonValue :: "json \<Rightarrow> json" where
  "sanitizeJsonValue (String s) = String (sanitizeUtf16ForJson s)"
| "sanitizeJsonValue (Array vs) = Array (map sanitizeJsonValue vs)"
| "sanitizeJsonValue (Object kvs) =
     Object (safe_members [] [] (map (\<lambda>kv. (fst kv, sanitizeJsonValue (snd kv))) kvs))"
| "sanitizeJsonValue v = v"

section \<open>Redacting a stream\<close>

record redactor =
  redactor_values :: "js_string list"
  redactor_buffer :: js_string

definition createStreamingRedactor :: "js_string list \<Rightarrow> redactor" where
  "createStreamingRedactor secrets =
     \<lparr>redactor_values = active_secrets secrets, redactor_buffer = []\<rparr>"

definition max_length :: "js_string list \<Rightarrow> nat" where
  "max_length values = (case values of [] \<Rightarrow> 0 | v # _ \<Rightarrow> length v)"

text \<open>The loop of \<open>drain\<close>: \<open>k\<close> is how many starts are left below the safe limit, \<open>rest\<close> the buffer
  from the offset on. It returns what it appends to the output and what stays in the buffer.\<close>

fun drain_loop :: "js_string list \<Rightarrow> bool \<Rightarrow> nat \<Rightarrow> js_string \<Rightarrow> js_string \<times> js_string" where
  "drain_loop values final 0 rest = ([], rest)"
| "drain_loop values final (Suc k) [] = ([], [])"
| "drain_loop values final (Suc k) (c # rest) =
     (case find (secretAt (c # rest)) values of
        Some secret \<Rightarrow>
          (case drain_loop values final (k - (length secret - 1)) (drop (length secret - 1) rest) of
             (output, left) \<Rightarrow> (redacted @ output, left))
      | None \<Rightarrow>
          if high_surrogate c \<and> rest \<noteq> [] \<and> low_surrogate (hd rest) then
            (if \<not> final \<and> k = 0 then ([], c # rest)
             else case drain_loop values final (k - 1) (tl rest) of
               (output, left) \<Rightarrow> (c # hd rest # output, left))
          else if high_surrogate c \<and> \<not> final \<and> rest = [] then ([], c # rest)
          else case drain_loop values final k rest of (output, left) \<Rightarrow> (c # output, left))"

definition drain_raw :: "js_string list \<Rightarrow> bool \<Rightarrow> js_string \<Rightarrow> js_string \<times> js_string" where
  "drain_raw values final buffer =
     (if values = [] then (buffer, [])
      else drain_loop values final
        (if final then length buffer else length buffer - max_length values) buffer)"

definition hold_back :: "bool \<Rightarrow> js_string \<times> js_string \<Rightarrow> js_string \<times> js_string" where
  "hold_back final ob =
     (if \<not> final \<and> endsWithHighSurrogate (fst ob)
      then (butlast (fst ob), last (fst ob) # snd ob) else ob)"

definition drain :: "bool \<Rightarrow> redactor \<Rightarrow> js_string \<times> redactor" where
  "drain final r =
     (case hold_back final (drain_raw (redactor_values r) final (redactor_buffer r)) of
        (output, buffer) \<Rightarrow> (sanitizeUtf16ForJson output, r\<lparr>redactor_buffer := buffer\<rparr>))"

definition push :: "js_string \<Rightarrow> redactor \<Rightarrow> js_string \<times> redactor" where
  "push chunk r = drain False (r\<lparr>redactor_buffer := redactor_buffer r @ chunk\<rparr>)"

definition finish :: "redactor \<Rightarrow> js_string \<times> redactor" where
  "finish r = drain True r"

text \<open>Everything a caller receives that pushes chunks one after the other and finishes.\<close>

fun stream_output :: "redactor \<Rightarrow> js_string list \<Rightarrow> js_string" where
  "stream_output r [] = fst (finish r)"
| "stream_output r (chunk # chunks) =
     (case push chunk r of (output, r') \<Rightarrow> output @ stream_output r' chunks)"

section \<open>The list of active secrets\<close>

lemma set_active_secrets [simp]: "set (active_secrets secrets) = {s \<in> set secrets. s \<noteq> []}"
  by (auto simp: active_secrets_def)

lemma longest_first: "total_preorder (\<lambda>a b. length b \<le> length a)"
  by (auto simp: total_preorder_def)

lemma active_length_le:
  assumes "s \<in> set (active_secrets secrets)"
  shows "length s \<le> max_length (active_secrets secrets)"
proof -
  obtain m ms where m: "active_secrets secrets = m # ms" using assms by (cases "active_secrets secrets") auto
  have "s \<in> set (uniq (filter (\<lambda>s. s \<noteq> []) secrets))" using assms by auto
  then have "length s \<le> length m"
    using sort_cmp_hd_least [OF longest_first, of "uniq (filter (\<lambda>s. s \<noteq> []) secrets)" m ms s] m
    by (simp add: active_secrets_def)
  then show ?thesis by (simp add: max_length_def m)
qed

lemma redact_from_no_secrets [simp]: "redact_from [] s = s"
  by (induction s) simp_all

lemma find_secretAt_append:
  assumes "\<forall>v \<in> set vs. length v \<le> length s"
  shows "find (secretAt (s @ t)) vs = find (secretAt s) vs"
  by (rule find_cong_on) (use assms in \<open>simp add: secretAt_def startsWith_def\<close>)

section \<open>No secret is left\<close>

lemma copied_prefix:
  assumes "startsWith (redact_from vs s) p" and "91 \<notin> set p"
  shows "startsWith s p"
  using assms
proof (induction s arbitrary: p)
  case (Cons c rest)
  show ?case
  proof (cases "find (secretAt (c # rest)) vs")
    case None
    then show ?thesis using Cons by (cases p) (auto simp: startsWith_iff)
  next
    case (Some secret)
    then have "p = []" using Cons.prems by (cases p) (auto simp: startsWith_iff redacted_def js_def)
    then show ?thesis by (simp add: startsWith_iff)
  qed
qed simp

lemma startsWith_before: "startsWith (x @ d # y) p \<Longrightarrow> d \<notin> set p \<Longrightarrow> startsWith x p"
proof (induction x arbitrary: p)
  case Nil
  then show ?case by (cases p) (auto simp: startsWith_iff)
next
  case (Cons c x)
  then show ?case by (cases p) (auto simp: startsWith_iff)
qed

lemma includes_split_at:
  "includes_str (x @ d # y) p \<Longrightarrow> d \<notin> set p \<Longrightarrow> includes_str x p \<or> includes_str y p"
proof (induction x)
  case Nil
  then show ?case using startsWith_before [of "[]" d y p] by (auto simp: startsWith_iff)
next
  case (Cons c x)
  then show ?case using startsWith_before [of "c # x" d y p] by auto
qed

lemma redacted_parts: "redacted = [] @ 91 # js ''redacted'' @ [93]"
  by (simp add: redacted_def js_def)

lemma redact_from_clean:
  assumes "s \<in> set vs" and "s \<noteq> []" and "91 \<notin> set s" and "93 \<notin> set s"
    and "\<not> includes_str (js ''redacted'') s"
  shows "\<not> includes_str (redact_from vs v) s"
  using assms(1)
proof (induction vs v rule: redact_from.induct)
  case (2 active c rest)
  show ?case
  proof (cases "find (secretAt (c # rest)) active")
    case None
    have "\<not> includes_str (redact_from active rest) s" using 2 None by blast
    moreover have "\<not> startsWith (redact_from active (c # rest)) s"
    proof
      assume "startsWith (redact_from active (c # rest)) s"
      then have "startsWith (c # rest) s" using assms(3) by (rule copied_prefix)
      with 2(3) None show False unfolding find_None_iff_ball secretAt_def by blast
    qed
    ultimately show ?thesis using None by simp
  next
    case (Some secret)
    let ?r = "redact_from active (drop (length secret - 1) rest)"
    have "\<not> includes_str ?r s" using 2 Some by blast
    then have "\<not> includes_str (js ''redacted'' @ 93 # ?r) s"
      using includes_split_at [of "js ''redacted''" 93 ?r s] assms(4,5) by blast
    then have "\<not> includes_str ([] @ 91 # js ''redacted'' @ 93 # ?r) s"
      using includes_split_at [of "[]" 91 "js ''redacted'' @ 93 # ?r" s] assms(2,3)
      by (auto simp del: append_Nil)
    then show ?thesis using Some by (simp add: redacted_parts)
  qed
qed (use assms in simp)

text \<open>C25. A redacted text holds no secret: whatever the text, no non-empty entry of the secret list
  occurs in the result, unless the entry has a square bracket or is itself part of the word
  \<open>redacted\<close>, so that the marker can spell it.\<close>

theorem redacted_text_has_no_secret:
  assumes "secret \<in> set secrets" and "secret \<noteq> []"
    and "91 \<notin> set secret" and "93 \<notin> set secret" and "\<not> includes_str (js ''redacted'') secret"
  shows "\<not> includes_str (redactSecrets value secrets) secret"
  unfolding redactSecrets_def by (rule redact_from_clean) (use assms in simp_all)

lemma redacted_text_has_no_secret_witness:
  "\<not> includes_str (redactSecrets (js ''key sk-1sk-12!'') [js ''sk-1'', [], js ''sk-12'']) (js ''sk-12'')
   \<and> redactSecrets (js ''key sk-1sk-12!'') [js ''sk-1'', [], js ''sk-12''] = js ''key [redacted][redacted]!''"
proof
  show "\<not> includes_str (redactSecrets (js ''key sk-1sk-12!'') [js ''sk-1'', [], js ''sk-12'']) (js ''sk-12'')"
    by (rule redacted_text_has_no_secret) (simp_all add: js_def startsWith_def)
  show "redactSecrets (js ''key sk-1sk-12!'') [js ''sk-1'', [], js ''sk-12''] = js ''key [redacted][redacted]!''"
    by code_simp
qed

section \<open>A repaired text is well-formed\<close>

lemma replacement_unit [simp]: "\<not> high_surrogate 0xFFFD" "\<not> low_surrogate 0xFFFD"
  by (simp_all add: high_surrogate_def low_surrogate_def)

lemma high_not_low: "high_surrogate c \<Longrightarrow> \<not> low_surrogate c"
  by (simp add: high_surrogate_def low_surrogate_def word_le_nat_alt)

lemma sanitize_well_formed [simp]: "well_formed (sanitizeUtf16ForJson s)"
  by (induction s rule: sanitizeUtf16ForJson.induct) (auto simp: well_formed_Cons)

lemma sanitize_id: "well_formed s \<Longrightarrow> sanitizeUtf16ForJson s = s"
  by (induction s rule: sanitizeUtf16ForJson.induct) (auto split: if_splits)

lemma sanitize_Cons:
  "\<not> high_surrogate c \<Longrightarrow>
   sanitizeUtf16ForJson (c # s) = (if low_surrogate c then 0xFFFD else c) # sanitizeUtf16ForJson s"
  by (cases s) auto

lemma sanitize_append:
  "endsWithHighSurrogate a \<longrightarrow> b \<noteq> [] \<and> \<not> low_surrogate (hd b) \<Longrightarrow>
   sanitizeUtf16ForJson (a @ b) = sanitizeUtf16ForJson a @ sanitizeUtf16ForJson b"
proof (induction a rule: sanitizeUtf16ForJson.induct)
  case (2 c)
  then show ?case by (cases b) (auto simp: endsWithHighSurrogate_def)
next
  case (3 c d s)
  have "endsWithHighSurrogate (d # s) = endsWithHighSurrogate (c # d # s)"
    by (simp add: endsWithHighSurrogate_def)
  moreover have "low_surrogate d \<Longrightarrow> endsWithHighSurrogate s = endsWithHighSurrogate (c # d # s)"
    using high_not_low [of d] by (auto simp: endsWithHighSurrogate_def)
  ultimately show ?case using 3 by simp
qed simp

text \<open>Every string and every key of a value is well-formed; no object has an own \<open>__proto__\<close>.\<close>

fun text_ok :: "json \<Rightarrow> bool" where
  "text_ok (String s) = well_formed s"
| "text_ok (Array vs) = (\<forall>v \<in> set vs. text_ok v)"
| "text_ok (Object kvs) = (\<forall>kv \<in> set kvs. well_formed (fst kv) \<and> text_ok (snd kv))"
| "text_ok _ = True"

fun no_proto :: "json \<Rightarrow> bool" where
  "no_proto (Array vs) = (\<forall>v \<in> set vs. no_proto v)"
| "no_proto (Object kvs) = (\<forall>kv \<in> set kvs. fst kv \<noteq> js ''__proto__'' \<and> no_proto (snd kv))"
| "no_proto _ = True"

lemma well_formed_suffix: "well_formed (35 # digits_of n)"
  by (rule well_formed_plain) (auto simp: plain_digit digits_of_digits plain_small)

lemma set_put_prop: "set (put_prop out kv) \<subseteq> insert kv (set out)"
  by (induction out) auto

lemma set_prop_all: "P kv \<Longrightarrow> \<forall>x \<in> set out. P x \<Longrightarrow> \<forall>x \<in> set (set_prop out kv). P x"
  using set_put_prop [of out kv] by (auto simp: set_prop_def)

lemma safe_members_ok:
  "\<forall>kv \<in> set kvs. text_ok (snd kv) \<Longrightarrow> \<forall>kv \<in> set out. well_formed (fst kv) \<and> text_ok (snd kv) \<Longrightarrow>
   \<forall>kv \<in> set (safe_members used out kvs). well_formed (fst kv) \<and> text_ok (snd kv)"
proof (induction used out kvs rule: safe_members.induct)
  case (2 used out kv kvs)
  let ?base = "sanitizeUtf16ForJson (fst kv)"
  let ?safe = "if count_list used ?base > 0 then ?base @ 35 # digits_of (count_list used ?base + 1) else ?base"
  have "well_formed ?safe" by (auto intro: well_formed_append well_formed_suffix)
  then have "\<forall>kv \<in> set (set_prop out (?safe, snd kv)). well_formed (fst kv) \<and> text_ok (snd kv)"
    by (intro set_prop_all) (use 2(2,3) in simp_all)
  with 2(1) [OF refl refl refl] 2(2) show ?case unfolding safe_members.simps Let_def by simp
qed simp

lemma sanitizeJsonValue_ok: "text_ok (sanitizeJsonValue v)"
proof (induction v rule: sanitizeJsonValue.induct)
  case (3 kvs)
  have "\<forall>kv \<in> set (safe_members [] [] (map (\<lambda>kv. (fst kv, sanitizeJsonValue (snd kv))) kvs)).
      well_formed (fst kv) \<and> text_ok (snd kv)"
    by (rule safe_members_ok) (use 3 in auto)
  then show ?case by simp
qed auto

lemma put_prop_new: "fst kv \<notin> fst ` set out \<Longrightarrow> put_prop out kv = out @ [kv]"
  by (induction out) auto

lemma safe_members_id:
  "distinct (map fst kvs) \<Longrightarrow> \<forall>kv \<in> set kvs. well_formed (fst kv) \<and> fst kv \<noteq> js ''__proto__'' \<Longrightarrow>
   fst ` set kvs \<inter> set used = {} \<Longrightarrow> fst ` set kvs \<inter> fst ` set out = {} \<Longrightarrow>
   safe_members used out kvs = out @ kvs"
proof (induction used out kvs rule: safe_members.induct)
  case (2 used out kv kvs)
  have base: "sanitizeUtf16ForJson (fst kv) = fst kv" using 2(3) by (simp add: sanitize_id)
  have fresh: "count_list used (fst kv) = 0" using 2(4) by simp
  have put: "set_prop out (fst kv, snd kv) = out @ [kv]"
    using 2(3,5) put_prop_new [of kv out] by (simp add: set_prop_def)
  have "safe_members (fst kv # used) (out @ [kv]) kvs = (out @ [kv]) @ kvs"
    using 2(1) [OF refl refl refl] 2(2-5) base fresh put by auto
  then show ?case using base fresh put by simp
qed simp

lemma sanitizeJsonValue_id: "text_ok v \<Longrightarrow> wf_json v \<Longrightarrow> no_proto v \<Longrightarrow> sanitizeJsonValue v = v"
proof (induction v rule: sanitizeJsonValue.induct)
  case (2 vs)
  then show ?case by (auto intro: map_idI)
next
  case (3 kvs)
  have "map (\<lambda>kv. (fst kv, sanitizeJsonValue (snd kv))) kvs = kvs"
    by (rule map_idI) (use 3 in auto)
  moreover have "safe_members [] [] kvs = kvs" using 3 safe_members_id [of kvs "[]" "[]"] by simp
  ultimately show ?case by simp
qed (simp_all add: sanitize_id)

lemma collect_Inl: "collect rs = Inl e \<Longrightarrow> Inl e \<in> set rs"
proof (induction rs)
  case (Cons r rs)
  then show ?case by (cases r; cases "collect rs") auto
qed simp

lemma and_then_pure: "and_then r (\<lambda>x. Inr (f x)) = Inl e \<longleftrightarrow> r = Inl e"
  by (cases r) auto

lemma text_ok_canonicalizes: "text_ok v \<Longrightarrow> canonicalize v \<noteq> Inl Lone_surrogate"
proof (induction v rule: canonicalize.induct)
  case (3 x)
  then show ?case by (cases x) (auto simp: Let_def)
next
  case (4 s)
  then show ?case by (simp add: serializeString_def)
next
  case (5 vs)
  have "canonicalize v \<noteq> Inl Lone_surrogate" if "v \<in> set vs" for v using 5 that by simp
  then have "Inl Lone_surrogate \<notin> set (map canonicalize vs)" by fastforce
  then have "collect (map canonicalize vs) \<noteq> Inl Lone_surrogate"
    using collect_Inl [of "map canonicalize vs" Lone_surrogate] by blast
  then show ?case by (simp add: and_then_pure)
next
  case (6 kvs)
  let ?es = "sort_key fst (map (\<lambda>kv. (fst kv, canonicalize (snd kv))) kvs)"
  have "entry (k, canonicalize v) \<noteq> Inl Lone_surrogate" if "(k, v) \<in> set kvs" for k v
    using that 6(1) [of "(k, v)" ] 6(2)
    by (cases "canonicalize v") (fastforce simp: entry_def serializeString_def)+
  then have "Inl Lone_surrogate \<notin> set (map entry ?es)" by fastforce
  then have "collect (map entry ?es) \<noteq> Inl Lone_surrogate"
    using collect_Inl [of "map entry ?es" Lone_surrogate] by blast
  then show ?case by (simp add: and_then_pure)
qed auto

text \<open>C26. Every value is repaired: after \<open>sanitizeJsonValue\<close> all strings and keys at any depth are
  well-formed UTF-16, so the canonical text never fails on a lone surrogate; and a value that was
  well-formed, with distinct keys and no own \<open>__proto__\<close>, is returned unchanged.\<close>

theorem sanitized_value_is_well_formed:
  "text_ok (sanitizeJsonValue v) \<and> canonicalize (sanitizeJsonValue v) \<noteq> Inl Lone_surrogate \<and>
   (text_ok v \<and> wf_json v \<and> no_proto v \<longrightarrow> sanitizeJsonValue v = v)"
  using sanitizeJsonValue_ok [of v] text_ok_canonicalizes [OF sanitizeJsonValue_ok, of v]
    sanitizeJsonValue_id [of v]
  by blast

lemma sanitized_value_is_well_formed_witness:
  "sanitizeJsonValue (Object [(js ''a'', Array [String [0xD83D, 0xDE00], Null])])
     = Object [(js ''a'', Array [String [0xD83D, 0xDE00], Null])]"
proof -
  let ?v = "Object [(js ''a'', Array [String [0xD83D, 0xDE00], Null])]"
  have "text_ok ?v \<and> wf_json ?v \<and> no_proto ?v"
    by (simp add: js_def high_surrogate_def low_surrogate_def)
  with sanitized_value_is_well_formed [of ?v] show ?thesis by blast
qed

text \<open>Two keys that the repair makes equal are told apart by a numbered suffix, but the suffixed
  key is not checked against the keys that follow: here the member of the second key is lost to a
  third key that already reads like the suffixed one.\<close>

theorem sanitize_can_lose_a_member:
  "sanitizeJsonValue (Object [([0xD800], Bool a), ([0xDC00], Bool b), ([0xFFFD, 35, 50], Bool c)])
     = Object [([0xFFFD], Bool a), ([0xFFFD, 35, 50], Bool c)]"
  by (simp add: high_surrogate_def low_surrogate_def set_prop_def js_def digits_of_small)

section \<open>The search ends and finds every occurrence\<close>

text \<open>Every text a value carries: its strings, its keys and the text of its other leaves.\<close>

fun texts_of :: "json \<Rightarrow> js_string set" where
  "texts_of (String s) = {s}"
| "texts_of (Array vs) = (\<Union>v \<in> set vs. texts_of v)"
| "texts_of (Object kvs) = (\<Union>kv \<in> set kvs. insert (fst kv) (texts_of (snd kv)))"
| "texts_of v = {primitive_text v}"

fun nodes :: "json \<Rightarrow> nat" where
  "nodes (Array vs) = Suc (sum_list (map nodes vs))"
| "nodes (Object kvs) = Suc (sum_list (map (\<lambda>kv. nodes (snd kv)) kvs))"
| "nodes _ = 1"

lemma search_pending_spec:
  "search_pending active pending = Some (\<exists>v \<in> set pending. \<exists>t \<in> texts_of v. hasSecret t active)"
proof (induction "sum_list (map nodes pending)" arbitrary: pending rule: less_induct)
  case less
  show ?case
  proof (cases pending)
    case Nil
    then show ?thesis by (simp add: search_pending.simps)
  next
    case (Cons v others)
    have rest: "search_pending active others = Some (\<exists>v \<in> set others. \<exists>t \<in> texts_of v. hasSecret t active)"
      by (rule less.hyps) (cases v; simp add: Cons)
    show ?thesis
    proof (cases v)
      case (Array vs)
      have "search_pending active (rev vs @ others)
          = Some (\<exists>v \<in> set (rev vs @ others). \<exists>t \<in> texts_of v. hasSecret t active)"
        by (rule less.hyps) (simp add: Cons Array rev_map [symmetric])
      then show ?thesis unfolding search_pending.simps [of active pending] by (auto simp: Cons Array)
    next
      case (Object kvs)
      have "search_pending active (rev (map snd kvs) @ others)
          = Some (\<exists>v \<in> set (rev (map snd kvs) @ others). \<exists>t \<in> texts_of v. hasSecret t active)"
        by (rule less.hyps) (simp add: Cons Object rev_map [symmetric] comp_def)
      then show ?thesis unfolding search_pending.simps [of active pending] by (auto simp: Cons Object)
    qed (use rest in \<open>auto simp: search_pending.simps [of active "_ # _"] Cons\<close>)
  qed
qed

lemma hasSecret_active: "hasSecret t (filter (\<lambda>s. s \<noteq> []) secrets) = hasSecret t secrets"
  by (auto simp: hasSecret_def)

text \<open>The search for a secret always ends, and says yes exactly when some text that the value
  carries as JSON (a string, a key, or the text of a number, boolean or null, at any depth) contains
  a non-empty secret.\<close>

theorem secret_search_ends:
  "containsSecret (Some v) secrets = Some (\<exists>t \<in> texts_of (as_carried v). hasSecret t secrets)"
proof (cases "filter (\<lambda>s. s \<noteq> []) secrets = []")
  case True
  then show ?thesis using hasSecret_active [of _ secrets] by (simp add: containsSecret_def hasSecret_def)
next
  case False
  then show ?thesis by (simp add: containsSecret_def search_pending_spec hasSecret_active)
qed

section \<open>The stream redacts like the text\<close>

lemma drain_loop_silent: "drain_loop vs final k rest = ([], left) \<Longrightarrow> left = rest"
  by (induction vs final k rest arbitrary: left rule: drain_loop.induct)
    (auto simp: redacted_def js_def split: option.splits prod.splits if_splits)

text \<open>The secrets of a stream: not empty, no longer than the longest, and none of them starting in
  the middle of a surrogate pair.\<close>

definition stream_secrets :: "js_string list \<Rightarrow> bool" where
  "stream_secrets vs \<longleftrightarrow> (\<forall>v \<in> set vs. v \<noteq> [] \<and> \<not> low_surrogate (hd v) \<and> length v \<le> max_length vs)"

lemma no_secret_at_low:
  "stream_secrets vs \<Longrightarrow> low_surrogate d \<Longrightarrow> find (secretAt (d # rest)) vs = None"
  by (auto simp: find_None_iff_ball stream_secrets_def secretAt_def startsWith_iff neq_Nil_conv)

lemma redacted_last: "last (redacted @ s) = (if s = [] then 93 else last s)"
  by (simp add: redacted_def js_def)

lemma not_high_93 [simp]: "\<not> high_surrogate 93"
  by (simp add: high_surrogate_def)

lemma drain_loop_open:
  "stream_secrets vs \<Longrightarrow> \<not> final \<Longrightarrow> k = 0 \<or> k + max_length vs \<le> length rest \<Longrightarrow>
   drain_loop vs final k rest = (out, left) \<Longrightarrow>
   redact_from vs (rest @ future) = out @ redact_from vs (left @ future) \<and>
   (endsWithHighSurrogate out \<longrightarrow> find (secretAt (last out # left @ future)) vs = None)"
proof (induction vs final k rest arbitrary: out left rule: drain_loop.induct)
  case (3 vs final k c rest)
  have bound: "k + max_length vs \<le> length rest" using 3(6) by simp
  have same: "find (secretAt (c # rest @ future)) vs = find (secretAt (c # rest)) vs"
    using find_secretAt_append [of vs "c # rest" future] 3(4) bound
    by (force simp: stream_secrets_def)
  show ?case
  proof (cases "find (secretAt (c # rest)) vs")
    case (Some secret)
    let ?n = "length secret - 1"
    obtain o' where o': "drain_loop vs final (k - ?n) (drop ?n rest) = (o', left)" "out = redacted @ o'"
      using 3(7) Some by (auto split: prod.splits)
    have len: "?n \<le> length rest"
      using find_SomeD [OF Some] bound 3(4) by (fastforce simp: stream_secrets_def)
    have "k - ?n = 0 \<or> k - ?n + max_length vs \<le> length (drop ?n rest)" using bound by auto
    from 3(3) [OF Some 3(4,5) this o'(1)] show ?thesis
      using o'(2) same Some len by (auto simp: endsWithHighSurrogate_def redacted_last)
  next
    case None
    show ?thesis
    proof (cases "high_surrogate c \<and> rest \<noteq> [] \<and> low_surrogate (hd rest)")
      case pair: True
      then obtain d rest' where rest: "rest = d # rest'" and d: "low_surrogate d" by (cases rest) auto
      show ?thesis
      proof (cases "k = 0")
        case True
        then show ?thesis using 3(5,7) None pair by (auto simp: endsWithHighSurrogate_def)
      next
        case False
        then obtain o' where o': "drain_loop vs final (k - 1) (tl rest) = (o', left)" "out = c # d # o'"
          using 3(7) None pair rest by (auto split: prod.splits)
        have "k - 1 = 0 \<or> k - 1 + max_length vs \<le> length (tl rest)" using bound False by auto
        from 3(1) [OF None pair _ 3(4,5) this o'(1)] False
        have "redact_from vs (rest' @ future) = o' @ redact_from vs (left @ future) \<and>
            (endsWithHighSurrogate o' \<longrightarrow> find (secretAt (last o' # left @ future)) vs = None)"
          by (simp add: rest)
        then show ?thesis
          using o'(2) same None rest d no_secret_at_low [OF 3(4) d] high_not_low
          by (auto simp: endsWithHighSurrogate_def)
      qed
    next
      case no_pair: False
      show ?thesis
      proof (cases "high_surrogate c \<and> rest = []")
        case True
        then show ?thesis using 3(5,7) None by (auto simp: endsWithHighSurrogate_def)
      next
        case False
        then obtain o' where o': "drain_loop vs final k rest = (o', left)" "out = c # o'"
          using 3(7) None no_pair by (auto split: prod.splits)
        have step: "redact_from vs (rest @ future) = o' @ redact_from vs (left @ future) \<and>
            (endsWithHighSurrogate o' \<longrightarrow> find (secretAt (last o' # left @ future)) vs = None)"
          by (rule 3(2)) (use None no_pair False 3(4,5) bound o'(1) in auto)
        have "o' = [] \<Longrightarrow> left = rest" using o'(1) drain_loop_silent by blast
        with step show ?thesis using o'(2) same None by (auto simp: endsWithHighSurrogate_def)
      qed
    qed
  qed
qed (auto simp: endsWithHighSurrogate_def)

lemma drain_loop_final:
  "stream_secrets vs \<Longrightarrow> drain_loop vs True (length rest) rest = (redact_from vs rest, [])"
proof (induction rest rule: length_induct)
  case (1 rest)
  show ?case
  proof (cases rest)
    case (Cons c r)
    have IH: "length t \<le> length r \<Longrightarrow> drain_loop vs True (length t) t = (redact_from vs t, [])" for t
      using 1 Cons by simp
    show ?thesis
    proof (cases "find (secretAt (c # r)) vs")
      case (Some secret)
      then show ?thesis using Cons IH [of "drop (length secret - 1) r"] by simp
    next
      case None
      then show ?thesis
        using Cons IH [of r] IH [of "tl r"] no_secret_at_low [OF 1(2)]
        by (cases r) auto
    qed
  qed simp
qed

lemma hold_back_open:
  assumes "stream_secrets vs" and "hold_back False (drain_raw vs False buffer) = (out, left)"
  shows "redact_from vs (buffer @ future) = out @ redact_from vs (left @ future)"
    and "sanitizeUtf16ForJson (out @ redact_from vs (left @ future))
      = sanitizeUtf16ForJson out @ sanitizeUtf16ForJson (redact_from vs (left @ future))"
proof -
  obtain o' l' where raw: "drain_raw vs False buffer = (o', l')" by fastforce
  have open_end: "redact_from vs (buffer @ future) = o' @ redact_from vs (l' @ future) \<and>
      (endsWithHighSurrogate o' \<longrightarrow> find (secretAt (last o' # l' @ future)) vs = None)"
  proof (cases "vs = []")
    case True
    then show ?thesis using raw by (simp add: drain_raw_def)
  next
    case False
    have "length buffer - max_length vs = 0 \<or>
        length buffer - max_length vs + max_length vs \<le> length buffer" by auto
    then show ?thesis
      using drain_loop_open [OF assms(1), of False "length buffer - max_length vs" buffer o' l' future]
        raw False
      by (simp add: drain_raw_def)
  qed
  show "redact_from vs (buffer @ future) = out @ redact_from vs (left @ future)"
    and "sanitizeUtf16ForJson (out @ redact_from vs (left @ future))
      = sanitizeUtf16ForJson out @ sanitizeUtf16ForJson (redact_from vs (left @ future))"
  proof (atomize (full), cases "endsWithHighSurrogate o'")
    case True
    then have held: "out = butlast o'" "left = last o' # l'" and ne: "o' \<noteq> []"
      using assms(2) raw by (auto simp: hold_back_def endsWithHighSurrogate_def)
    have rest: "redact_from vs (left @ future) = last o' # redact_from vs (l' @ future)"
      using open_end True held(2) by simp
    have "\<not> low_surrogate (last o')" using True high_not_low by (simp add: endsWithHighSurrogate_def)
    then have "sanitizeUtf16ForJson (out @ redact_from vs (left @ future))
        = sanitizeUtf16ForJson out @ sanitizeUtf16ForJson (redact_from vs (left @ future))"
      by (intro sanitize_append) (simp only: rest list.sel list.distinct simp_thms)
    moreover have "redact_from vs (buffer @ future) = out @ redact_from vs (left @ future)"
      using open_end ne by (simp only: rest held(1)) simp
    ultimately show "redact_from vs (buffer @ future) = out @ redact_from vs (left @ future) \<and>
        sanitizeUtf16ForJson (out @ redact_from vs (left @ future))
        = sanitizeUtf16ForJson out @ sanitizeUtf16ForJson (redact_from vs (left @ future))"
      by blast
  next
    case False
    then show "redact_from vs (buffer @ future) = out @ redact_from vs (left @ future) \<and>
        sanitizeUtf16ForJson (out @ redact_from vs (left @ future))
        = sanitizeUtf16ForJson out @ sanitizeUtf16ForJson (redact_from vs (left @ future))"
      using open_end assms(2) raw by (auto simp: hold_back_def intro: sanitize_append)
  qed
qed

lemma stream_output_redacts:
  "stream_secrets (redactor_values r) \<Longrightarrow>
   stream_output r chunks
     = sanitizeUtf16ForJson (redact_from (redactor_values r) (redactor_buffer r @ concat chunks))"
proof (induction chunks arbitrary: r)
  case Nil
  then show ?case
    using drain_loop_final [of "redactor_values r" "redactor_buffer r"]
    by (simp add: finish_def drain_def drain_raw_def hold_back_def)
next
  case (Cons chunk chunks)
  let ?vs = "redactor_values r" and ?buf = "redactor_buffer r @ chunk"
  obtain out left where ol: "hold_back False (drain_raw ?vs False ?buf) = (out, left)" by fastforce
  have push: "push chunk r = (sanitizeUtf16ForJson out, r\<lparr>redactor_buffer := left\<rparr>)"
    using ol by (simp add: push_def drain_def)
  have "stream_output (r\<lparr>redactor_buffer := left\<rparr>) chunks
      = sanitizeUtf16ForJson (redact_from ?vs (left @ concat chunks))"
    using Cons.IH [of "r\<lparr>redactor_buffer := left\<rparr>"] Cons.prems by simp
  then show ?case
    using push hold_back_open [OF Cons.prems ol, of "concat chunks"] by simp
qed

text \<open>C9. However the text is cut into chunks, the redactor's outputs joined together are the repaired
  redaction of the whole text, so a secret split between chunks is redacted like any other; secrets
  that start with the second half of a surrogate pair are excepted.\<close>

theorem stream_redacts_like_text:
  assumes "\<forall>secret \<in> set secrets. secret \<noteq> [] \<longrightarrow> \<not> low_surrogate (hd secret)"
  shows "stream_output (createStreamingRedactor secrets) chunks
    = sanitizeUtf16ForJson (redactSecrets (concat chunks) secrets)"
proof -
  have "stream_secrets (active_secrets secrets)"
    using assms active_length_le [of _ secrets] by (auto simp: stream_secrets_def)
  then show ?thesis
    using stream_output_redacts [of "createStreamingRedactor secrets" chunks]
    by (simp add: createStreamingRedactor_def redactSecrets_def)
qed

lemma stream_redacts_like_text_witness:
  "stream_output (createStreamingRedactor [js ''sk-12'']) [js ''a sk'', js ''-1'', js ''2 b'']
     = js ''a [redacted] b''"
proof -
  have "stream_output (createStreamingRedactor [js ''sk-12'']) [js ''a sk'', js ''-1'', js ''2 b'']
      = sanitizeUtf16ForJson (redactSecrets (concat [js ''a sk'', js ''-1'', js ''2 b'']) [js ''sk-12''])"
    by (rule stream_redacts_like_text) (simp add: js_def low_surrogate_def)
  also have "\<dots> = js ''a [redacted] b''" by code_simp
  finally show ?thesis .
qed

end
