(* ===== verification/Live_Blocks.thy ===== *)
theory Live_Blocks
  imports JsPattern Json
begin

text \<open>
  The live draft of a reply (\<open>packages/core/src/events.ts\<close>): how each progress update and each tool
  call of a running turn changes the blocks a reader sees. Blocks the reducer only passes through
  are \<open>Other\<close>. An update's payload is plain JSON, \<open>None\<close> where it is undefined. The case mappings of
  Unicode are a parameter. The main results follow the two promises the code's comments make: a
  held tool call becomes a step exactly once and is never dropped, and the reply's text changes
  only by the narration that arrives.
\<close>

section \<open>Blocks\<close>

record progress_block =
  prog_text :: js_string
  prog_activity :: bool
  prog_reasoning :: bool
  prog_streaming :: bool
  pendingToolNames :: "js_string list option"

record tool_step =
  step_label :: js_string
  step_count :: nat

datatype agent_status = Agent_running | Agent_completed | Agent_failed | Agent_finished | Agent_cancelled

record subagent_block =
  sub_agentId :: js_string
  sub_name :: js_string
  sub_task :: js_string
  sub_status :: agent_status
  sub_progress :: "js_string option"
  sub_result :: "js_string option"

record cloud_agent_block =
  cloud_agentId :: js_string
  cloud_title :: js_string
  cloud_status :: agent_status
  cloud_url :: js_string
  cloud_branch :: "js_string option"
  cloud_prUrl :: "js_string option"
  cloud_latestRunId :: "js_string option"

datatype block =
    Text js_string "json option"
  | Progress progress_block
  | Steps "tool_step list" "nat option"
  | Subagent subagent_block
  | Cloud_agent cloud_agent_block
  | Other json

record case_map =
  toLowerCase :: "js_string \<Rightarrow> js_string"
  toUpperCase :: "js_string \<Rightarrow> js_string"

section \<open>Reading payloads\<close>

text \<open>\<open>String(value)\<close>. An object that hides \<open>toString\<close> behind a property of its own is outside the
  model.\<close>

fun js_String :: "json \<Rightarrow> js_string" where
  "js_String Null = js ''null''"
| "js_String (Bool b) = (if b then js ''true'' else js ''false'')"
| "js_String (Number (Num r)) = number_to_string r"
| "js_String (Number NaN) = js ''NaN''"
| "js_String (Number (Infty neg)) = (if neg then js ''-Infinity'' else js ''Infinity'')"
| "js_String (String s) = s"
| "js_String (Array vs) = join [44] (map (\<lambda>v. if v = Null then [] else js_String v) vs)"
| "js_String (Object _) = js ''[object Object]''"

definition field :: "json option \<Rightarrow> string \<Rightarrow> json option" where
  "field payload k = (case payload of None \<Rightarrow> None | Some v \<Rightarrow> own v (js k))"

text \<open>\<open>String(payload.k ?? fallback)\<close>\<close>

definition string_or :: "json option \<Rightarrow> string \<Rightarrow> js_string \<Rightarrow> js_string" where
  "string_or payload k fallback =
     (case field payload k of None \<Rightarrow> fallback | Some Null \<Rightarrow> fallback | Some v \<Rightarrow> js_String v)"

definition flag :: "json option \<Rightarrow> string \<Rightarrow> bool" where
  "flag payload k \<longleftrightarrow> field payload k = Some (Bool True)"

definition delta_of :: "json option \<Rightarrow> js_string option" where
  "delta_of payload = (case field payload ''delta'' of Some (String d) \<Rightarrow> Some d | _ \<Rightarrow> None)"

section \<open>Steps and segments\<close>

definition humanizeToolName :: "case_map \<Rightarrow> js_string \<Rightarrow> js_string" where
  "humanizeToolName cm name =
     (let spaced = trim (map (\<lambda>c. if c = 95 then 32 else c) name) in
      if spaced = [] then name
      else let lower = toLowerCase cm spaced in toUpperCase cm (take 1 lower) @ drop 1 lower)"

definition appendToolStep :: "case_map \<Rightarrow> tool_step list \<Rightarrow> js_string \<Rightarrow> tool_step list" where
  "appendToolStep cm steps toolName =
     (let label = humanizeToolName cm toolName in
      if steps \<noteq> [] \<and> step_label (last steps) = label
      then butlast steps @ [\<lparr>step_label = label, step_count = step_count (last steps) + 1\<rparr>]
      else steps @ [\<lparr>step_label = label, step_count = 1\<rparr>])"

definition appendTextSegment :: "block list \<Rightarrow> js_string \<Rightarrow> block list" where
  "appendTextSegment segments txt =
     (if txt = [] then segments
      else case (if segments = [] then None else Some (last segments)) of
        Some (Text t notice) \<Rightarrow> butlast segments @ [Text (t @ txt) None]
      | _ \<Rightarrow> segments @ [Text txt None])"

definition appendToolCallSegment :: "case_map \<Rightarrow> block list \<Rightarrow> js_string \<Rightarrow> block list" where
  "appendToolCallSegment cm segments toolName =
     (case (if segments = [] then None else Some (last segments)) of
        Some (Steps steps duration) \<Rightarrow> butlast segments @ [Steps (appendToolStep cm steps toolName) None]
      | _ \<Rightarrow> segments @ [Steps (appendToolStep cm [] toolName) None])"

definition append_calls :: "case_map \<Rightarrow> block list \<Rightarrow> js_string list \<Rightarrow> block list" where
  "append_calls cm segments names = foldl (appendToolCallSegment cm) segments names"

text \<open>A full stop, exclamation or question mark, then closing quotes and brackets, then white space.\<close>

definition sentence_end :: pat where
  "sentence_end = p_seqs
     [p_unit (\<lambda>c. c \<in> {46, 33, 63}), p_star (\<lambda>c. c \<in> {34, 39, 0x201D, 0x2019, 41, 93}),
      p_star is_space, p_eol]"

definition endsSentence :: "js_string \<Rightarrow> bool" where
  "endsSentence s \<longleftrightarrow> trim s = [] \<or> regex_test sentence_end s"

section \<open>One update\<close>

datatype category = Activity | Reasoning | Narration

definition category_of :: "bool \<Rightarrow> bool \<Rightarrow> category" where
  "category_of activity reasoning = (if activity then Activity else if reasoning then Reasoning else Narration)"

definition progressCategory :: "progress_block \<Rightarrow> category" where
  "progressCategory p = category_of (prog_activity p) (prog_reasoning p)"

datatype live_update = Progress_update "json option" | Tool_update js_string

definition payload_category :: "json option \<Rightarrow> category" where
  "payload_category payload = category_of (flag payload ''activity'') (flag payload ''reasoning'')"

definition dropPendingToolNames :: "progress_block \<Rightarrow> progress_block" where
  "dropPendingToolNames p = p\<lparr>pendingToolNames := None, prog_streaming := False\<rparr>"

definition held_names :: "progress_block \<Rightarrow> js_string list" where
  "held_names p = (case pendingToolNames p of None \<Rightarrow> [] | Some names \<Rightarrow> names)"

fun reply_part :: "block \<Rightarrow> js_string" where
  "reply_part (Text t _) = t"
| "reply_part (Progress p) = (if progressCategory p = Narration then prog_text p else [])"
| "reply_part _ = []"

definition replyText :: "block list \<Rightarrow> js_string" where
  "replyText blocks = concat (map reply_part blocks)"

text \<open>A later reply segment replaces the text shown so far; steps and reasoning stay.\<close>

definition restarts :: "block list \<Rightarrow> json option \<Rightarrow> bool" where
  "restarts blocks payload \<longleftrightarrow>
     delta_of payload = None \<and> flag payload ''streaming'' \<and> payload_category payload = Narration \<and>
     replyText blocks \<noteq> [] \<and> \<not> startsWith (string_or payload ''text'' []) (replyText blocks)"

fun keep_block :: "case_map \<Rightarrow> block list \<Rightarrow> block \<Rightarrow> block list" where
  "keep_block cm kept (Text _ _) = kept"
| "keep_block cm kept (Progress p) =
     append_calls cm kept (held_names p) @
     (if prog_reasoning p then [Progress (p\<lparr>pendingToolNames := None\<rparr>)] else [])"
| "keep_block cm kept b = kept @ [b]"

definition plain_progress :: "js_string \<Rightarrow> progress_block" where
  "plain_progress t = \<lparr>prog_text = t, prog_activity = False, prog_reasoning = False,
     prog_streaming = False, pendingToolNames = None\<rparr>"

definition restart_reply :: "case_map \<Rightarrow> block list \<Rightarrow> js_string \<Rightarrow> block list" where
  "restart_reply cm blocks incoming =
     (let kept = foldl (keep_block cm) [] blocks in
      if incoming = [] then kept
      else kept @ [Progress ((plain_progress incoming)\<lparr>prog_streaming := True\<rparr>)])"

definition tail_progress :: "block list \<Rightarrow> progress_block option" where
  "tail_progress blocks =
     (if blocks = [] then None else case last blocks of Progress p \<Rightarrow> Some p | _ \<Rightarrow> None)"

text \<open>What stands before the block an update writes, once a tail of another category is sealed.\<close>

definition sealed_segments :: "case_map \<Rightarrow> block list \<Rightarrow> progress_block \<Rightarrow> category \<Rightarrow> block list" where
  "sealed_segments cm blocks t updateCategory =
     (let flushEarly = (updateCategory \<noteq> Activity \<and> held_names t \<noteq> []);
          carriedNames = (if flushEarly then [] else held_names t);
          reservedReplyText =
            (updateCategory = Activity \<and> progressCategory t = Narration \<and> prog_streaming t);
          segments =
            (if reservedReplyText then appendTextSegment (butlast blocks) (prog_text t)
             else if carriedNames \<noteq> [] \<or> flushEarly
             then butlast blocks @ [Progress (dropPendingToolNames t)]
             else butlast blocks @ [Progress (t\<lparr>prog_streaming := False\<rparr>)])
      in if flushEarly then append_calls cm segments (held_names t) else segments)"

text \<open>The end of an update: held names become steps at a sentence end or on a finished reasoning
  title, otherwise the block stays open and keeps them.\<close>

definition write_tail ::
    "case_map \<Rightarrow> block list \<Rightarrow> category \<Rightarrow> js_string \<Rightarrow> js_string list \<Rightarrow> bool \<Rightarrow> bool \<Rightarrow> bool \<Rightarrow> block list" where
  "write_tail cm segments category tailText names namesAreCarried isTool streaming =
     (let reasoningClosed = (isTool \<and> category = Reasoning \<and> trim tailText \<noteq> []) in
      if names \<noteq> [] \<and> (endsSentence tailText \<or> reasoningClosed)
      then append_calls cm
        (if category = Narration then appendTextSegment segments tailText
         else if category = Reasoning \<and> trim tailText \<noteq> []
         then segments @ [Progress ((plain_progress tailText)\<lparr>prog_reasoning := True\<rparr>)]
         else if category = Activity \<and> namesAreCarried \<and> trim tailText \<noteq> []
         then segments @ [Progress ((plain_progress tailText)\<lparr>prog_activity := True\<rparr>)]
         else segments) names
      else if tailText = [] then segments
      else segments @ [Progress
        \<lparr>prog_text = tailText, prog_activity = (category = Activity), prog_reasoning = (category = Reasoning),
         prog_streaming = streaming, pendingToolNames = (if names = [] then None else Some names)\<rparr>])"

definition reduce_tool :: "case_map \<Rightarrow> block list \<Rightarrow> js_string \<Rightarrow> block list" where
  "reduce_tool cm blocks name =
     (case tail_progress blocks of
        None \<Rightarrow> write_tail cm blocks Narration [] [name] False True False
      | Some t \<Rightarrow> write_tail cm (butlast blocks) (progressCategory t) (prog_text t)
          (held_names t @ [name]) False True False)"

definition reduce_progress :: "case_map \<Rightarrow> block list \<Rightarrow> json option \<Rightarrow> block list" where
  "reduce_progress cm blocks payload =
     (let tailProgress = tail_progress blocks;
          category = payload_category payload;
          delta = delta_of payload;
          textPayload = string_or payload ''text'' [];
          streaming = (flag payload ''streaming'' \<and> category = Narration);
          held = (case tailProgress of None \<Rightarrow> [] | Some t \<Rightarrow> held_names t)
      in if delta = None \<and> trim textPayload = [] \<and> held \<noteq> [] then
           (case tailProgress of
              Some t \<Rightarrow> if category = Activity \<and> progressCategory t = Activity
                        then append_calls cm (butlast blocks) held else blocks
            | None \<Rightarrow> blocks)
         else case tailProgress of
           None \<Rightarrow> write_tail cm blocks category (case delta of Some d \<Rightarrow> d | None \<Rightarrow> textPayload)
             [] False False streaming
         | Some t \<Rightarrow>
             if progressCategory t \<noteq> category then
               write_tail cm (sealed_segments cm blocks t category) category
                 (case delta of Some d \<Rightarrow> d | None \<Rightarrow> textPayload)
                 (if category = Activity then held else []) (category = Activity \<and> held \<noteq> []) False streaming
             else write_tail cm (butlast blocks) category
               (case delta of
                  Some d \<Rightarrow> prog_text t @ d
                | None \<Rightarrow> if category = Narration then prog_text t @ textPayload else textPayload)
               held False False streaming)"

fun reduceLiveMessageBlocks :: "case_map \<Rightarrow> block list \<Rightarrow> live_update \<Rightarrow> block list" where
  "reduceLiveMessageBlocks cm blocks (Tool_update name) = reduce_tool cm blocks name"
| "reduceLiveMessageBlocks cm blocks (Progress_update payload) =
     (if restarts blocks payload then restart_reply cm blocks (string_or payload ''text'' [])
      else reduce_progress cm blocks payload)"

section \<open>Steps are counted once\<close>

definition label_count :: "case_map \<Rightarrow> js_string \<Rightarrow> js_string list \<Rightarrow> nat" where
  "label_count cm label names = length (filter (\<lambda>n. humanizeToolName cm n = label) names)"

definition step_total :: "js_string \<Rightarrow> tool_step list \<Rightarrow> nat" where
  "step_total label steps = sum_list (map step_count (filter (\<lambda>s. step_label s = label) steps))"

text \<open>How often a tool label stands in the blocks: as counted steps and as names still held.\<close>

fun block_calls :: "case_map \<Rightarrow> js_string \<Rightarrow> block \<Rightarrow> nat" where
  "block_calls cm label (Steps steps _) = step_total label steps"
| "block_calls cm label (Progress p) = label_count cm label (held_names p)"
| "block_calls cm label _ = 0"

definition shown_calls :: "case_map \<Rightarrow> js_string \<Rightarrow> block list \<Rightarrow> nat" where
  "shown_calls cm label blocks = sum_list (map (block_calls cm label) blocks)"

named_theorems draft_simps \<open>how calls and reply text distribute over blocks\<close>

lemma shown_calls_simps [draft_simps]:
  "shown_calls cm label [] = 0"
  "shown_calls cm label (b # bs) = block_calls cm label b + shown_calls cm label bs"
  "shown_calls cm label (as @ bs) = shown_calls cm label as + shown_calls cm label bs"
  by (simp_all add: shown_calls_def)

lemma replyText_simps [draft_simps]:
  "replyText [] = []"
  "replyText (b # bs) = reply_part b @ replyText bs"
  "replyText (as @ bs) = replyText as @ replyText bs"
  by (simp_all add: replyText_def)

lemma label_count_simps [draft_simps]:
  "label_count cm label [] = 0"
  "label_count cm label (n # ns) = (if humanizeToolName cm n = label then 1 else 0) + label_count cm label ns"
  "label_count cm label (ms @ ns) = label_count cm label ms + label_count cm label ns"
  by (simp_all add: label_count_def)

lemma held_names_simps [draft_simps]:
  "held_names (p\<lparr>pendingToolNames := None\<rparr>) = []"
  "held_names (p\<lparr>prog_streaming := b\<rparr>) = held_names p"
  "held_names (p\<lparr>prog_reasoning := b\<rparr>) = held_names p"
  "held_names (p\<lparr>prog_activity := b\<rparr>) = held_names p"
  "held_names (dropPendingToolNames p) = []"
  "held_names (plain_progress t) = []"
  by (simp_all add: held_names_def dropPendingToolNames_def plain_progress_def)

lemma category_simps [draft_simps]:
  "progressCategory (p\<lparr>pendingToolNames := n\<rparr>) = progressCategory p"
  "progressCategory (p\<lparr>prog_streaming := b\<rparr>) = progressCategory p"
  "progressCategory (dropPendingToolNames p) = progressCategory p"
  "progressCategory (plain_progress t) = Narration"
  "progressCategory ((plain_progress t)\<lparr>prog_reasoning := True\<rparr>) = Reasoning"
  "progressCategory ((plain_progress t)\<lparr>prog_activity := True\<rparr>) = Activity"
  by (simp_all add: progressCategory_def category_of_def dropPendingToolNames_def plain_progress_def)

lemma text_simps [draft_simps]:
  "prog_text (dropPendingToolNames p) = prog_text p"
  "prog_text (plain_progress t) = t"
  by (simp_all add: dropPendingToolNames_def plain_progress_def)

lemma step_total_appendToolStep:
  "step_total label (appendToolStep cm steps name)
     = step_total label steps + (if humanizeToolName cm name = label then 1 else 0)"
  by (cases steps rule: rev_cases) (auto simp: appendToolStep_def step_total_def Let_def)

lemma calls_appendToolCallSegment [draft_simps]:
  "shown_calls cm label (appendToolCallSegment cm segs name)
     = shown_calls cm label segs + (if humanizeToolName cm name = label then 1 else 0)"
proof (cases segs rule: rev_cases)
  case Nil
  have "step_total label [] = 0" by (simp add: step_total_def)
  then show ?thesis using Nil
    by (simp add: appendToolCallSegment_def draft_simps step_total_appendToolStep)
next
  case (snoc bs b)
  have "step_total label [] = 0" by (simp add: step_total_def)
  then show ?thesis using snoc
    by (cases b) (simp_all add: appendToolCallSegment_def draft_simps step_total_appendToolStep)
qed

lemma reply_appendToolCallSegment [draft_simps]:
  "replyText (appendToolCallSegment cm segs name) = replyText segs"
proof (cases segs rule: rev_cases)
  case (snoc bs b)
  then show ?thesis by (cases b) (simp_all add: appendToolCallSegment_def draft_simps)
qed (simp add: appendToolCallSegment_def draft_simps)

lemma append_calls_draft [draft_simps]:
  "shown_calls cm label (append_calls cm segs names) = shown_calls cm label segs + label_count cm label names"
  "replyText (append_calls cm segs names) = replyText segs"
  unfolding append_calls_def
  by (induction names arbitrary: segs) (simp_all add: draft_simps)

lemma appendTextSegment_draft [draft_simps]:
  "shown_calls cm label (appendTextSegment segs t) = shown_calls cm label segs"
  "replyText (appendTextSegment segs t) = replyText segs @ t"
proof -
  show "shown_calls cm label (appendTextSegment segs t) = shown_calls cm label segs"
  proof (cases segs rule: rev_cases)
    case (snoc bs b)
    then show ?thesis by (cases b) (simp_all add: appendTextSegment_def draft_simps)
  qed (simp add: appendTextSegment_def draft_simps)
  show "replyText (appendTextSegment segs t) = replyText segs @ t"
  proof (cases segs rule: rev_cases)
    case (snoc bs b)
    then show ?thesis by (cases b) (simp_all add: appendTextSegment_def draft_simps)
  qed (simp add: appendTextSegment_def draft_simps)
qed

lemma endsSentence_blank: "trim t = [] \<Longrightarrow> endsSentence t"
  by (simp add: endsSentence_def)

lemma write_tail_calls [draft_simps]:
  "shown_calls cm label (write_tail cm segs category t names carried isTool streaming)
     = shown_calls cm label segs + label_count cm label names"
  using endsSentence_blank [of t]
  by (auto simp: write_tail_def draft_simps Let_def plain_progress_def held_names_def)

lemma write_tail_reply [draft_simps]:
  "replyText (write_tail cm segs category t names carried isTool streaming)
     = replyText segs @ (if category = Narration then t else [])"
  by (cases category)
    (auto simp: write_tail_def draft_simps Let_def progressCategory_def category_of_def)

lemma tail_progress_SomeD: "tail_progress blocks = Some t \<Longrightarrow> blocks = butlast blocks @ [Progress t]"
  by (cases blocks rule: rev_cases) (auto simp: tail_progress_def split: block.splits if_splits)

lemma tail_calls:
  assumes "tail_progress blocks = Some t"
  shows "shown_calls cm label blocks = shown_calls cm label (butlast blocks) + label_count cm label (held_names t)"
    and "replyText blocks = replyText (butlast blocks) @ (if progressCategory t = Narration then prog_text t else [])"
  by (subst tail_progress_SomeD [OF assms], simp add: draft_simps)+

lemma sealed_segments_draft:
  assumes "tail_progress blocks = Some t" and "progressCategory t \<noteq> category"
  shows "shown_calls cm label (sealed_segments cm blocks t category)
      + label_count cm label (if category = Activity then held_names t else []) = shown_calls cm label blocks"
    and "replyText (sealed_segments cm blocks t category) = replyText blocks"
  using assms(2) tail_calls [OF assms(1)]
  by (auto simp: sealed_segments_def Let_def draft_simps)

lemma keep_block_draft:
  "shown_calls cm label (keep_block cm kept b) = shown_calls cm label kept + block_calls cm label b"
  "replyText kept = [] \<Longrightarrow> replyText (keep_block cm kept b) = []"
  by (cases b; simp add: draft_simps progressCategory_def category_of_def)+

lemma keep_blocks_draft:
  "shown_calls cm label (foldl (keep_block cm) kept blocks) = shown_calls cm label kept + shown_calls cm label blocks"
  "replyText kept = [] \<Longrightarrow> replyText (foldl (keep_block cm) kept blocks) = []"
  by (induction blocks arbitrary: kept) (simp_all add: draft_simps keep_block_draft)

lemma restart_reply_draft [draft_simps]:
  "shown_calls cm label (restart_reply cm blocks incoming) = shown_calls cm label blocks"
  "replyText (restart_reply cm blocks incoming) = incoming"
  using keep_blocks_draft [where kept = "[]" and blocks = blocks and cm = cm]
  by (simp_all add: restart_reply_def Let_def draft_simps)

lemma reduce_tool_draft [draft_simps]:
  "shown_calls cm label (reduce_tool cm blocks name)
     = shown_calls cm label blocks + (if humanizeToolName cm name = label then 1 else 0)"
  "replyText (reduce_tool cm blocks name) = replyText blocks"
  by (auto simp: reduce_tool_def draft_simps tail_calls split: option.splits)

lemma reduce_progress_calls [draft_simps]:
  "shown_calls cm label (reduce_progress cm blocks payload) = shown_calls cm label blocks"
proof (cases "tail_progress blocks")
  case None
  then show ?thesis by (simp add: reduce_progress_def Let_def draft_simps)
next
  case (Some t)
  note parts = tail_calls(1) [OF Some, of cm label]
    sealed_segments_draft(1) [OF Some, of "payload_category payload" cm label]
  show ?thesis using Some parts by (auto simp: reduce_progress_def Let_def draft_simps)
qed

text \<open>The narration an update that does not restart the reply adds to it. A blank title is ignored
  while the tail holds names.\<close>

definition added_narration :: "block list \<Rightarrow> json option \<Rightarrow> js_string" where
  "added_narration blocks payload =
     (if payload_category payload \<noteq> Narration then []
      else case delta_of payload of
        Some d \<Rightarrow> d
      | None \<Rightarrow>
          let t = string_or payload ''text'' [];
              held = (case tail_progress blocks of None \<Rightarrow> [] | Some p \<Rightarrow> held_names p)
          in if trim t = [] \<and> held \<noteq> [] then [] else t)"

lemma reduce_progress_reply [draft_simps]:
  "replyText (reduce_progress cm blocks payload) = replyText blocks @ added_narration blocks payload"
proof (cases "tail_progress blocks")
  case None
  then show ?thesis
    by (simp add: reduce_progress_def added_narration_def Let_def draft_simps split: option.splits)
next
  case (Some t)
  note parts = tail_calls(2) [OF Some] sealed_segments_draft(2) [OF Some, of "payload_category payload" cm]
  show ?thesis
    using Some parts
    by (auto simp: reduce_progress_def added_narration_def Let_def draft_simps split: option.splits)
qed

text \<open>C12. Each tool call shows exactly once: an update changes how often a label stands in the draft,
  as counted steps and as names still held, only by the one call it reports. Nothing is dropped or
  doubled when a tail is sealed, a title is cleared, names are carried over or the reply restarts.\<close>

theorem tool_calls_shown_once:
  "shown_calls cm label (reduceLiveMessageBlocks cm blocks update)
     = shown_calls cm label blocks +
       (case update of Tool_update name \<Rightarrow> if humanizeToolName cm name = label then 1 else 0
                     | Progress_update _ \<Rightarrow> 0)"
  by (cases update) (simp_all add: draft_simps)

text \<open>C27. The reply's text: a tool call, an activity line and a reasoning summary leave it unchanged;
  narration is added at its end; and only streamed absolute text that does not continue what is shown
  replaces it.\<close>

theorem reply_text_after_update:
  "replyText (reduceLiveMessageBlocks cm blocks update) =
     (case update of
        Tool_update _ \<Rightarrow> replyText blocks
      | Progress_update payload \<Rightarrow>
          if restarts blocks payload then string_or payload ''text'' []
          else replyText blocks @ added_narration blocks payload)"
  by (cases update) (simp_all add: draft_simps)

text \<open>Streamed absolute text that does continue what is shown is added whole, so what is shown is
  repeated.\<close>

theorem continued_text_repeats:
  "replyText (reduceLiveMessageBlocks \<lparr>toLowerCase = (\<lambda>s. s), toUpperCase = (\<lambda>s. s)\<rparr>
     [Progress ((plain_progress (js ''Hel''))\<lparr>prog_streaming := True\<rparr>)]
     (Progress_update (Some (Object [(js ''text'', String (js ''Hello'')), (js ''streaming'', Bool True)]))))
   = js ''HelHello''"
  by code_simp

end
