(* ===== verification/Thread_View.thy ===== *)
theory Thread_View
  imports Live_Blocks "HOL-Library.AList"
begin

text \<open>
  What a reader sees of a thread: the projection of its events into messages
  (\<open>projectMessages\<close> of \<open>packages/core/src/events.ts\<close>), with the block of a cloud agent
  (\<open>packages/core/src/cloud-agent.ts\<close>), and the merging of message pages on the client
  (\<open>packages/core/src/message-pages.ts\<close>). A JavaScript \<open>Map\<close> keyed by strings is an association
  list in insertion order. Event times are the ISO text; absent and null ids are \<open>None\<close>. The URL
  parser and the case mappings are parameters.
\<close>

section \<open>Events and messages\<close>

text \<open>The events the projection reads, by type; the payload of a created message is typed by the
  contract, the others are plain JSON.\<close>

datatype event_body =
    Message_created "js_string option" "js_string option" "block list option"
  | Cloud_agent_event json
  | Progress_event json
  | Tool_called json
  | Thread_cleared
  | Subagent_event json
  | Run_completed | Run_failed json | Run_cancelled
  | Other_event

record event =
  ev_id :: js_string
  ev_threadId :: js_string
  ev_seq :: nat
  ev_runId :: "js_string option"
  ev_botId :: "js_string option"
  ev_createdAt :: js_string
  ev_body :: event_body

record message =
  msg_id :: js_string
  msg_threadId :: js_string
  msg_seq :: nat
  msg_role :: js_string
  msg_blocks :: "block list"
  msg_botId :: "js_string option"
  msg_runId :: "js_string option"
  msg_createdAt :: js_string

definition asRecord :: "json \<Rightarrow> json option" where
  "asRecord v = Some (if is_object v then v else Object [])"

definition progressMessageId :: "event \<Rightarrow> js_string" where
  "progressMessageId e =
     js ''progress:'' @ (case ev_runId e of Some r \<Rightarrow> r | None \<Rightarrow> ev_id e)"

fun isRunTerminalEvent :: "event_body \<Rightarrow> bool" where
  "isRunTerminalEvent Run_completed = True"
| "isRunTerminalEvent (Run_failed _) = True"
| "isRunTerminalEvent Run_cancelled = True"
| "isRunTerminalEvent _ = False"

definition run_failure_error_max :: nat where
  "run_failure_error_max = 300"

text \<open>The reason a run failed, cut for display with an ellipsis.\<close>

definition runFailureError :: "event_body \<Rightarrow> js_string option" where
  "runFailureError body =
     (case body of
        Run_failed payload \<Rightarrow>
          (case own payload (js ''error'') of
             Some (String error) \<Rightarrow>
               let message = trim error in
               if message = [] then None
               else Some (if run_failure_error_max < length message
                          then take run_failure_error_max message @ [0x2026] else message)
           | _ \<Rightarrow> None)
      | _ \<Rightarrow> None)"

section \<open>Agent cards\<close>

text \<open>Whether a property is truthy; then it is read as text.\<close>

fun truthy :: "json option \<Rightarrow> bool" where
  "truthy None = False"
| "truthy (Some Null) = False"
| "truthy (Some (Bool b)) = b"
| "truthy (Some (Number (Num r))) = (r \<noteq> 0)"
| "truthy (Some (Number NaN)) = False"
| "truthy (Some (String s)) = (s \<noteq> [])"
| "truthy (Some _) = True"

definition truthy_text :: "json option \<Rightarrow> string \<Rightarrow> js_string option" where
  "truthy_text payload k =
     (case field payload k of
        Some v \<Rightarrow> if truthy (Some v) then Some (js_String v) else None
      | None \<Rightarrow> None)"

definition status_in :: "(string \<times> agent_status) list \<Rightarrow> json option \<Rightarrow> agent_status" where
  "status_in table payload =
     (case field payload ''status'' of
        Some (String s) \<Rightarrow>
          (case find (\<lambda>row. js (fst row) = s) table of Some row \<Rightarrow> snd row | None \<Rightarrow> Agent_running)
      | _ \<Rightarrow> Agent_running)"

definition subagentBlockFromPayload :: "json option \<Rightarrow> subagent_block" where
  "subagentBlockFromPayload payload =
     \<lparr>sub_agentId = string_or payload ''agentId'' [],
      sub_name = string_or payload ''name'' (js ''subagent''),
      sub_task = string_or payload ''task'' [],
      sub_status = status_in [(''completed'', Agent_completed), (''failed'', Agent_failed)] payload,
      sub_progress = truthy_text payload ''progress'',
      sub_result = truthy_text payload ''result''\<rparr>"

definition cloudAgentHttpsUrl :: "(js_string \<Rightarrow> parsed_url option) \<Rightarrow> js_string \<Rightarrow> js_string option" where
  "cloudAgentHttpsUrl parse_url value =
     (if value = [] then None
      else case parse_url value of
        None \<Rightarrow> None
      | Some url \<Rightarrow>
          if protocol url = js ''https:'' \<and> username url = [] \<and> password url = [] then Some value else None)"

definition cloudAgentBlockFromPayload ::
    "(js_string \<Rightarrow> parsed_url option) \<Rightarrow> json option \<Rightarrow> cloud_agent_block" where
  "cloudAgentBlockFromPayload parse_url payload =
     \<lparr>cloud_agentId = string_or payload ''agentId'' [],
      cloud_title = string_or payload ''title'' (js ''Cloud agent''),
      cloud_status = status_in
        [(''finished'', Agent_finished), (''failed'', Agent_failed), (''cancelled'', Agent_cancelled)] payload,
      cloud_url = (case cloudAgentHttpsUrl parse_url (string_or payload ''url'' []) of
          Some u \<Rightarrow> u | None \<Rightarrow> []),
      cloud_branch = truthy_text payload ''branch'',
      cloud_prUrl = cloudAgentHttpsUrl parse_url (string_or payload ''prUrl'' []),
      cloud_latestRunId = truthy_text payload ''latestRunId''\<rparr>"

section \<open>The projection\<close>

record view =
  view_messages :: "message list"
  view_live :: "(js_string \<times> message) list"
  view_subagents :: "(js_string \<times> message) list"
  view_durable :: "js_string list"

definition empty_view :: view where
  "empty_view = \<lparr>view_messages = [], view_live = [], view_subagents = [], view_durable = []\<rparr>"

definition bot_message :: "event \<Rightarrow> js_string \<Rightarrow> block list \<Rightarrow> message" where
  "bot_message e i blocks =
     \<lparr>msg_id = i, msg_threadId = ev_threadId e, msg_seq = ev_seq e, msg_role = js ''bot'',
      msg_blocks = blocks, msg_botId = ev_botId e, msg_runId = ev_runId e, msg_createdAt = ev_createdAt e\<rparr>"

definition clearLive :: "event \<Rightarrow> view \<Rightarrow> view" where
  "clearLive e v =
     (if falsy (ev_runId e) then v\<lparr>view_live := []\<rparr>
      else v\<lparr>view_live := AList.delete (progressMessageId e) (view_live v)\<rparr>)"

text \<open>The draft an update belongs to: the one already open, or a new one with this event's ids.\<close>

definition live_projection :: "event \<Rightarrow> view \<Rightarrow> message" where
  "live_projection e v =
     (case map_of (view_live v) (progressMessageId e) of
        Some live \<Rightarrow> live
      | None \<Rightarrow> bot_message e (progressMessageId e) [])"

definition live_step :: "case_map \<Rightarrow> event \<Rightarrow> live_update \<Rightarrow> view \<Rightarrow> view" where
  "live_step cm e update v =
     (let live = live_projection e v in
      v\<lparr>view_live := AList.update (progressMessageId e)
          (live\<lparr>msg_blocks := reduceLiveMessageBlocks cm (msg_blocks live) update,
             msg_seq := ev_seq e, msg_botId := ev_botId e, msg_createdAt := ev_createdAt e\<rparr>)
          (view_live v)\<rparr>)"

fun agent_of :: "block \<Rightarrow> js_string list" where
  "agent_of (Subagent b) = [sub_agentId b]"
| "agent_of _ = []"

definition agents_in :: "block list \<Rightarrow> js_string list" where
  "agents_in blocks = concat (map agent_of blocks)"

definition replace_cloud_agent :: "cloud_agent_block \<Rightarrow> block \<Rightarrow> block" where
  "replace_cloud_agent b old =
     (case old of
        Cloud_agent c \<Rightarrow> if cloud_agentId c = cloud_agentId b then Cloud_agent b else old
      | _ \<Rightarrow> old)"

definition project_event :: "case_map \<Rightarrow> (js_string \<Rightarrow> parsed_url option) \<Rightarrow> view \<Rightarrow> event \<Rightarrow> view" where
  "project_event cm parse_url v e =
     (case ev_body e of
        Message_created messageId role blocks \<Rightarrow>
          let v1 = clearLive e v; bs = (case blocks of Some bs \<Rightarrow> bs | None \<Rightarrow> []) in
          v1\<lparr>view_durable := agents_in bs @ view_durable v1,
             view_subagents := filter (\<lambda>kv. fst kv \<notin> set (agents_in bs)) (view_subagents v1),
             view_messages := view_messages v1 @
               [(bot_message e (case messageId of Some i \<Rightarrow> i | None \<Rightarrow> ev_id e) bs)
                  \<lparr>msg_role := (case role of Some r \<Rightarrow> r | None \<Rightarrow> js ''bot'')\<rparr>]\<rparr>
      | Cloud_agent_event payload \<Rightarrow>
          let b = cloudAgentBlockFromPayload parse_url (asRecord payload) in
          v\<lparr>view_messages := map (\<lambda>m.
              if own payload (js ''messageId'') = Some (String (msg_id m))
              then m\<lparr>msg_blocks := map (replace_cloud_agent b) (msg_blocks m)\<rparr> else m) (view_messages v)\<rparr>
      | Progress_event payload \<Rightarrow> live_step cm e (Progress_update (asRecord payload)) v
      | Tool_called payload \<Rightarrow>
          live_step cm e (Tool_update (string_or (asRecord payload) ''name'' [])) v
      | Thread_cleared \<Rightarrow> empty_view
      | Subagent_event payload \<Rightarrow>
          let b = subagentBlockFromPayload (asRecord payload) in
          if sub_agentId b \<in> set (view_durable v) then v
          else v\<lparr>view_subagents := AList.update (sub_agentId b)
              (bot_message e (js ''subagent:'' @ sub_agentId b) [Subagent b]) (view_subagents v)\<rparr>
      | Other_event \<Rightarrow> v
      | _ \<Rightarrow> clearLive e v)"

definition view_rows :: "view \<Rightarrow> message list" where
  "view_rows v = view_messages v @ map snd (view_subagents v) @
     filter (\<lambda>m. msg_blocks m \<noteq> []) (map snd (view_live v))"

definition projectMessages ::
    "case_map \<Rightarrow> (js_string \<Rightarrow> parsed_url option) \<Rightarrow> event list \<Rightarrow> message list" where
  "projectMessages cm parse_url events = view_rows (foldl (project_event cm parse_url) empty_view events)"

section \<open>Pages of messages\<close>

record history =
  hist_threadId :: js_string
  hist_messages :: "message list"
  olderCursor :: "nat option"

definition isDurableMessage :: "message \<Rightarrow> bool" where
  "isDurableMessage m \<longleftrightarrow> \<not> startsWith (msg_id m) (js ''progress:'') \<and> \<not> startsWith (msg_id m) (js ''subagent:'')"

fun first_by_id :: "js_string list \<Rightarrow> message list \<Rightarrow> message list" where
  "first_by_id seen [] = []"
| "first_by_id seen (m # ms) =
     (if msg_id m \<in> set seen then first_by_id seen ms else m # first_by_id (msg_id m # seen) ms)"

definition mergeMessagesById :: "message list \<Rightarrow> message list \<Rightarrow> message list" where
  "mergeMessagesById first second = first_by_id [] (first @ second)"

definition firstRecentSeq :: "message list \<Rightarrow> nat option" where
  "firstRecentSeq recent =
     foldl (\<lambda>first m. if isDurableMessage m
        then Some (min (case first of Some f \<Rightarrow> f | None \<Rightarrow> msg_seq m) (msg_seq m)) else first) None recent"

definition mergeMessagePages :: "message list \<Rightarrow> message list \<Rightarrow> message list" where
  "mergeMessagePages previous recent =
     mergeMessagesById
       (case firstRecentSeq recent of
          None \<Rightarrow> []
        | Some f \<Rightarrow> filter (\<lambda>m. isDurableMessage m \<and> msg_seq m < f) previous) recent"

fun upsertMessageById :: "message list \<Rightarrow> message \<Rightarrow> message list" where
  "upsertMessageById [] new = [new]"
| "upsertMessageById (m # ms) new =
     (if msg_id m = msg_id new then new # ms else m # upsertMessageById ms new)"

definition mergeThreadHistory :: "history option \<Rightarrow> history \<Rightarrow> bool \<Rightarrow> history" where
  "mergeThreadHistory previous recent preserveLoadedHistory =
     (case previous of
        None \<Rightarrow> recent
      | Some p \<Rightarrow>
          if hist_threadId p \<noteq> hist_threadId recent \<or> \<not> preserveLoadedHistory then recent
          else recent\<lparr>hist_messages := mergeMessagePages (hist_messages p) (hist_messages recent),
                 olderCursor := olderCursor p\<rparr>)"

definition prependThreadHistoryPage :: "history option \<Rightarrow> history \<Rightarrow> history option" where
  "prependThreadHistoryPage previous page =
     (case previous of
        None \<Rightarrow> None
      | Some p \<Rightarrow>
          if hist_threadId p \<noteq> hist_threadId page \<or> olderCursor p = None then Some p
          else Some (p\<lparr>hist_messages := mergeMessagesById (hist_messages page) (hist_messages p),
                 olderCursor := olderCursor page\<rparr>))"

section \<open>Rows that are still live\<close>

text \<open>Drafts and agent rows are keyed by their ids, and an agent with a lasting message has no row.\<close>

definition view_ok :: "view \<Rightarrow> bool" where
  "view_ok v \<longleftrightarrow>
     distinct (map fst (view_live v)) \<and>
     (\<forall>kv \<in> set (view_live v). msg_id (snd kv) = fst kv \<and> startsWith (fst kv) (js ''progress:'')) \<and>
     distinct (map fst (view_subagents v)) \<and>
     (\<forall>kv \<in> set (view_subagents v). \<exists>b. msg_blocks (snd kv) = [Subagent b] \<and> sub_agentId b = fst kv \<and>
        msg_id (snd kv) = js ''subagent:'' @ fst kv) \<and>
     fst ` set (view_subagents v) \<inter> set (view_durable v) = {} \<and>
     (\<forall>m \<in> set (view_messages v). set (agents_in (msg_blocks m)) \<subseteq> set (view_durable v))"

lemma set_AList_update: "set (AList.update k x xs) \<subseteq> insert (k, x) (set xs)"
  by (induction xs) auto

lemma set_AList_delete: "set (AList.delete k xs) \<subseteq> set xs"
  by (induction xs) auto

lemma keys_delete: "fst ` set (AList.delete k xs) = fst ` set xs - {k}"
  by (induction xs) auto

lemma view_ok_draft:
  "view_ok v \<Longrightarrow> m \<in> snd ` set (view_live v) \<Longrightarrow>
   msg_id m \<in> fst ` set (view_live v) \<and> startsWith (msg_id m) (js ''progress:'')"
proof (elim imageE)
  fix kv
  assume "view_ok v" and kv: "m = snd kv" "kv \<in> set (view_live v)"
  then have "msg_id (snd kv) = fst kv \<and> startsWith (fst kv) (js ''progress:'')"
    unfolding view_ok_def by blast
  then show ?thesis using kv by simp
qed

lemma view_ok_row:
  assumes "view_ok v" and "m \<in> snd ` set (view_subagents v)"
  obtains b where "msg_blocks m = [Subagent b]" and "msg_id m = js ''subagent:'' @ sub_agentId b"
    and "sub_agentId b \<notin> set (view_durable v)"
proof -
  obtain kv where kv: "kv \<in> set (view_subagents v)" "m = snd kv" using assms(2) by blast
  then obtain b where b: "msg_blocks m = [Subagent b]" "sub_agentId b = fst kv"
      "msg_id m = js ''subagent:'' @ fst kv"
    using assms(1) unfolding view_ok_def by blast
  moreover have "fst kv \<notin> set (view_durable v)" using assms(1) kv unfolding view_ok_def by blast
  ultimately show thesis using that [of b] by simp
qed

lemma agents_in_replace: "agents_in (map (replace_cloud_agent b) bs) = agents_in bs"
proof -
  have "agent_of (replace_cloud_agent b old) = agent_of old" for old
    by (cases old) (simp_all add: replace_cloud_agent_def)
  then show ?thesis by (simp add: agents_in_def comp_def)
qed

lemma clearLive_ok: "view_ok v \<Longrightarrow> view_ok (clearLive e v)"
  using set_AList_delete [of "progressMessageId e" "view_live v"]
  by (auto simp: view_ok_def clearLive_def distinct_delete)

lemma progress_id_prefix: "startsWith (progressMessageId e) (js ''progress:'')"
  by (simp add: progressMessageId_def)

lemma live_projection_id:
  assumes "view_ok v"
  shows "msg_id (live_projection e v) = progressMessageId e"
  using assms map_of_SomeD [of "view_live v" "progressMessageId e"]
  by (auto simp: live_projection_def view_ok_def bot_message_def split: option.splits)

lemma live_step_ok: "view_ok v \<Longrightarrow> view_ok (live_step cm e update v)"
proof -
  assume ok: "view_ok v"
  let ?k = "progressMessageId e"
  let ?live = "live_projection e v"
  let ?m = "?live\<lparr>msg_blocks := reduceLiveMessageBlocks cm (msg_blocks ?live) update,
     msg_seq := ev_seq e, msg_botId := ev_botId e, msg_createdAt := ev_createdAt e\<rparr>"
  have "msg_id ?m = ?k" using live_projection_id [OF ok] by simp
  moreover have "distinct (map fst (AList.update ?k ?m (view_live v)))"
    using ok by (simp add: view_ok_def distinct_update)
  ultimately show ?thesis
    using ok set_AList_update [of ?k ?m "view_live v"] progress_id_prefix [of e]
    by (auto simp: view_ok_def live_step_def Let_def)
qed

lemma created_ok:
  assumes "view_ok v"
  shows "view_ok (v\<lparr>view_durable := agents_in bs @ view_durable v,
      view_subagents := filter (\<lambda>kv. fst kv \<notin> set (agents_in bs)) (view_subagents v),
      view_messages := view_messages v @ [(bot_message e i bs)\<lparr>msg_role := r\<rparr>]\<rparr>)"
  using assms by (auto simp: view_ok_def bot_message_def distinct_map_filter)

lemma same_agents_ok:
  assumes "view_ok v" and "\<And>m. agents_in (msg_blocks (f m)) = agents_in (msg_blocks m)"
  shows "view_ok (v\<lparr>view_messages := map f (view_messages v)\<rparr>)"
  using assms(1) by (simp add: view_ok_def assms(2))

lemma project_event_ok:
  assumes ok: "view_ok v"
  shows "view_ok (project_event cm parse_url v e)"
proof (cases "ev_body e")
  case (Message_created messageId role blocks)
  then show ?thesis
    using created_ok [OF clearLive_ok [OF ok, of e]] by (simp add: project_event_def Let_def)
next
  case (Cloud_agent_event payload)
  let ?b = "cloudAgentBlockFromPayload parse_url (asRecord payload)"
  let ?f = "\<lambda>m. if own payload (js ''messageId'') = Some (String (msg_id m))
      then m\<lparr>msg_blocks := map (replace_cloud_agent ?b) (msg_blocks m)\<rparr> else m"
  have "view_ok (v\<lparr>view_messages := map ?f (view_messages v)\<rparr>)"
    by (rule same_agents_ok [OF ok]) (simp add: agents_in_replace)
  then show ?thesis using Cloud_agent_event by (simp add: project_event_def Let_def)
next
  case (Subagent_event payload)
  let ?b = "subagentBlockFromPayload (asRecord payload)"
  let ?m = "bot_message e (js ''subagent:'' @ sub_agentId ?b) [Subagent ?b]"
  have "distinct (map fst (AList.update (sub_agentId ?b) ?m (view_subagents v)))"
    using ok by (simp add: view_ok_def distinct_update)
  moreover have "msg_blocks ?m = [Subagent ?b]" "msg_id ?m = js ''subagent:'' @ sub_agentId ?b"
    by (simp_all add: bot_message_def)
  ultimately show ?thesis
    using ok set_AList_update [of "sub_agentId ?b" ?m "view_subagents v"] Subagent_event
    by (auto simp: project_event_def Let_def view_ok_def dom_update simp del: set_AList_update)
qed (use ok in \<open>simp_all add: project_event_def live_step_ok clearLive_ok, simp_all add: empty_view_def view_ok_def\<close>)

lemma projected_ok: "view_ok v \<Longrightarrow> view_ok (foldl (project_event cm parse_url) v events)"
  by (induction events arbitrary: v) (simp_all add: project_event_ok)

lemma subagent_not_draft: "startsWith i (js ''progress:'') \<Longrightarrow> i \<noteq> js ''subagent:'' @ t"
  by (auto simp: startsWith_iff js_def)


text \<open>The id under which an event records a lasting message.\<close>

definition created_id :: "event \<Rightarrow> js_string option" where
  "created_id e =
     (case ev_body e of
        Message_created messageId _ _ \<Rightarrow> Some (case messageId of Some i \<Rightarrow> i | None \<Rightarrow> ev_id e)
      | _ \<Rightarrow> None)"

lemma message_ids_step:
  "msg_id ` set (view_messages (project_event cm parse_url v e))
     \<subseteq> msg_id ` set (view_messages v) \<union> {i. created_id e = Some i}"
  by (cases "ev_body e")
    (auto simp: project_event_def Let_def clearLive_def live_step_def created_id_def bot_message_def
      empty_view_def)

lemma message_ids:
  "msg_id ` set (view_messages (foldl (project_event cm parse_url) v events))
     \<subseteq> msg_id ` set (view_messages v) \<union> {i. \<exists>e \<in> set events. created_id e = Some i}"
proof (induction events arbitrary: v)
  case (Cons e events)
  have "msg_id ` set (view_messages (foldl (project_event cm parse_url) (project_event cm parse_url v e) events))
      \<subseteq> msg_id ` set (view_messages (project_event cm parse_url v e)) \<union> {i. \<exists>e \<in> set events. created_id e = Some i}"
    by (rule Cons)
  also have "\<dots> \<subseteq> (msg_id ` set (view_messages v) \<union> {i. created_id e = Some i})
      \<union> {i. \<exists>e \<in> set events. created_id e = Some i}"
    by (rule Un_mono [OF message_ids_step subset_refl])
  also have "\<dots> \<subseteq> msg_id ` set (view_messages v) \<union> {i. \<exists>x \<in> set (e # events). created_id x = Some i}"
    by auto
  finally show ?case by simp
qed simp

lemma live_ids_step:
  "fst ` set (view_live (project_event cm parse_url v e)) \<subseteq> fst ` set (view_live v) \<union> {progressMessageId e}"
  by (cases "ev_body e")
    (simp_all add: project_event_def Let_def clearLive_def live_step_def empty_view_def keys_delete
      dom_update, auto)

lemma live_ids:
  "fst ` set (view_live (foldl (project_event cm parse_url) v events))
     \<subseteq> fst ` set (view_live v) \<union> progressMessageId ` set events"
proof (induction events arbitrary: v)
  case (Cons e events)
  have "fst ` set (view_live (foldl (project_event cm parse_url) (project_event cm parse_url v e) events))
      \<subseteq> fst ` set (view_live (project_event cm parse_url v e)) \<union> progressMessageId ` set events"
    by (rule Cons)
  also have "\<dots> \<subseteq> (fst ` set (view_live v) \<union> {progressMessageId e}) \<union> progressMessageId ` set events"
    by (rule Un_mono [OF live_ids_step subset_refl])
  finally show ?case by (simp add: Un_ac)
qed simp

lemma terminal_clears:
  assumes "isRunTerminalEvent (ev_body e)"
  shows "progressMessageId e \<notin> fst ` set (view_live (project_event cm parse_url v e))"
proof -
  have "project_event cm parse_url v e = clearLive e v"
    using assms by (cases "ev_body e") (simp_all add: project_event_def)
  then show ?thesis by (simp add: clearLive_def keys_delete)
qed


text \<open>Clearing a thread starts the projection over.\<close>

lemma cleared_thread_starts_over:
  "ev_body e = Thread_cleared \<Longrightarrow>
   projectMessages cm parse_url (before @ e # later) = projectMessages cm parse_url later"
  by (simp add: projectMessages_def project_event_def)

definition sample_event :: "nat \<Rightarrow> event_body \<Rightarrow> event" where
  "sample_event n body =
     \<lparr>ev_id = js ''e'', ev_threadId = js ''t'', ev_seq = n, ev_runId = Some (js ''r''), ev_botId = None,
      ev_createdAt = js ''now'', ev_body = body\<rparr>"

definition sample_events :: "event list" where
  "sample_events =
     [sample_event 1 (Subagent_event (Object [(js ''agentId'', String (js ''a''))])),
      sample_event 2 (Progress_event (Object [(js ''delta'', String (js ''Hi''))]))]"

definition plain_case :: case_map where
  "plain_case = \<lparr>toLowerCase = (\<lambda>s. s), toUpperCase = (\<lambda>s. s)\<rparr>"



section \<open>Pages refine maps and keep the order\<close>

text \<open>A list of messages as the map from ids to messages, where the first message of an id counts.\<close>

definition by_id :: "message list \<Rightarrow> js_string \<rightharpoonup> message" where
  "by_id ms = map_of (map (\<lambda>m. (msg_id m, m)) ms)"

lemma by_id_simps:
  "by_id [] = Map.empty"
  "by_id (m # ms) = (by_id ms)(msg_id m \<mapsto> m)"
  "by_id (as @ bs) = by_id bs ++ by_id as"
  by (simp_all add: by_id_def)

lemma first_by_id_lookup: "by_id (first_by_id seen ms) i = (if i \<in> set seen then None else by_id ms i)"
  by (induction seen ms rule: first_by_id.induct) (auto simp: by_id_simps)

lemma first_by_id_distinct:
  "distinct (map msg_id (first_by_id seen ms)) \<and> set seen \<inter> msg_id ` set (first_by_id seen ms) = {}"
  by (induction seen ms rule: first_by_id.induct) auto

lemma set_first_by_id: "set (first_by_id seen ms) \<subseteq> set ms"
  by (induction seen ms rule: first_by_id.induct) auto

lemma upsert_by_id: "by_id (upsertMessageById ms new) = (by_id ms)(msg_id new \<mapsto> new)"
  by (induction ms) (auto simp: by_id_simps)

text \<open>As maps from ids to messages, merging two lists is map addition in which the first list wins,
  and putting a message in is a map update; a merged list never holds an id twice.\<close>

theorem pages_refine_maps:
  "by_id (mergeMessagesById first second) = by_id second ++ by_id first \<and>
   distinct (map msg_id (mergeMessagesById first second)) \<and>
   by_id (upsertMessageById ms new) = (by_id ms)(msg_id new \<mapsto> new)"
proof (intro conjI)
  show "by_id (mergeMessagesById first second) = by_id second ++ by_id first"
    unfolding mergeMessagesById_def by (rule ext) (simp add: first_by_id_lookup by_id_simps(3) del: map_add_Some_iff)
  show "distinct (map msg_id (mergeMessagesById first second))"
    using first_by_id_distinct [of "[]" "first @ second"] by (simp add: mergeMessagesById_def)
qed (rule upsert_by_id)

lemma sorted_first_by_id:
  "sorted_wrt P (filter Q ms) \<Longrightarrow> sorted_wrt P (filter Q (first_by_id seen ms))"
proof (induction seen ms rule: first_by_id.induct)
  case (2 seen m ms)
  then show ?case using set_first_by_id [of "msg_id m # seen" ms] by auto
qed simp

definition seq_bound :: "nat option \<Rightarrow> message list \<Rightarrow> bool" where
  "seq_bound first ms \<longleftrightarrow>
     (case first of None \<Rightarrow> \<forall>m \<in> set ms. \<not> isDurableMessage m
                  | Some f \<Rightarrow> \<forall>m \<in> set ms. isDurableMessage m \<longrightarrow> f \<le> msg_seq m)"

lemma firstRecentSeq_bound: "seq_bound (firstRecentSeq ms) ms"
proof (induction ms rule: rev_induct)
  case (snoc m ms)
  then show ?case
    by (fastforce simp: firstRecentSeq_def seq_bound_def split: option.splits if_splits)
qed (simp add: firstRecentSeq_def seq_bound_def)

text \<open>Merging a newer page into the loaded history keeps the lasting messages in the order of their
  sequence numbers, whenever both lists have them in that order.\<close>

theorem merged_history_in_order:
  assumes "sorted_wrt (\<lambda>m n. msg_seq m < msg_seq n) (filter isDurableMessage previous)"
    and "sorted_wrt (\<lambda>m n. msg_seq m < msg_seq n) (filter isDurableMessage recent)"
  shows "sorted_wrt (\<lambda>m n. msg_seq m < msg_seq n)
    (filter isDurableMessage (mergeMessagePages previous recent))"
proof (cases "firstRecentSeq recent")
  case None
  then show ?thesis
    using assms(2) by (simp add: mergeMessagePages_def mergeMessagesById_def sorted_first_by_id)
next
  case (Some f)
  let ?kept = "filter (\<lambda>m. isDurableMessage m \<and> msg_seq m < f) previous"
  have "sorted_wrt (\<lambda>m n. msg_seq m < msg_seq n) (filter (\<lambda>m. msg_seq m < f) (filter isDurableMessage previous))"
    using assms(1) by (rule sorted_wrt_filter)
  then have "sorted_wrt (\<lambda>m n. msg_seq m < msg_seq n) (filter isDurableMessage ?kept)"
    by (simp add: conj_commute)
  moreover have "msg_seq m < msg_seq n" if "m \<in> set ?kept" "n \<in> set recent" "isDurableMessage n" for m n
    using firstRecentSeq_bound [of recent] that by (fastforce simp: Some seq_bound_def)
  ultimately have "sorted_wrt (\<lambda>m n. msg_seq m < msg_seq n) (filter isDurableMessage (?kept @ recent))"
    using assms(2) by (simp add: sorted_wrt_append)
  then show ?thesis
    using Some by (simp add: mergeMessagePages_def mergeMessagesById_def sorted_first_by_id)
qed

definition sample_message :: "nat \<Rightarrow> message" where
  "sample_message n = (bot_message (sample_event n Other_event) (digits_of n) [])"

lemma merged_history_in_order_witness:
  "map msg_seq (mergeMessagePages (map sample_message [1, 2, 3]) (map sample_message [3, 4])) = [1, 2, 3, 4] \<and>
   sorted_wrt (\<lambda>m n. msg_seq m < msg_seq n)
     (filter isDurableMessage (mergeMessagePages (map sample_message [1, 2, 3]) (map sample_message [3, 4])))"
proof
  show "map msg_seq (mergeMessagePages (map sample_message [1, 2, 3]) (map sample_message [3, 4])) = [1, 2, 3, 4]"
    by code_simp
  show "sorted_wrt (\<lambda>m n. msg_seq m < msg_seq n)
     (filter isDurableMessage (mergeMessagePages (map sample_message [1, 2, 3]) (map sample_message [3, 4])))"
  proof (rule merged_history_in_order)
    show "sorted_wrt (\<lambda>m n. msg_seq m < msg_seq n) (filter isDurableMessage (map sample_message [1, 2, 3]))"
      by code_simp
    show "sorted_wrt (\<lambda>m n. msg_seq m < msg_seq n) (filter isDurableMessage (map sample_message [3, 4]))"
      by code_simp
  qed
qed

end
