(* ===== verification/Cron.thy ===== *)
theory Cron
  imports JsPattern Json
begin

text \<open>
  Schedules of routines (\<open>packages/core/src/cron.ts\<close>): the presets of the schedule form, their cron
  text and its reading back, the sentence shown for a schedule, and the next run over all schedules
  of a routine. The cron library and the time-zone check of \<open>Intl\<close> are the parameter \<open>croner\<close>:
  constructing a schedule fails or gives the function from a time to the next run. Times are
  milliseconds.
\<close>

section \<open>Presets\<close>

datatype cron_freq =
  Every_hour | Every_day | Weekdays | Every_week | Every_month | Interval | Advanced

datatype cron_unit = Minutes | Hours | Days

record cron_preset =
  freq :: cron_freq
  preset_n :: js_num
  preset_unit :: cron_unit
  preset_time :: js_string
  preset_cron :: js_string

record cron_preset_input =
  in_freq :: cron_freq
  in_n :: "js_num option"
  in_unit :: "cron_unit option"
  in_time :: "js_string option"
  in_cron :: "js_string option"

definition once_routine_cron :: js_string where
  "once_routine_cron = js ''@once''"

definition isOneShotRoutineCron :: "js_string \<Rightarrow> bool" where
  "isOneShotRoutineCron cron \<longleftrightarrow> trim cron = once_routine_cron"

definition isOneShotRoutineCrons :: "js_string list \<Rightarrow> bool" where
  "isOneShotRoutineCrons crons \<longleftrightarrow> length crons = 1 \<and> isOneShotRoutineCron (hd crons)"

definition hasMixedOneShotSchedule :: "js_string list \<Rightarrow> bool" where
  "hasMixedOneShotSchedule crons \<longleftrightarrow> 1 < length crons \<and> list_ex isOneShotRoutineCron crons"

definition defaultCronPreset :: cron_preset where
  "defaultCronPreset = \<lparr>freq = Every_day, preset_n = Num 3, preset_unit = Minutes,
     preset_time = js ''9:00 AM'', preset_cron = []\<rparr>"

section \<open>Clock times\<close>

text \<open>A number inside a template.\<close>

fun num_text :: "js_num \<Rightarrow> js_string" where
  "num_text (Num r) = number_to_string r"
| "num_text NaN = js ''NaN''"
| "num_text (Infty neg) = (if neg then js ''-Infinity'' else js ''Infinity'')"

fun below_twelve :: "js_num \<Rightarrow> bool" where
  "below_twelve (Num r) = (r < 12)"
| "below_twelve NaN = False"
| "below_twelve (Infty neg) = neg"

fun at_least_twelve :: "js_num \<Rightarrow> bool" where
  "at_least_twelve (Num r) = (12 \<le> r)"
| "at_least_twelve NaN = False"
| "at_least_twelve (Infty neg) = (\<not> neg)"

fun plus_twelve :: "js_num \<Rightarrow> js_num" where
  "plus_twelve (Num r) = round_double (r + 12)"
| "plus_twelve x = x"

definition parseClock :: "js_string \<Rightarrow> js_num \<times> js_num" where
  "parseClock time =
     (let parts = split_on 58 time;
          rest = (if 2 \<le> length parts then parts ! 1 else js ''00'');
          minute = to_number (take 2 rest);
          hour0 = to_number (hd parts);
          hour1 = (if regex_test (p_lit_i ''pm'') time \<and> below_twelve hour0 then plus_twelve hour0 else hour0);
          hour2 = (if regex_test (p_lit_i ''am'') time \<and> hour1 = Num 12 then Num 0 else hour1)
      in (hour2, minute))"

text \<open>\<open>hour % 12\<close>, for the digits of a cron field: never negative.\<close>

fun mod_twelve :: "js_num \<Rightarrow> js_num" where
  "mod_twelve (Num r) = Num (r - 12 * of_int \<lfloor>r / 12\<rfloor>)"
| "mod_twelve _ = NaN"

definition padStart2 :: "js_string \<Rightarrow> js_string" where
  "padStart2 s = replicate (2 - length s) 48 @ s"

definition formatClock :: "js_num \<Rightarrow> js_num \<Rightarrow> js_string" where
  "formatClock hour minute =
     (let period = (if at_least_twelve hour then js ''PM'' else js ''AM'');
          h12 = (if mod_twelve hour = Num 0 then Num 12 else mod_twelve hour)
      in num_text h12 @ 58 # padStart2 (num_text minute) @ 32 # period)"

section \<open>Fields of a cron text\<close>

text \<open>\<open>split(/\\s+/)\<close>\<close>

function split_spaces :: "js_string \<Rightarrow> js_string list" where
  "split_spaces s =
     (case dropWhile (\<lambda>c. \<not> is_space c) s of
        [] \<Rightarrow> [s]
      | _ # rest \<Rightarrow> takeWhile (\<lambda>c. \<not> is_space c) s # split_spaces (dropWhile is_space rest))"
  by pat_completeness auto
termination
proof (relation "measure length", simp, goal_cases)
  case (1 s c rest)
  have "length (dropWhile is_space rest) \<le> length rest" by (rule length_dropWhile_le)
  also have "\<dots> < length (dropWhile (\<lambda>c. \<not> is_space c) s)" using 1 by simp
  also have "\<dots> \<le> length s" by (rule length_dropWhile_le)
  finally show ?case by simp
qed

declare split_spaces.simps [simp del]

definition isInt :: "js_string \<Rightarrow> bool" where
  "isInt expr \<longleftrightarrow> expr \<noteq> [] \<and> (\<forall>c \<in> set expr. is_digit c)"

text \<open>\<open>/^\\*\\/(\\d+)$/\<close>, then a finite number above zero.\<close>

definition stepValue :: "js_string \<Rightarrow> js_num option" where
  "stepValue expr =
     (if startsWith expr [42, 47] \<and> isInt (drop 2 expr)
      then (case to_number (drop 2 expr) of
          Num r \<Rightarrow> if 0 < r then Some (Num r) else None
        | _ \<Rightarrow> None)
      else None)"

definition interval_n :: "js_num option \<Rightarrow> js_num" where
  "interval_n n = (case n of Some (Num r) \<Rightarrow> if 0 < r then Num r else Num 5 | _ \<Rightarrow> Num 5)"

definition cronFromPreset :: "cron_preset_input \<Rightarrow> js_string" where
  "cronFromPreset inp =
     (let advancedCron = map_option trim (in_cron inp);
          clock = parseClock (case in_time inp of Some t \<Rightarrow> t | None \<Rightarrow> js ''9:00 AM'');
          clock_then = (\<lambda>rest. num_text (snd clock) @ 32 # num_text (fst clock) @ js rest)
      in case in_freq inp of
        Advanced \<Rightarrow>
          (case advancedCron of
             Some c \<Rightarrow> if c \<noteq> [] \<and> isOneShotRoutineCron c then once_routine_cron
                       else if c \<noteq> [] then c else js ''*/3 * * * *''
           | None \<Rightarrow> js ''*/3 * * * *'')
      | Every_hour \<Rightarrow> js ''0 * * * *''
      | Interval \<Rightarrow>
          (let n = num_text (interval_n (in_n inp)) in
           if in_unit inp = Some Days then js ''0 0 */'' @ n @ js '' * *''
           else if in_unit inp = Some Hours then js ''0 */'' @ n @ js '' * * *''
           else js ''*/'' @ n @ js '' * * * *'')
      | Weekdays \<Rightarrow> clock_then '' * * 1-5''
      | Every_week \<Rightarrow> clock_then '' * * 1''
      | Every_month \<Rightarrow> clock_then '' 1 * *''
      | Every_day \<Rightarrow> clock_then '' * * *'')"

definition preset_of_fields ::
    "js_string \<Rightarrow> js_string \<Rightarrow> js_string \<Rightarrow> js_string \<Rightarrow> js_string \<Rightarrow> js_string \<Rightarrow> cron_preset" where
  "preset_of_fields trimmed minute hour day month dow =
     (let base = defaultCronPreset; any = js ''*'';
          advanced = base\<lparr>freq := Advanced, preset_cron := trimmed\<rparr>;
          time = formatClock (to_number hour) (to_number minute)
      in if month \<noteq> any then advanced
         else if minute = js ''0'' \<and> hour = any \<and> day = any \<and> dow = any
         then base\<lparr>freq := Every_hour\<rparr>
         else case (if hour = any \<and> day = any \<and> dow = any then stepValue minute else None) of
           Some n \<Rightarrow> base\<lparr>freq := Interval, preset_n := n, preset_unit := Minutes\<rparr>
         | None \<Rightarrow>
         (case (if minute = js ''0'' \<and> day = any \<and> dow = any then stepValue hour else None) of
           Some n \<Rightarrow> base\<lparr>freq := Interval, preset_n := n, preset_unit := Hours\<rparr>
         | None \<Rightarrow>
         (case (if minute = js ''0'' \<and> hour = js ''0'' \<and> dow = any then stepValue day else None) of
           Some n \<Rightarrow> base\<lparr>freq := Interval, preset_n := n, preset_unit := Days\<rparr>
         | None \<Rightarrow>
         if \<not> isInt minute \<or> \<not> isInt hour then advanced
         else if day = any \<and> dow = js ''1-5'' then base\<lparr>freq := Weekdays, preset_time := time\<rparr>
         else if day = any \<and> dow = js ''1'' then base\<lparr>freq := Every_week, preset_time := time\<rparr>
         else if day = js ''1'' \<and> dow = any then base\<lparr>freq := Every_month, preset_time := time\<rparr>
         else if day = any \<and> dow = any then base\<lparr>freq := Every_day, preset_time := time\<rparr>
         else advanced)))"

definition presetFromCron :: "js_string \<Rightarrow> cron_preset" where
  "presetFromCron cron =
     (let trimmed = trim cron in
      if isOneShotRoutineCron trimmed
      then defaultCronPreset\<lparr>freq := Advanced, preset_cron := once_routine_cron\<rparr>
      else case split_spaces trimmed of
        minute # hour # day # month # dow # _ \<Rightarrow> preset_of_fields trimmed minute hour day month dow
      | _ \<Rightarrow> defaultCronPreset\<lparr>freq := Advanced, preset_cron := trimmed\<rparr>)"

section \<open>The sentence of a schedule\<close>

definition unit_name :: "cron_unit \<Rightarrow> js_string" where
  "unit_name u = (case u of Minutes \<Rightarrow> js ''minutes'' | Hours \<Rightarrow> js ''hours'' | Days \<Rightarrow> js ''days'')"

definition describeCronPreset :: "cron_preset \<Rightarrow> js_string \<times> js_string" where
  "describeCronPreset p =
     (case freq p of
        Interval \<Rightarrow> (js ''Every'', num_text (preset_n p) @ 32 # unit_name (preset_unit p))
      | Every_hour \<Rightarrow> (js ''Every hour'', [])
      | Advanced \<Rightarrow> (js ''Cron'', if preset_cron p = [] then js ''*/3 * * * *'' else preset_cron p)
      | Weekdays \<Rightarrow> (js ''Weekdays'', js ''at '' @ preset_time p)
      | Every_week \<Rightarrow> (js ''Every Monday'', js ''at '' @ preset_time p)
      | Every_month \<Rightarrow> (js ''Monthly'', js ''on the 1st at '' @ preset_time p)
      | Every_day \<Rightarrow> (js ''Every day'', js ''at '' @ preset_time p))"

definition formatSchedule :: "cron_preset \<Rightarrow> js_string" where
  "formatSchedule p =
     (case describeCronPreset p of (lead, detail) \<Rightarrow> join [32] (filter (\<lambda>s. s \<noteq> []) [lead, detail]))"

definition formatCron :: "js_string \<Rightarrow> js_string" where
  "formatCron cron =
     (if isOneShotRoutineCron cron then js ''One-time'' else formatSchedule (presetFromCron cron))"

section \<open>The next run\<close>

record croner =
  new_cron :: "js_string \<Rightarrow> js_string \<Rightarrow> (int \<Rightarrow> int option) option"
  knows_timezone :: "js_string \<Rightarrow> bool"

datatype cron_error = One_shot_has_no_next_run | Five_fields_needed | Bad_schedule | No_future_run

definition validTimezoneOrUtc :: "croner \<Rightarrow> js_string \<Rightarrow> js_string" where
  "validTimezoneOrUtc lib timezone = (if knows_timezone lib timezone then timezone else js ''UTC'')"

definition nextCronDate :: "croner \<Rightarrow> js_string \<Rightarrow> int \<Rightarrow> js_string \<Rightarrow> (cron_error, int) res" where
  "nextCronDate lib cron start timezone =
     (if isOneShotRoutineCron cron then Inl One_shot_has_no_next_run
      else if length (split_spaces (trim cron)) \<noteq> 5 then Inl Five_fields_needed
      else case new_cron lib cron (validTimezoneOrUtc lib timezone) of
        None \<Rightarrow> Inl Bad_schedule
      | Some nextRun \<Rightarrow> (case nextRun start of None \<Rightarrow> Inl No_future_run | Some d \<Rightarrow> Inr d))"

definition resolveRoutineNextRunAt ::
    "croner \<Rightarrow> js_string \<Rightarrow> int \<Rightarrow> js_string \<Rightarrow> int option \<Rightarrow> (cron_error, int option) res" where
  "resolveRoutineNextRunAt lib cron start timezone existing =
     (if isOneShotRoutineCron cron then Inr existing
      else and_then (nextCronDate lib cron start timezone) (\<lambda>d. Inr (Some d)))"

definition earlier :: "int option \<Rightarrow> int \<Rightarrow> int option" where
  "earlier earliest d = (case earliest of None \<Rightarrow> Some d | Some e \<Rightarrow> if d < e then Some d else Some e)"

definition across_step :: "croner \<Rightarrow> int \<Rightarrow> js_string \<Rightarrow> int option \<Rightarrow> js_string \<Rightarrow> int option" where
  "across_step lib start timezone earliest cron =
     (if isOneShotRoutineCron cron then earliest
      else case nextCronDate lib cron start timezone of
        Inl _ \<Rightarrow> earliest
      | Inr d \<Rightarrow> earlier earliest d)"

definition nextCronDateAcross :: "croner \<Rightarrow> js_string list \<Rightarrow> int \<Rightarrow> js_string \<Rightarrow> int option" where
  "nextCronDateAcross lib crons start timezone = foldl (across_step lib start timezone) None crons"

fun strict_from ::
    "croner \<Rightarrow> int \<Rightarrow> js_string \<Rightarrow> int option \<Rightarrow> js_string list \<Rightarrow> (cron_error, int option) res" where
  "strict_from lib start timezone earliest [] = Inr earliest"
| "strict_from lib start timezone earliest (cron # crons) =
     (if isOneShotRoutineCron cron then strict_from lib start timezone earliest crons
      else and_then (nextCronDate lib cron start timezone)
        (\<lambda>d. strict_from lib start timezone (earlier earliest d) crons))"

definition nextCronDateAcrossStrict ::
    "croner \<Rightarrow> js_string list \<Rightarrow> int \<Rightarrow> js_string \<Rightarrow> (cron_error, int option) res" where
  "nextCronDateAcrossStrict lib crons start timezone = strict_from lib start timezone None crons"

section \<open>The earliest run and the strict check\<close>

lemma nextCronDate_one_shot: "isOneShotRoutineCron cron \<Longrightarrow> nextCronDate lib cron start timezone \<noteq> Inr d"
  by (simp add: nextCronDate_def)

text \<open>The first recurring schedule without a next run, if there is one.\<close>

definition unusable :: "croner \<Rightarrow> int \<Rightarrow> js_string \<Rightarrow> js_string \<Rightarrow> bool" where
  "unusable lib start timezone cron \<longleftrightarrow>
     \<not> isOneShotRoutineCron cron \<and> \<not> returns (nextCronDate lib cron start timezone)"

lemma strict_from_spec:
  "strict_from lib start timezone earliest crons =
     (case find (unusable lib start timezone) crons of
        Some c \<Rightarrow> and_then (nextCronDate lib c start timezone) (\<lambda>d. Inr (Some d))
      | None \<Rightarrow> Inr (foldl (across_step lib start timezone) earliest crons))"
proof (induction crons arbitrary: earliest)
  case (Cons c crons)
  then show ?case
    by (cases "isOneShotRoutineCron c"; cases "nextCronDate lib c start timezone")
      (simp_all add: unusable_def across_step_def split: option.split)
qed simp

text \<open>C30. Before a routine is saved every recurring schedule must have a next run: the strict search
  throws the error of the first one that has none, and otherwise returns what the lenient search of
  the wake-up path returns.\<close>

theorem strict_search_rejects:
  "nextCronDateAcrossStrict lib crons start timezone =
     (case find (unusable lib start timezone) crons of
        Some c \<Rightarrow> and_then (nextCronDate lib c start timezone) (\<lambda>d. Inr (Some d))
      | None \<Rightarrow> Inr (nextCronDateAcross lib crons start timezone))"
  by (simp add: nextCronDateAcrossStrict_def nextCronDateAcross_def strict_from_spec split: option.split)

definition run_dates :: "croner \<Rightarrow> js_string list \<Rightarrow> int \<Rightarrow> js_string \<Rightarrow> int set" where
  "run_dates lib crons start timezone = {d. \<exists>c \<in> set crons. nextCronDate lib c start timezone = Inr d}"

lemma run_dates_simps:
  "run_dates lib [] start timezone = {}"
  "run_dates lib (cs @ [c]) start timezone =
     (case nextCronDate lib c start timezone of Inl _ \<Rightarrow> run_dates lib cs start timezone
      | Inr d \<Rightarrow> insert d (run_dates lib cs start timezone))"
  by (auto simp: run_dates_def split: sum.splits)

lemma finite_run_dates: "finite (run_dates lib crons start timezone)"
  by (induction crons rule: rev_induct) (auto simp: run_dates_simps split: sum.splits)

text \<open>The next wake-up of a routine is the earliest next run of its schedules: one-time slots and
  schedules that fail are left out, and without any other schedule there is none.\<close>

theorem next_run_is_earliest:
  "nextCronDateAcross lib crons start timezone =
     (if run_dates lib crons start timezone = {} then None
      else Some (Min (run_dates lib crons start timezone)))"
proof (induction crons rule: rev_induct)
  case Nil
  show ?case by (simp add: nextCronDateAcross_def run_dates_simps)
next
  case (snoc c crons)
  have step: "nextCronDateAcross lib (crons @ [c]) start timezone =
      (case nextCronDate lib c start timezone of
         Inl _ \<Rightarrow> nextCronDateAcross lib crons start timezone
       | Inr d \<Rightarrow> earlier (nextCronDateAcross lib crons start timezone) d)"
    using nextCronDate_one_shot [of c lib start timezone]
    by (auto simp: nextCronDateAcross_def across_step_def split: sum.splits)
  show ?case
  proof (cases "nextCronDate lib c start timezone")
    case (Inr d)
    show ?thesis
    proof (cases "run_dates lib crons start timezone = {}")
      case True
      then show ?thesis using snoc step Inr by (simp add: run_dates_simps earlier_def)
    next
      case False
      then have "Min (insert d (run_dates lib crons start timezone))
          = min d (Min (run_dates lib crons start timezone))"
        by (rule Min_insert [OF finite_run_dates])
      moreover have "earlier (Some e) d = Some (min d e)" for e by (simp add: earlier_def min_def)
      ultimately show ?thesis using False snoc step Inr by (simp add: run_dates_simps)
    qed
  qed (use snoc step in \<open>simp add: run_dates_simps\<close>)
qed

section \<open>Reading a preset back\<close>

lemma num_text_nat: "n < 2 ^ 53 \<Longrightarrow> num_text (Num (of_nat n)) = digits_of n"
  by (simp add: number_to_string_def string_of_int_def max_safe_integer_def)

lemma split_spaces_last: "\<forall>c \<in> set w. \<not> is_space c \<Longrightarrow> split_spaces w = [w]"
  by (simp add: split_spaces.simps [of w] dropWhile_eq_Nil_conv [THEN iffD2])

lemma split_spaces_word:
  assumes "\<forall>c \<in> set w. \<not> is_space c" and "s \<noteq> []" and "\<not> is_space (hd s)"
  shows "split_spaces (w @ 32 # s) = w # split_spaces s"
proof -
  have "is_space 32" by (simp add: is_space_def)
  then have "dropWhile (\<lambda>c. \<not> is_space c) (w @ 32 # s) = 32 # s"
      "takeWhile (\<lambda>c. \<not> is_space c) (w @ 32 # s) = w"
    using assms(1) by (simp_all add: dropWhile_append3 takeWhile_append2)
  moreover have "dropWhile is_space s = s" using assms(2,3) by (cases s) auto
  ultimately show ?thesis by (simp add: split_spaces.simps [of "w @ 32 # s"])
qed

text \<open>A field of a cron text: not empty, no white space, no at sign.\<close>

definition field_ok :: "js_string \<Rightarrow> bool" where
  "field_ok w \<longleftrightarrow> w \<noteq> [] \<and> (\<forall>c \<in> set w. \<not> is_space c \<and> c \<noteq> 64)"

lemma field_okD: "field_ok w \<Longrightarrow> w \<noteq> []" "field_ok w \<Longrightarrow> \<forall>c \<in> set w. \<not> is_space c"
  "field_ok w \<Longrightarrow> \<not> is_space (hd (w @ s))" "field_ok w \<Longrightarrow> hd (w @ s) \<noteq> 64"
  by (auto simp: field_ok_def)

lemma presetFromCron_fields:
  assumes "field_ok a" "field_ok b" "field_ok c" "field_ok d" "field_ok e"
  shows "presetFromCron (a @ 32 # b @ 32 # c @ 32 # d @ 32 # e)
    = preset_of_fields (a @ 32 # b @ 32 # c @ 32 # d @ 32 # e) a b c d e"
proof -
  let ?t = "a @ 32 # b @ 32 # c @ 32 # d @ 32 # e"
  have "last ?t = last e" using assms(5) by (simp add: field_ok_def)
  then have "trim ?t = ?t"
    using assms field_okD(3) [OF assms(1)] by (intro trim_id) (simp add: field_ok_def)
  moreover have "\<not> isOneShotRoutineCron ?t"
    using calculation field_okD(4) [OF assms(1), of "32 # b @ 32 # c @ 32 # d @ 32 # e"]
    by (auto simp: isOneShotRoutineCron_def once_routine_cron_def js_def)
  moreover have "split_spaces ?t = [a, b, c, d, e]"
    using assms by (simp add: split_spaces_word split_spaces_last field_okD)
  ultimately show ?thesis by (simp add: presetFromCron_def Let_def)
qed

lemma field_ok_digits: "field_ok (digits_of n)"
proof -
  have "\<not> is_space c \<and> c \<noteq> 64" if "c \<in> set (digits_of n)" for c
    using is_digit_not_space [OF digits_of_digits [OF that]] digits_of_digits [OF that]
    by (auto simp: is_digit_def)
  then show ?thesis by (simp add: field_ok_def)
qed

lemma field_ok_step: "field_ok (42 # 47 # digits_of n)"
  using field_ok_digits [of n] by (simp add: field_ok_def is_space_def)

lemma field_ok_lits: "field_ok (js ''*'')" "field_ok (js ''0'')" "field_ok (js ''1'')" "field_ok (js ''1-5'')"
  by (simp_all add: field_ok_def js_def is_space_def)

lemma isInt_digits [simp]: "isInt (digits_of n)"
  by (simp add: isInt_def digits_of_digits)

lemma stepValue_step: "0 < n \<Longrightarrow> n < 2 ^ 53 \<Longrightarrow> stepValue (42 # 47 # digits_of n) = Some (Num (of_nat n))"
  by (simp add: stepValue_def startsWith_def to_number_digits_of)

lemma digits_of_no_star: "digits_of n \<noteq> 42 # s" "42 # s \<noteq> digits_of n"
  using digits_of_digits [of 42 n] by (auto simp: is_digit_def dest: sym)

lemma stepValue_digits: "stepValue (digits_of n) = None"
  using digits_of_no_star by (auto simp: stepValue_def startsWith_iff)

lemma stepValue_lits: "stepValue (js ''*'') = None" "stepValue (js ''1'') = None"
  by (simp_all add: stepValue_def startsWith_def js_def)

lemma mod_twelve_nat: "mod_twelve (Num (of_nat h)) = Num (of_nat (h mod 12))"
proof -
  have "\<lfloor>(of_nat h :: rat) / 12\<rfloor> = int (h div 12)"
    using floor_divide_of_nat_eq [of h 12, where ?'a = rat] by simp
  moreover have "(of_nat h :: rat) = 12 * of_nat (h div 12) + of_nat (h mod 12)"
    by (metis mult_div_mod_eq of_nat_add of_nat_mult of_nat_numeral)
  ultimately show ?thesis by simp
qed

definition twelve_hour :: "nat \<Rightarrow> nat" where
  "twelve_hour h = (if h mod 12 = 0 then 12 else h mod 12)"

lemma formatClock_nat:
  assumes "h < 24" and "m < 60"
  shows "formatClock (Num (of_nat h)) (Num (of_nat m)) =
    digits_of (twelve_hour h) @ 58 # padStart2 (digits_of m) @ 32 # js (if 12 \<le> h then ''PM'' else ''AM'')"
proof -
  have h12: "(if mod_twelve (Num (of_nat h)) = Num 0 then Num 12 else mod_twelve (Num (of_nat h)))
      = Num (of_nat (twelve_hour h))"
    unfolding mod_twelve_nat twelve_hour_def by simp
  have "at_least_twelve (Num (of_nat h)) \<longleftrightarrow> 12 \<le> h"
    by simp
  moreover have "twelve_hour h < 2 ^ 53" "m < 2 ^ 53" using assms by (auto simp: twelve_hour_def)
  ultimately show ?thesis
    unfolding formatClock_def Let_def h12 by (simp add: num_text_nat del: num_text.simps)
qed

lemma padded_minutes:
  assumes "m < 60"
  shows "to_number (padStart2 (digits_of m)) = Num (of_nat m)" and "length (padStart2 (digits_of m)) = 2"
    and "\<forall>c \<in> set (padStart2 (digits_of m)). is_digit c"
proof -
  have len: "length (digits_of m) = (if m < 10 then 1 else 2)"
    using assms by (simp add: digits_of.simps [of m] digits_of_small)
  then show "length (padStart2 (digits_of m)) = 2" by (simp add: padStart2_def)
  have pad: "padStart2 (digits_of m) = (if m < 10 then 48 # digits_of m else digits_of m)"
    using len by (simp add: padStart2_def)
  have zero: "is_digit 48" "digit_val 48 = 0" by (simp_all add: is_digit_def digit_val_def)
  show dig: "\<forall>c \<in> set (padStart2 (digits_of m)). is_digit c"
    using zero(1) by (simp add: pad digits_of_digits)
  have "nat_of_digits (48 # s) = nat_of_digits s" for s by (simp add: nat_of_digits_def zero(2))
  then have val: "nat_of_digits (padStart2 (digits_of m)) = m" by (simp add: pad)
  have "all_digits (padStart2 (digits_of m))" using dig by (auto simp: all_digits_def pad)
  then show "to_number (padStart2 (digits_of m)) = Num (of_nat m)"
    using to_number_digits [of "padStart2 (digits_of m)"] val assms by simp
qed

lemma lit_i_needs_unit:
  assumes "regex_test (p_lit_i (c # w)) s"
  shows "\<exists>u \<in> set s. lower_unit u = of_char c"
proof -
  obtain a z where az: "s = a @ z" "p_lit_i (c # w) (a = [], z) \<noteq> []"
    using assms by (auto simp: regex_test_iff)
  then obtain y where "y \<in> set (p_lit_by lower_unit (js (c # w)) (a = [], z))"
    unfolding p_lit_i_def using last_in_set by blast
  then obtain t where "z = t @ snd y" "map lower_unit t = js (c # w)"
    unfolding p_lit_by_iff by blast
  then show ?thesis using az(1) by (cases t) (auto simp: js_def)
qed

lemma clock_text_units:
  assumes "m < 60" and "u \<in> set (digits_of k @ 58 # padStart2 (digits_of m) @ 32 # js p)"
  shows "is_digit u \<or> u = 58 \<or> u = 32 \<or> u \<in> set (js p)"
  using assms(2) padded_minutes(3) [OF assms(1)] digits_of_digits by auto

lemma lower_unit_digit: "is_digit u \<Longrightarrow> lower_unit u = u"
  by (auto simp: is_digit_def lower_unit_def word_le_nat_alt)

lemma period_found:
  "regex_test (p_lit_i ''pm'') (s @ js ''PM'')" "regex_test (p_lit_i ''am'') (s @ js ''AM'')"
  unfolding regex_test_iff
  by (rule exI [of _ s], rule exI, intro conjI, rule refl,
      simp add: p_lit_i_def p_lit_by_def js_def lower_unit_def)+

lemma other_period:
  assumes "m < 60"
  shows "\<not> regex_test (p_lit_i ''pm'') (digits_of k @ 58 # padStart2 (digits_of m) @ 32 # js ''AM'')"
    and "\<not> regex_test (p_lit_i ''am'') (digits_of k @ 58 # padStart2 (digits_of m) @ 32 # js ''PM'')"
proof -
  have "lower_unit u \<noteq> of_char CHR ''p''" if "is_digit u \<or> u = 58 \<or> u = 32 \<or> u \<in> set (js ''AM'')" for u
    using that lower_unit_digit by (auto simp: js_def lower_unit_def is_digit_def)
  then show "\<not> regex_test (p_lit_i ''pm'') (digits_of k @ 58 # padStart2 (digits_of m) @ 32 # js ''AM'')"
    using lit_i_needs_unit clock_text_units [OF assms] by metis
  have "lower_unit u \<noteq> of_char CHR ''a''" if "is_digit u \<or> u = 58 \<or> u = 32 \<or> u \<in> set (js ''PM'')" for u
    using that lower_unit_digit by (auto simp: js_def lower_unit_def is_digit_def)
  then show "\<not> regex_test (p_lit_i ''am'') (digits_of k @ 58 # padStart2 (digits_of m) @ 32 # js ''PM'')"
    using lit_i_needs_unit clock_text_units [OF assms] by metis
qed

lemma hour_back:
  assumes "h < 24"
  shows "(let k = twelve_hour h; h1 = (if 12 \<le> h \<and> k < 12 then k + 12 else k)
    in if \<not> 12 \<le> h \<and> h1 = 12 then 0 else h1) = h"
proof (cases "h < 12")
  case False
  then have "h mod 12 = h - 12" using assms by (simp add: mod_if)
  then show ?thesis using False assms by (auto simp: twelve_hour_def Let_def)
qed (simp add: twelve_hour_def Let_def)

lemma parse_format_clock:
  assumes "h < 24" and "m < 60"
  shows "parseClock (formatClock (Num (of_nat h)) (Num (of_nat m))) = (Num (of_nat h), Num (of_nat m))"
proof -
  let ?k = "twelve_hour h" and ?p = "if 12 \<le> h then ''PM'' else ''AM''"
  let ?t = "digits_of ?k @ 58 # padStart2 (digits_of m) @ 32 # js ?p"
  have colon: "58 \<notin> set (digits_of ?k)" "58 \<notin> set (padStart2 (digits_of m) @ 32 # js ?p)"
    using digits_of_digits [of 58 ?k] padded_minutes(3) [OF assms(2)] digit_neqs(12)
    by (auto simp: js_def is_digit_def)
  then have parts: "split_on 58 ?t = [digits_of ?k, padStart2 (digits_of m) @ 32 # js ?p]"
    by (simp add: split_on_append_sep split_on_single)
  have k: "?k < 2 ^ 53" "to_number (digits_of ?k) = Num (of_nat ?k)"
    using to_number_digits_of [of ?k] by (auto simp: twelve_hour_def)
  have plus: "plus_twelve (Num (of_nat ?k)) = Num (of_nat (?k + 12))"
  proof -
    have "?k + 12 < 2 ^ 53" by (auto simp: twelve_hour_def)
    from round_double_nat [OF this] show ?thesis by simp
  qed
  have below: "below_twelve (Num (of_nat ?k)) \<longleftrightarrow> ?k < 12" by simp
  have twelve: "Num (of_nat n) = Num 12 \<longleftrightarrow> n = 12" for n by (metis js_num.inject of_nat_eq_iff of_nat_numeral)
  have m: "take 2 (padStart2 (digits_of m) @ 32 # js ?p) = padStart2 (digits_of m)"
    using padded_minutes(2) [OF assms(2)] by simp
  have period: "regex_test (p_lit_i ''pm'') ?t \<longleftrightarrow> 12 \<le> h" "regex_test (p_lit_i ''am'') ?t \<longleftrightarrow> \<not> 12 \<le> h"
    using period_found [of "digits_of ?k @ 58 # padStart2 (digits_of m) @ [32]"] other_period [OF assms(2), of ?k]
    by auto
  let ?h1 = "if 12 \<le> h \<and> ?k < 12 then ?k + 12 else ?k"
  have hour1: "(if 12 \<le> h \<and> below_twelve (Num (of_nat ?k)) then plus_twelve (Num (of_nat ?k))
      else Num (of_nat ?k)) = Num (of_nat ?h1)"
    unfolding plus below by simp
  have hour2: "(if \<not> 12 \<le> h \<and> Num (of_nat ?h1) = Num 12 then Num 0 else Num (of_nat ?h1)) = Num (of_nat h)"
    unfolding twelve using hour_back [OF assms(1)] by (auto simp only: Let_def of_nat_0 split: if_splits)
  show ?thesis
    unfolding formatClock_nat [OF assms] parseClock_def Let_def parts period list.sel k(2) hour1 hour2
    using m padded_minutes(1) [OF assms(2)] by simp
qed

text \<open>The presets the schedule form makes: hourly, every so many minutes, hours or days, or at a
  clock time on one of the four calendars.\<close>

definition clock_freqs :: "cron_freq list" where
  "clock_freqs = [Every_day, Weekdays, Every_week, Every_month]"

definition form_preset :: "cron_preset \<Rightarrow> bool" where
  "form_preset p \<longleftrightarrow>
     p = defaultCronPreset\<lparr>freq := Every_hour\<rparr> \<or>
     (\<exists>n u. 0 < n \<and> n < 2 ^ 53 \<and>
        p = defaultCronPreset\<lparr>freq := Interval, preset_n := Num (of_nat n), preset_unit := u\<rparr>) \<or>
     (\<exists>f h m. f \<in> set clock_freqs \<and> h < 24 \<and> m < 60 \<and>
        p = defaultCronPreset\<lparr>freq := f, preset_time := formatClock (Num (of_nat h)) (Num (of_nat m))\<rparr>)"

definition input_of :: "cron_preset \<Rightarrow> cron_preset_input" where
  "input_of p = \<lparr>in_freq = freq p, in_n = Some (preset_n p), in_unit = Some (preset_unit p),
     in_time = Some (preset_time p), in_cron = Some (preset_cron p)\<rparr>"

lemma digits_of_ne_lits: "digits_of n \<noteq> js ''*''" "digits_of n = js ''0'' \<longleftrightarrow> n = 0"
proof -
  show "digits_of n \<noteq> js ''*''" using digits_of_no_star by (simp add: js_def)
  have "js ''0'' = digits_of 0" by (simp add: digits_of_small js_def)
  then show "digits_of n = js ''0'' \<longleftrightarrow> n = 0" by (simp only: digits_of_inject)
qed

lemma interval_roundtrip:
  assumes "0 < n" and "n < 2 ^ 53"
  shows "presetFromCron (cronFromPreset (input_of
      (defaultCronPreset\<lparr>freq := Interval, preset_n := Num (of_nat n), preset_unit := u\<rparr>)))
    = defaultCronPreset\<lparr>freq := Interval, preset_n := Num (of_nat n), preset_unit := u\<rparr>"
proof -
  let ?step = "42 # 47 # digits_of n"
  have n: "num_text (interval_n (Some (Num (of_nat n)))) = digits_of n"
    using assms num_text_nat [OF assms(2)] by (simp add: interval_n_def)
  have no: "js ''0'' \<noteq> ?step" "js ''*'' \<noteq> ?step" by (simp_all add: js_def)
  have "presetFromCron (?step @ 32 # js ''*'' @ 32 # js ''*'' @ 32 # js ''*'' @ 32 # js ''*'')
      = defaultCronPreset\<lparr>freq := Interval, preset_n := Num (of_nat n), preset_unit := Minutes\<rparr>"
    using no by (subst presetFromCron_fields)
      (simp_all add: field_ok_step field_ok_lits preset_of_fields_def Let_def stepValue_step [OF assms]
        cong: option.case_cong)
  moreover have "presetFromCron (js ''0'' @ 32 # ?step @ 32 # js ''*'' @ 32 # js ''*'' @ 32 # js ''*'')
      = defaultCronPreset\<lparr>freq := Interval, preset_n := Num (of_nat n), preset_unit := Hours\<rparr>"
    using no by (subst presetFromCron_fields)
      (simp_all add: field_ok_step field_ok_lits preset_of_fields_def Let_def stepValue_step [OF assms]
        cong: option.case_cong)
  moreover have "presetFromCron (js ''0'' @ 32 # js ''0'' @ 32 # ?step @ 32 # js ''*'' @ 32 # js ''*'')
      = defaultCronPreset\<lparr>freq := Interval, preset_n := Num (of_nat n), preset_unit := Days\<rparr>"
    using no by (subst presetFromCron_fields)
      (simp_all add: field_ok_step field_ok_lits preset_of_fields_def Let_def stepValue_step [OF assms]
        cong: option.case_cong)
  ultimately show ?thesis
    by (cases u) (simp_all add: cronFromPreset_def input_of_def Let_def n js_def defaultCronPreset_def)
qed

lemma clock_fields:
  assumes "h < 24" and "m < 60" and "field_ok d" and "field_ok w" and "stepValue d = None"
  shows "presetFromCron (digits_of m @ 32 # digits_of h @ 32 # d @ 32 # js ''*'' @ 32 # w) =
    (let base = defaultCronPreset; time = formatClock (Num (of_nat h)) (Num (of_nat m)) in
     if d = js ''*'' \<and> w = js ''1-5'' then base\<lparr>freq := Weekdays, preset_time := time\<rparr>
     else if d = js ''*'' \<and> w = js ''1'' then base\<lparr>freq := Every_week, preset_time := time\<rparr>
     else if d = js ''1'' \<and> w = js ''*'' then base\<lparr>freq := Every_month, preset_time := time\<rparr>
     else if d = js ''*'' \<and> w = js ''*'' then base\<lparr>freq := Every_day, preset_time := time\<rparr>
     else base\<lparr>freq := Advanced,
       preset_cron := digits_of m @ 32 # digits_of h @ 32 # d @ 32 # js ''*'' @ 32 # w\<rparr>)"
proof -
  have num: "to_number (digits_of h) = Num (of_nat h)" "to_number (digits_of m) = Num (of_nat m)"
    using assms(1,2) by (simp_all add: to_number_digits_of)
  show ?thesis
    by (subst presetFromCron_fields [OF field_ok_digits field_ok_digits assms(3) field_ok_lits(1) assms(4)])
      (auto simp: preset_of_fields_def Let_def num digits_of_ne_lits stepValue_digits stepValue_lits assms(5)
        cong: option.case_cong)
qed

lemma clock_roundtrip:
  assumes "f \<in> set clock_freqs" and "h < 24" and "m < 60"
  shows "presetFromCron (cronFromPreset (input_of
      (defaultCronPreset\<lparr>freq := f, preset_time := formatClock (Num (of_nat h)) (Num (of_nat m))\<rparr>)))
    = defaultCronPreset\<lparr>freq := f, preset_time := formatClock (Num (of_nat h)) (Num (of_nat m))\<rparr>"
proof -
  note clock = parse_format_clock [OF assms(2,3)]
  have nums: "num_text (Num (of_nat h)) = digits_of h" "num_text (Num (of_nat m)) = digits_of m"
    by (rule num_text_nat, use assms in simp)+
  have lits: "js '' * * *'' = 32 # js ''*'' @ 32 # js ''*'' @ 32 # js ''*''"
    "js '' * * 1-5'' = 32 # js ''*'' @ 32 # js ''*'' @ 32 # js ''1-5''"
    "js '' * * 1'' = 32 # js ''*'' @ 32 # js ''*'' @ 32 # js ''1''"
    "js '' 1 * *'' = 32 # js ''1'' @ 32 # js ''*'' @ 32 # js ''*''"
    by (simp_all add: js_def)
  note fields = clock_fields [OF assms(2,3)]
  have "f = Every_day \<or> f = Weekdays \<or> f = Every_week \<or> f = Every_month"
    using assms(1) by (simp add: clock_freqs_def)
  then show ?thesis
    by (elim disjE)
      (simp_all add: cronFromPreset_def input_of_def Let_def clock nums lits fields field_ok_lits stepValue_lits
        del: num_text.simps)
qed


definition sample_preset :: cron_preset where
  "sample_preset = defaultCronPreset\<lparr>freq := Weekdays, preset_time := js ''5:05 PM''\<rparr>"


end
