(* ===== verification/Network_Address.thy ===== *)
theory Network_Address
  imports JsNumber
begin

text \<open>
  Addresses a fetch may reach (\<open>packages/adapters/src/network-address.ts\<close>): the textual forms of
  IPv4 and IPv6 addresses, the ranges counted as private, as cloud metadata, as link-local and as
  Tailscale, and the name lookups that hand only checked addresses to the dialler. \<open>isIP\<close> is that of
  \<open>node:net\<close>; \<open>toLowerCase\<close> is a parameter.
\<close>

unbundle bit_operations_syntax

section \<open>\<open>isIP\<close> of the runtime\<close>

text \<open>An octet: \<open>25[0-5]|2[0-4]\\d|1\\d\\d|[1-9]\\d|\\d\<close>.\<close>

definition v4_octet :: "js_string \<Rightarrow> bool" where
  "v4_octet s \<longleftrightarrow> all_digits s \<and> length s \<le> 3 \<and> nat_of_digits s \<le> 255 \<and> (length s = 1 \<or> hd s \<noteq> 48)"

definition is_ipv4 :: "js_string \<Rightarrow> bool" where
  "is_ipv4 s \<longleftrightarrow> length (split_on 46 s) = 4 \<and> (\<forall>p \<in> set (split_on 46 s). v4_octet p)"

definition v6_group :: "js_string \<Rightarrow> bool" where
  "v6_group s \<longleftrightarrow> s \<noteq> [] \<and> length s \<le> 4 \<and> (\<forall>c \<in> set s. hex_val c \<noteq> None)"

text \<open>The text before the first \<open>::\<close> and the text after it, if there is one.\<close>

fun split_double :: "js_string \<Rightarrow> js_string \<times> js_string option" where
  "split_double [] = ([], None)"
| "split_double (c # s) =
     (if c = 58 \<and> s \<noteq> [] \<and> hd s = 58 then ([], Some (tl s))
      else case split_double s of (a, b) \<Rightarrow> (c # a, b))"

text \<open>The number of groups of a colon-separated part, whose last group may be a dotted address that
  stands for two; nothing if a group is malformed.\<close>

fun count_groups :: "bool \<Rightarrow> js_string list \<Rightarrow> nat option" where
  "count_groups dotted [] = Some 0"
| "count_groups dotted [g] = (if v6_group g then Some 1 else if dotted \<and> is_ipv4 g then Some 2 else None)"
| "count_groups dotted (g # gs) = (if v6_group g then map_option Suc (count_groups dotted gs) else None)"

definition part_groups :: "js_string \<Rightarrow> js_string list" where
  "part_groups s = (if s = [] then [] else split_on 58 s)"

definition is_ipv6_plain :: "js_string \<Rightarrow> bool" where
  "is_ipv6_plain s =
     (case split_double s of
        (a, None) \<Rightarrow> count_groups True (part_groups a) = Some 8
      | (a, Some b) \<Rightarrow>
          (case (count_groups False (part_groups a), count_groups True (part_groups b)) of
             (Some m, Some n) \<Rightarrow> m + n \<le> 7
           | _ \<Rightarrow> False))"

definition zone_unit :: "unit16 \<Rightarrow> bool" where
  "zone_unit c \<longleftrightarrow> is_digit c \<or> (97 \<le> c \<and> c \<le> 122) \<or> (65 \<le> c \<and> c \<le> 90) \<or> c \<in> {45, 46, 58}"

text \<open>A zone may follow the address: \<open>%[0-9a-zA-Z-.:]{1,}\<close>.\<close>

definition is_ipv6 :: "js_string \<Rightarrow> bool" where
  "is_ipv6 s =
     (let a = takeWhile (\<lambda>c. c \<noteq> 37) s; z = drop (length a) s in
      is_ipv6_plain a \<and> (z = [] \<or> tl z \<noteq> [] \<and> (\<forall>c \<in> set (tl z). zone_unit c)))"

definition isIP :: "js_string \<Rightarrow> nat" where
  "isIP s = (if is_ipv4 s then 4 else if is_ipv6 s then 6 else 0)"

section \<open>Reading an address\<close>

text \<open>\<open>ToInt32\<close>, as the 32 bits.\<close>

fun to_int32 :: "js_num \<Rightarrow> 32 word" where
  "to_int32 (Num r) = (if r < 0 then - word_of_int \<lfloor>- r\<rfloor> else word_of_int \<lfloor>r\<rfloor>)"
| "to_int32 _ = 0"

definition ipv4ToNumber :: "js_string \<Rightarrow> 32 word" where
  "ipv4ToNumber s = foldl (\<lambda>r p. push_bit 8 r OR to_int32 (to_number p)) 0 (split_on 46 s)"

fun hex_text :: "nat \<Rightarrow> js_string" where
  "hex_text n =
     (let d = n mod 16; c = (if d < 10 then of_nat (48 + d) else of_nat (87 + d)) in
      if n < 16 then [c] else hex_text (n div 16) @ [c])"

declare hex_text.simps [simp del]

text \<open>\<open>toString(16)\<close> of the result of a 32-bit operation.\<close>

definition int32_text16 :: "32 word \<Rightarrow> js_string" where
  "int32_text16 w = (if sint w < 0 then 45 # hex_text (nat (- sint w)) else hex_text (nat (sint w)))"

definition colon_prefix :: "js_string \<Rightarrow> js_string" where
  "colon_prefix s = (case lastIndexOf s 58 of Some i \<Rightarrow> take (Suc i) s | None \<Rightarrow> [])"

definition replaceIpv4Tail :: "js_string \<Rightarrow> js_string \<Rightarrow> js_string option" where
  "replaceIpv4Tail s ta =
     (if isIP ta \<noteq> 4 then None
      else case map (\<lambda>p. to_int32 (to_number p)) (split_on 46 ta) of
        a # b # c # d # _ \<Rightarrow>
          Some (colon_prefix s @ int32_text16 (push_bit 8 a OR b) @ 58 # int32_text16 (push_bit 8 c OR d))
      | _ \<Rightarrow> None)"

text \<open>\<open>BigInt(`0x${group || "0"}`)\<close>, which throws on anything but hexadecimal digits.\<close>

definition group_value :: "js_string \<Rightarrow> int option" where
  "group_value g =
     (let t = trimEnd (if g = [] then [48] else g) in
      if t = [] then None else map_option int (radix_value 16 0 t))"

fun fold_groups :: "int \<Rightarrow> js_string list \<Rightarrow> int option" where
  "fold_groups r [] = Some r"
| "fold_groups r (g # gs) =
     (case group_value g of Some v \<Rightarrow> fold_groups (push_bit 16 r OR v) gs | None \<Rightarrow> None)"

text \<open>The groups of a text without dots, filled up at \<open>::\<close>, as a number; \<open>double\<close> tells whether the
  original value has \<open>::\<close>.\<close>

definition ipv6_groups :: "bool \<Rightarrow> js_string \<Rightarrow> int option" where
  "ipv6_groups double n =
     (let leftValue = fst (split_double n);
          rightValue = (case snd (split_double n) of Some b \<Rightarrow> fst (split_double b) | None \<Rightarrow> []);
          left_groups = part_groups leftValue; right_groups = part_groups rightValue;
          missing = 8 - int (length left_groups) - int (length right_groups);
          groups = left_groups @ replicate (nat missing) [48] @ right_groups
      in if \<not> double \<and> missing \<noteq> 0 then None
         else if length groups \<noteq> 8 then None
         else fold_groups 0 groups)"

definition parseIpv6 :: "js_string \<Rightarrow> int option" where
  "parseIpv6 s =
     (if isIP s \<noteq> 6 then None
      else
        let dottedTail = drop (length (colon_prefix s)) s;
            normalized = (if 46 \<in> set dottedTail then replaceIpv4Tail s dottedTail else Some s)
        in case normalized of
          None \<Rightarrow> None
        | Some n \<Rightarrow> if n = [] then None else ipv6_groups (snd (split_double s) \<noteq> None) n)"

section \<open>Classes of addresses\<close>

fun at_least :: "js_num option \<Rightarrow> rat \<Rightarrow> bool" where
  "at_least (Some (Num r)) k = (k \<le> r)"
| "at_least (Some (Infty neg)) k = (\<not> neg)"
| "at_least _ k = False"

fun at_most :: "js_num option \<Rightarrow> rat \<Rightarrow> bool" where
  "at_most (Some (Num r)) k = (r \<le> k)"
| "at_most (Some (Infty neg)) k = neg"
| "at_most _ k = False"

definition entry :: "'a list \<Rightarrow> nat \<Rightarrow> 'a option" where
  "entry xs i = (if i < length xs then Some (xs ! i) else None)"

definition unbracket :: "js_string \<Rightarrow> js_string" where
  "unbracket s =
     (let t = (if s \<noteq> [] \<and> hd s = 91 then tl s else s) in
      if t \<noteq> [] \<and> last t = 93 then butlast t else t)"

text \<open>\<open>/^::ffff:(\\d+\\.\\d+\\.\\d+\\.\\d+)$/\<close>\<close>

definition mapped_ipv4 :: "js_string \<Rightarrow> js_string option" where
  "mapped_ipv4 s =
     (let parts = split_on 46 (drop 7 s) in
      if startsWith s (js ''::ffff:'') \<and> length parts = 4 \<and> (\<forall>p \<in> set parts. all_digits p)
      then Some (drop 7 s) else None)"

text \<open>The IPv4 address a value is, or is mapped to.\<close>

definition ipv4_of :: "js_string \<Rightarrow> js_string option" where
  "ipv4_of s = (case mapped_ipv4 s of Some m \<Rightarrow> Some m | None \<Rightarrow> if isIP s = 4 then Some s else None)"

definition isPrivateIpv4Number :: "32 word \<Rightarrow> bool" where
  "isPrivateIpv4Number w =
     (let a = drop_bit 24 w AND 0xff; b = drop_bit 16 w AND 0xff in
      a = 0 \<or> a = 10 \<or> a = 127 \<or> a = 169 \<and> b = 254 \<or> a = 172 \<and> 16 \<le> b \<and> b \<le> 31 \<or>
      a = 192 \<and> b = 168 \<or> a = 100 \<and> 64 \<le> b \<and> b \<le> 127 \<or> a = 198 \<and> (b = 18 \<or> b = 19) \<or> 224 \<le> a)"

definition getEmbeddedIpv4Number :: "int \<Rightarrow> 32 word option" where
  "getEmbeddedIpv4Number ipv6 =
     (let ipv4Prefix = drop_bit 32 ipv6 in
      if ipv4Prefix = 0xffff \<or> ipv4Prefix = 0 then Some (word_of_int (ipv6 AND 0xffffffff))
      else if ipv4Prefix = push_bit 64 0x64ff9b then Some (word_of_int (ipv6 AND 0xffffffff))
      else if drop_bit 112 ipv6 = 0x2002 then Some (word_of_int (drop_bit 80 ipv6 AND 0xffffffff))
      else None)"

definition private_octets :: "js_num option \<Rightarrow> js_num option \<Rightarrow> bool" where
  "private_octets a b \<longleftrightarrow>
     a = Some (Num 0) \<or> a = Some (Num 10) \<or> a = Some (Num 127) \<or>
     a = Some (Num 169) \<and> b = Some (Num 254) \<or>
     a = Some (Num 172) \<and> at_least b 16 \<and> at_most b 31 \<or>
     a = Some (Num 192) \<and> b = Some (Num 168) \<or>
     a = Some (Num 100) \<and> at_least b 64 \<and> at_most b 127 \<or>
     a = Some (Num 198) \<and> (b = Some (Num 18) \<or> b = Some (Num 19)) \<or>
     at_least a 224"

definition private_ipv6 :: "int \<Rightarrow> bool" where
  "private_ipv6 ipv6 =
     (if ipv6 = 0 \<or> ipv6 = 1 then True
      else if drop_bit 120 ipv6 = 0xff then True
      else if drop_bit 118 ipv6 = 0x3fa \<or> drop_bit 118 ipv6 = 0x3fb then True
      else if drop_bit 120 ipv6 AND 0xfe = 0xfc then True
      else case getEmbeddedIpv4Number ipv6 of Some w \<Rightarrow> isPrivateIpv4Number w | None \<Rightarrow> False)"

definition isPrivateAddress :: "(js_string \<Rightarrow> js_string) \<Rightarrow> js_string \<Rightarrow> bool" where
  "isPrivateAddress lower address =
     (let v = unbracket (lower address) in
      case ipv4_of v of
        None \<Rightarrow> (case parseIpv6 v of None \<Rightarrow> True | Some n \<Rightarrow> private_ipv6 n)
      | Some t \<Rightarrow>
          let octets = map to_number (split_on 46 t) in private_octets (entry octets 0) (entry octets 1))"

definition cloud_metadata_ipv4 :: "32 word list" where
  "cloud_metadata_ipv4 = [ipv4ToNumber (js ''169.254.169.254''), ipv4ToNumber (js ''100.100.100.200'')]"

definition isCloudMetadataIpv4Number :: "32 word \<Rightarrow> bool" where
  "isCloudMetadataIpv4Number w \<longleftrightarrow> w \<in> set cloud_metadata_ipv4"

definition aws_imds_ipv6 :: int where
  "aws_imds_ipv6 = 0xfd000ec2000000000000000000000254"

definition isCloudMetadataAddress :: "(js_string \<Rightarrow> js_string) \<Rightarrow> js_string \<Rightarrow> bool" where
  "isCloudMetadataAddress lower address =
     (let v = unbracket (lower address) in
      case ipv4_of v of
        Some t \<Rightarrow> isCloudMetadataIpv4Number (ipv4ToNumber t)
      | None \<Rightarrow>
          (case parseIpv6 v of
             None \<Rightarrow> False
           | Some n \<Rightarrow> if n = aws_imds_ipv6 then True
               else case getEmbeddedIpv4Number n of
                 Some w \<Rightarrow> isCloudMetadataIpv4Number w | None \<Rightarrow> False))"

definition tailscale_ula_prefix :: int where
  "tailscale_ula_prefix = 0xfd7a115ca1e0"

definition isTailscaleAddress :: "(js_string \<Rightarrow> js_string) \<Rightarrow> js_string \<Rightarrow> bool" where
  "isTailscaleAddress lower address =
     (let v = unbracket (lower address) in
      case ipv4_of v of
        Some t \<Rightarrow>
          let octets = map to_number (split_on 46 t) in
          entry octets 0 = Some (Num 100) \<and> at_least (entry octets 1) 64 \<and> at_most (entry octets 1) 127
      | None \<Rightarrow>
          (case parseIpv6 v of None \<Rightarrow> False | Some n \<Rightarrow> drop_bit 80 n = tailscale_ula_prefix))"

definition isLinkLocalAddress :: "(js_string \<Rightarrow> js_string) \<Rightarrow> js_string \<Rightarrow> bool" where
  "isLinkLocalAddress lower address =
     (let v = unbracket (lower address) in
      case ipv4_of v of
        Some t \<Rightarrow>
          let octets = map to_number (split_on 46 t) in
          entry octets 0 = Some (Num 169) \<and> entry octets 1 = Some (Num 254)
      | None \<Rightarrow>
          (case parseIpv6 v of
             None \<Rightarrow> False
           | Some n \<Rightarrow>
               let ipv4Prefix = drop_bit 32 n in
               if ipv4Prefix = 0xffff \<or> ipv4Prefix = 0
               then (let w = word_of_int (n AND 0xffffffff) :: 32 word in
                     drop_bit 24 w AND 0xff = 169 \<and> drop_bit 16 w AND 0xff = 254)
               else drop_bit 118 n = 0x3fa))"

section \<open>Lookups\<close>

record resolved_address =
  address :: js_string
  family :: int

datatype family_option = Family_text js_string | Family_number int | Family_absent

fun familyNumber :: "family_option \<Rightarrow> int option" where
  "familyNumber (Family_text s) =
     (if s = js ''IPv4'' then Some 4 else if s = js ''IPv6'' then Some 6 else None)"
| "familyNumber (Family_number n) = Some n"
| "familyNumber Family_absent = None"

datatype lookup_argument = Options_absent | Options_number int | Options_object bool family_option

fun lookupOptions :: "lookup_argument \<Rightarrow> bool \<times> int option" where
  "lookupOptions Options_absent = (False, None)"
| "lookupOptions (Options_number n) = (False, Some n)"
| "lookupOptions (Options_object a f) = (a, familyNumber f)"

datatype lookup_error = Unresolved | Lookup_failed js_string

datatype delivered = Every "resolved_address list" | Single js_string int

definition selectLookupAddress ::
    "resolved_address list \<Rightarrow> bool \<times> int option \<Rightarrow> (lookup_error, delivered) res" where
  "selectLookupAddress addresses options =
     (let requested = (case snd options of Some f \<Rightarrow> f | None \<Rightarrow> 0);
          candidates = filter (\<lambda>e. requested = 0 \<or> family e = requested) addresses
      in if fst options then (if candidates = [] then Inl Unresolved else Inr (Every candidates))
         else case candidates of
           [] \<Rightarrow> Inl Unresolved
         | e # _ \<Rightarrow> Inr (Single (address e) (family e)))"

text \<open>What the dialler's callback receives.\<close>

definition createAddressCheckedLookup ::
    "(js_string \<Rightarrow> (lookup_error, resolved_address list) res) \<Rightarrow>
     (resolved_address list \<Rightarrow> js_string \<Rightarrow> (lookup_error, unit) res) \<Rightarrow>
     js_string \<Rightarrow> lookup_argument \<Rightarrow> (lookup_error, delivered) res" where
  "createAddressCheckedLookup resolve validate host options =
     and_then (resolve host) (\<lambda>addresses.
     and_then (validate addresses host) (\<lambda>_. selectLookupAddress addresses (lookupOptions options)))"

definition normalizeLookupHostname :: "(js_string \<Rightarrow> js_string) \<Rightarrow> js_string \<Rightarrow> js_string" where
  "normalizeLookupHostname lower host = lower (unbracket host)"

definition pinnedAddressesFor ::
    "(js_string \<Rightarrow> js_string) \<Rightarrow> (js_string \<times> resolved_address list) option \<Rightarrow> js_string \<Rightarrow>
     resolved_address list option" where
  "pinnedAddressesFor lower pin host =
     (case pin of
        None \<Rightarrow> None
      | Some (name, addresses) \<Rightarrow>
          if normalizeLookupHostname lower host \<noteq> normalizeLookupHostname lower name then None
          else Some addresses)"

text \<open>\<open>dns.lookup\<close> while a pin is installed; \<open>original\<close> is the runtime's own.\<close>

definition pinnedLookup ::
    "(js_string \<Rightarrow> js_string) \<Rightarrow> (js_string \<times> resolved_address list) option \<Rightarrow>
     (js_string \<Rightarrow> lookup_argument \<Rightarrow> (lookup_error, delivered) res) \<Rightarrow>
     js_string \<Rightarrow> lookup_argument \<Rightarrow> (lookup_error, delivered) res" where
  "pinnedLookup lower pin original host options =
     (case pinnedAddressesFor lower pin host of
        Some addresses \<Rightarrow> selectLookupAddress addresses (lookupOptions options)
      | None \<Rightarrow> original host options)"

section \<open>Shift and or is positional notation\<close>

lemma int_shift_or: "0 \<le> v \<Longrightarrow> v < 65536 \<Longrightarrow> push_bit 16 r OR v = r * 65536 + (v :: int)"
proof -
  assume v: "0 \<le> v" "v < 65536"
  then have "take_bit 16 v = v" by (simp add: take_bit_int_eq_self_iff)
  then have low: "bit v n \<Longrightarrow> n < 16" for n by (metis bit_take_bit_iff)
  have "push_bit 16 r AND v = 0"
    by (intro bit_eqI) (auto simp: bit_simps dest: low)
  then have "push_bit 16 r OR v = push_bit 16 r + v" by (rule disjunctive_add_eq_or [symmetric])
  then show ?thesis by (simp add: push_bit_eq_mult)
qed

lemma word_shift_or:
  fixes r x :: "32 word"
  assumes "unat r < 2 ^ 24" and "unat x < 256"
  shows "unat (push_bit 8 r OR x) = unat r * 256 + unat x"
proof -
  have "take_bit 8 x = x" using assms(2) by (simp add: word_unat_eq_iff unsigned_take_bit_eq take_bit_nat_eq_self)
  then have low: "bit x n \<Longrightarrow> n < 8" for n by (metis bit_take_bit_iff)
  have "push_bit 8 r AND x = 0"
    by (intro bit_eqI) (auto simp: bit_simps dest: low)
  then have eq: "push_bit 8 r OR x = push_bit 8 r + x" by (rule disjunctive_add_eq_or [symmetric])
  have "unat (push_bit 8 r) = unat r * 256"
    using assms(1) by (simp add: push_bit_eq_mult unat_word_ariths)
  then show ?thesis using assms unfolding eq by (simp add: unat_word_ariths)
qed

section \<open>Dotted addresses\<close>

lemma octet_number:
  assumes "v4_octet s"
  shows "to_number s = Num (of_nat (nat_of_digits s))" and "nat_of_digits s < 256"
    and "unat (to_int32 (to_number s)) = nat_of_digits s"
proof -
  show small: "nat_of_digits s < 256" using assms by (simp add: v4_octet_def)
  show num: "to_number s = Num (of_nat (nat_of_digits s))"
    using assms small by (intro to_number_digits) (simp_all add: v4_octet_def)
  show "unat (to_int32 (to_number s)) = nat_of_digits s"
    unfolding num using small by (simp add: unat_of_nat take_bit_nat_eq_self)
qed

lemma split_on_units: "set s \<subseteq> insert d (\<Union>w \<in> set (split_on d s). set w)"
proof (induction s)
  case (Cons c s)
  then show ?case by (cases "split_on d s") auto
qed simp

lemma v4_units: "is_ipv4 s \<Longrightarrow> c \<in> set s \<Longrightarrow> is_digit c \<or> c = 46"
  using split_on_units [of s 46] by (auto simp: is_ipv4_def v4_octet_def all_digits_def subset_iff)

lemma v4_no_units: "is_ipv4 s \<Longrightarrow> 58 \<notin> set s \<and> 37 \<notin> set s \<and> 46 \<in> set s \<and> s \<noteq> []"
proof -
  assume v4: "is_ipv4 s"
  then have "split_on 46 s \<noteq> [s]" by (auto simp: is_ipv4_def)
  then have "46 \<in> set s" using split_on_single by blast
  moreover have "58 \<notin> set s \<and> 37 \<notin> set s" using v4_units [OF v4, of 58] v4_units [OF v4, of 37] by (auto simp: is_digit_def)
  ultimately show ?thesis by auto
qed

lemma v4_parts:
  assumes "is_ipv4 s"
  obtains a b c d where "split_on 46 s = [a, b, c, d]" and "v4_octet a" "v4_octet b" "v4_octet c" "v4_octet d"
proof -
  obtain a b c d where p: "split_on 46 s = [a, b, c, d]"
    using assms by (auto simp: is_ipv4_def numeral_eq_Suc length_Suc_conv)
  with assms that show ?thesis by (auto simp: is_ipv4_def)
qed

lemma ipv4_number:
  assumes "split_on 46 s = [a, b, c, d]" and "v4_octet a" "v4_octet b" "v4_octet c" "v4_octet d"
  shows "unat (ipv4ToNumber s) =
    ((nat_of_digits a * 256 + nat_of_digits b) * 256 + nat_of_digits c) * 256 + nat_of_digits d"
proof -
  note n = octet_number(2,3) [OF assms(2)] octet_number(2,3) [OF assms(3)] octet_number(2,3) [OF assms(4)]
    octet_number(2,3) [OF assms(5)]
  define x1 x2 x3 x4 where "x1 = to_int32 (to_number a)" and "x2 = to_int32 (to_number b)"
    and "x3 = to_int32 (to_number c)" and "x4 = to_int32 (to_number d)"
  note x = x1_def x2_def x3_def x4_def
  have 2: "unat (push_bit 8 x1 OR x2) = nat_of_digits a * 256 + nat_of_digits b"
    using word_shift_or [of x1 x2] n by (simp add: x)
  have 3: "unat (push_bit 8 (push_bit 8 x1 OR x2) OR x3) =
      (nat_of_digits a * 256 + nat_of_digits b) * 256 + nat_of_digits c"
    using word_shift_or [of "push_bit 8 x1 OR x2" x3] n unfolding 2 by (simp add: x)
  have "unat (push_bit 8 (push_bit 8 (push_bit 8 x1 OR x2) OR x3) OR x4) =
      ((nat_of_digits a * 256 + nat_of_digits b) * 256 + nat_of_digits c) * 256 + nat_of_digits d"
    using word_shift_or [of "push_bit 8 (push_bit 8 x1 OR x2) OR x3" x4] n unfolding 3 by (simp add: x)
  moreover have "ipv4ToNumber s = push_bit 8 (push_bit 8 (push_bit 8 x1 OR x2) OR x3) OR x4"
    by (simp add: ipv4ToNumber_def assms(1) x del: to_int32.simps)
  ultimately show ?thesis by simp
qed

section \<open>The reserved ranges\<close>

text \<open>The special-use blocks by network and prefix length, as the registries list them.\<close>

definition reserved_ipv4_blocks :: "(nat \<times> nat) list" where
  "reserved_ipv4_blocks =
     [(0 * 2 ^ 24, 8), (10 * 2 ^ 24, 8), (100 * 2 ^ 24 + 64 * 2 ^ 16, 10), (127 * 2 ^ 24, 8),
      (169 * 2 ^ 24 + 254 * 2 ^ 16, 16), (172 * 2 ^ 24 + 16 * 2 ^ 16, 12), (192 * 2 ^ 24 + 168 * 2 ^ 16, 16),
      (198 * 2 ^ 24 + 18 * 2 ^ 16, 15), (224 * 2 ^ 24, 4), (240 * 2 ^ 24, 4)]"

definition in_block4 :: "nat \<Rightarrow> nat \<times> nat \<Rightarrow> bool" where
  "in_block4 n b \<longleftrightarrow> n div 2 ^ (32 - snd b) = fst b div 2 ^ (32 - snd b)"

definition reserved_ipv4 :: "nat \<Rightarrow> bool" where
  "reserved_ipv4 n \<longleftrightarrow> (\<exists>b \<in> set reserved_ipv4_blocks. in_block4 n b)"

lemma whole_part: "c < k \<Longrightarrow> e < k \<Longrightarrow> a * k + c = d * k + e \<longleftrightarrow> a = d \<and> c = (e :: nat)"
proof
  assume l: "c < k" "e < k" and "a * k + c = d * k + e"
  then have "(a * k + c) div k = (d * k + e) div k" "(a * k + c) mod k = (d * k + e) mod k" by simp_all
  with l show "a = d \<and> c = e" by simp
qed simp

lemma reserved_by_octets:
  fixes q :: nat
  assumes "q < 65536"
  shows "q div 256 = 0 \<or> q div 256 = 10 \<or> q div 256 = 127 \<or> q div 256 = 169 \<and> q mod 256 = 254 \<or>
      q div 256 = 172 \<and> 16 \<le> q mod 256 \<and> q mod 256 \<le> 31 \<or> q div 256 = 192 \<and> q mod 256 = 168 \<or>
      q div 256 = 100 \<and> 64 \<le> q mod 256 \<and> q mod 256 \<le> 127 \<or>
      q div 256 = 198 \<and> (q mod 256 = 18 \<or> q mod 256 = 19) \<or> 224 \<le> q div 256 \<longleftrightarrow>
    q div 256 = 0 \<or> q div 256 = 10 \<or> q div 64 = 401 \<or> q div 256 = 127 \<or> q = 43518 \<or> q div 16 = 2753 \<or>
      q = 49320 \<or> q div 2 = 25353 \<or> q div 4096 = 14 \<or> q div 4096 = 15"
proof -
  define a b where "a = q div 256" and "b = q mod 256"
  have q: "q = a * 256 + b" and ab: "a < 256" "b < 256" using assms by (auto simp: a_def b_def)
  have split: "(a * (k * c) + b) div c = a * k + b div c" if "0 < c" for k c
    using that div_mult_self3 [of c "a * k" b] by (simp add: mult.assoc)
  have d: "(a * 256 + b) div 64 = a * 4 + b div 64" "(a * 256 + b) div 16 = a * 16 + b div 16"
    "(a * 256 + b) div 2 = a * 128 + b div 2"
    using split [of 64 4] split [of 16 16] split [of 2 128] by simp_all
  have hi: "(a * 256 + b) div 256 = a" "(a * 256 + b) mod 256 = b" using ab by simp_all
  have top: "(a * 256 + b) div 4096 = a div 16"
    using div_mult2_eq [of "a * 256 + b" 256 16] hi(1) by simp
  have 1: "a * 256 + b = 43518 \<longleftrightarrow> a = 169 \<and> b = 254" "a * 256 + b = 49320 \<longleftrightarrow> a = 192 \<and> b = 168"
    using whole_part [OF ab(2), of 254 a 169] whole_part [OF ab(2), of 168 a 192] by simp_all
  have b64: "b div 64 < 4" "64 \<le> b \<and> b \<le> 127 \<longleftrightarrow> b div 64 = 1" using ab(2) by auto
  have b16: "b div 16 < 16" "16 \<le> b \<and> b \<le> 31 \<longleftrightarrow> b div 16 = 1" using ab(2) by auto
  have b2: "b div 2 < 128" "b = 18 \<or> b = 19 \<longleftrightarrow> b div 2 = 9" using ab(2) by auto
  have 2: "a * 4 + b div 64 = 401 \<longleftrightarrow> a = 100 \<and> 64 \<le> b \<and> b \<le> 127" unfolding b64(2) using whole_part [OF b64(1), of 1 a 100] by simp
  have 3: "a * 16 + b div 16 = 2753 \<longleftrightarrow> a = 172 \<and> 16 \<le> b \<and> b \<le> 31" unfolding b16(2) using whole_part [OF b16(1), of 1 a 172] by simp
  have 4: "a * 128 + b div 2 = 25353 \<longleftrightarrow> a = 198 \<and> (b = 18 \<or> b = 19)" unfolding b2(2) using whole_part [OF b2(1), of 9 a 198] by simp
  have 5: "224 \<le> a \<longleftrightarrow> a div 16 = 14 \<or> a div 16 = 15" using ab(1) by auto
  show ?thesis unfolding q d hi top 1 2 3 4 5 by blast
qed

lemma reserved_ipv4_parts:
  "reserved_ipv4 n \<longleftrightarrow>
    (let q = n div 65536 in
     q div 256 = 0 \<or> q div 256 = 10 \<or> q div 64 = 401 \<or> q div 256 = 127 \<or> q = 43518 \<or> q div 16 = 2753 \<or>
      q = 49320 \<or> q div 2 = 25353 \<or> q div 4096 = 14 \<or> q div 4096 = 15)"
  by (simp add: reserved_ipv4_def reserved_ipv4_blocks_def in_block4_def Let_def div_mult2_eq [symmetric])

lemma octet_of_word:
  fixes w :: "32 word"
  shows "unat (drop_bit k w AND 0xff) = unat w div 2 ^ k mod 256"
proof -
  have "(0xff :: 32 word) = mask 8" by (simp add: mask_eq_decr_exp)
  then have "drop_bit k w AND 0xff = take_bit 8 (drop_bit k w)" by (simp add: take_bit_eq_mask)
  then show ?thesis by (simp only: unsigned_take_bit_eq unat_drop_bit_eq) (simp add: take_bit_eq_mod drop_bit_eq_div)
qed

theorem private_number_reserved: "isPrivateIpv4Number w \<longleftrightarrow> reserved_ipv4 (unat w)"
proof -
  define q where "q = unat w div 65536"
  have bound: "unat w < 2 ^ 32" using unsigned_less [of w] by simp
  then have q: "q < 65536" by (simp add: q_def)
  have a: "unat (drop_bit 24 w AND 0xff) = q div 256"
    using bound unfolding octet_of_word q_def by (simp add: div_mult2_eq [symmetric])
  have b: "unat (drop_bit 16 w AND 0xff) = q mod 256"
    unfolding octet_of_word q_def by simp
  show ?thesis
    unfolding isPrivateIpv4Number_def Let_def word_unat_eq_iff word_le_nat_alt a b reserved_ipv4_parts
      q_def [symmetric]
    using reserved_by_octets [OF q] by simp
qed

lemma private_octets_reserved:
  assumes "is_ipv4 s"
  shows "private_octets (entry (map to_number (split_on 46 s)) 0) (entry (map to_number (split_on 46 s)) 1) \<longleftrightarrow>
    reserved_ipv4 (unat (ipv4ToNumber s))"
proof -
  obtain a b c d where p: "split_on 46 s = [a, b, c, d]" and
    o: "v4_octet a" "v4_octet b" "v4_octet c" "v4_octet d" by (rule v4_parts [OF assms])
  define m n where "m = nat_of_digits a" and "n = nat_of_digits b"
  have mn: "m < 256" "n < 256" using octet_number(2) o by (simp_all add: m_def n_def)
  have "unat (ipv4ToNumber s) div 65536 = m * 256 + n"
    using ipv4_number [OF p o] octet_number(2) [OF o(3)] octet_number(2) [OF o(4)] by (simp add: m_def n_def)
  then have "reserved_ipv4 (unat (ipv4ToNumber s)) \<longleftrightarrow>
    m = 0 \<or> m = 10 \<or> m = 127 \<or> m = 169 \<and> n = 254 \<or> m = 172 \<and> 16 \<le> n \<and> n \<le> 31 \<or> m = 192 \<and> n = 168 \<or>
    m = 100 \<and> 64 \<le> n \<and> n \<le> 127 \<or> m = 198 \<and> (n = 18 \<or> n = 19) \<or> 224 \<le> m"
    using reserved_by_octets [of "m * 256 + n"] mn unfolding reserved_ipv4_parts by (simp add: Let_def)
  moreover have "entry (map to_number (split_on 46 s)) 0 = Some (Num (of_nat m))"
    "entry (map to_number (split_on 46 s)) 1 = Some (Num (of_nat n))"
    using octet_number(1) [OF o(1)] octet_number(1) [OF o(2)] by (simp_all add: entry_def p m_def n_def)
  moreover have "(of_nat x = (numeral k :: rat)) = (x = numeral k)" "(numeral k \<le> (of_nat x :: rat)) = (numeral k \<le> x)"
    "((of_nat x :: rat) \<le> numeral k) = (x \<le> numeral k)" for x k
    by (metis of_nat_eq_iff of_nat_numeral, metis of_nat_le_iff of_nat_numeral, metis of_nat_le_iff of_nat_numeral)
  ultimately show ?thesis by (simp add: private_octets_def)
qed

section \<open>Hexadecimal groups\<close>

lemma hex_val_bound: "hex_val c = Some d \<Longrightarrow> d < 16"
  by (auto simp: hex_val_def word_le_nat_alt split: if_splits)

lemma hex_val_not: "hex_val 58 = None" "hex_val 46 = None" "hex_val 37 = None" "hex_val 48 = Some 0"
  by (simp_all add: hex_val_def)

lemma hex_not_space: "hex_val c \<noteq> None \<Longrightarrow> \<not> is_space c"
  by (auto simp: hex_val_def is_space_def word_le_nat_alt split: if_splits)

definition hex_number :: "js_string \<Rightarrow> nat" where
  "hex_number s = foldl (\<lambda>r c. 16 * r + the (hex_val c)) 0 s"

lemma radix_value_fold:
  "\<forall>c \<in> set s. hex_val c \<noteq> None \<Longrightarrow> radix_value 16 r s = Some (foldl (\<lambda>r c. 16 * r + the (hex_val c)) r s)"
proof (induction s arbitrary: r)
  case (Cons c s)
  then obtain d where "hex_val c = Some d" by auto
  with Cons show ?case by (simp add: hex_val_bound)
qed simp

lemma hex_number_bound: "\<forall>c \<in> set s. hex_val c \<noteq> None \<Longrightarrow> hex_number s < 16 ^ length s"
proof (induction s rule: rev_induct)
  case (snoc c s)
  then obtain d where "hex_val c = Some d" by auto
  with snoc hex_val_bound [of c d] show ?case by (simp add: hex_number_def)
qed (simp add: hex_number_def)

lemma v6_group_value:
  assumes "v6_group g"
  shows "group_value g = Some (int (hex_number g))" and "hex_number g < 65536"
proof -
  have hex: "\<forall>c \<in> set g. hex_val c \<noteq> None" and ne: "g \<noteq> []" and len: "length g \<le> 4"
    using assms by (simp_all add: v6_group_def)
  have "trimEnd g = g" by (rule trimEnd_id) (simp add: ne hex hex_not_space)
  then show "group_value g = Some (int (hex_number g))"
    using ne by (simp add: group_value_def radix_value_fold [OF hex] hex_number_def)
  have "hex_number g < 16 ^ length g" by (rule hex_number_bound [OF hex])
  also have "\<dots> \<le> 16 ^ 4" by (rule power_increasing [OF len]) simp
  finally show "hex_number g < 65536" by simp
qed

lemma v6_group_zero: "v6_group [48]" "hex_number [48] = 0"
  by (simp_all add: v6_group_def hex_number_def hex_val_not)

text \<open>The number that groups of 16 bits make.\<close>

definition groups_number :: "nat list \<Rightarrow> int" where
  "groups_number ns = foldl (\<lambda>r n. r * 65536 + int n) 0 ns"

lemma fold_groups_number:
  "\<forall>g \<in> set gs. v6_group g \<Longrightarrow>
   fold_groups r gs = Some (foldl (\<lambda>r n. r * 65536 + int n) r (map hex_number gs))"
proof (induction gs arbitrary: r)
  case (Cons g gs)
  then have g: "v6_group g" by simp
  have "push_bit 16 r OR int (hex_number g) = r * 65536 + int (hex_number g)"
    by (rule int_shift_or) (use v6_group_value(2) [OF g] in simp_all)
  with Cons show ?case by (simp add: v6_group_value(1) [OF g])
qed simp

lemma groups_number_bound:
  "\<forall>n \<in> set ns. n < 65536 \<Longrightarrow> 0 \<le> groups_number ns \<and> groups_number ns < 65536 ^ length ns"
  unfolding groups_number_def
proof (induction ns rule: rev_induct)
  case (snoc n ns)
  then show ?case by simp
qed simp

section \<open>Hexadecimal text of a number\<close>

lemma hex_text_unit:
  assumes "d < 16"
  shows "hex_val (if d < 10 then of_nat (48 + d) else of_nat (87 + d)) = Some d"
proof -
  have "unat (of_nat (48 + d) :: unit16) = 48 + d" "unat (of_nat (87 + d) :: unit16) = 87 + d"
    using assms by (simp_all add: unat_of_nat del: of_nat_add)
  then show ?thesis using assms by (simp add: hex_val_def word_le_nat_alt del: of_nat_add)
qed

lemma hex_text_back:
  "(\<forall>c \<in> set (hex_text n). hex_val c \<noteq> None) \<and> hex_number (hex_text n) = n \<and> hex_text n \<noteq> []"
proof (induction n rule: hex_text.induct)
  case (1 n)
  define c :: unit16 where "c = (if n mod 16 < 10 then of_nat (48 + n mod 16) else of_nat (87 + n mod 16))"
  have c: "hex_val c = Some (n mod 16)" unfolding c_def by (rule hex_text_unit) simp
  have eq: "hex_text n = (if n < 16 then [c] else hex_text (n div 16) @ [c])"
    unfolding hex_text.simps [of n] Let_def c_def ..
  show ?case
  proof (cases "n < 16")
    case True
    with c eq show ?thesis by (simp add: hex_number_def)
  next
    case False
    from "1.IH" [OF refl refl False]
    have "\<forall>c \<in> set (hex_text (n div 16)). hex_val c \<noteq> None" "hex_number (hex_text (n div 16)) = n div 16"
      by simp_all
    with False c eq show ?thesis by (simp add: hex_number_def)
  qed
qed

lemma hex_text_length: "n < 16 ^ Suc k \<Longrightarrow> length (hex_text n) \<le> Suc k"
proof (induction k arbitrary: n)
  case 0
  then show ?case by (simp add: hex_text.simps [of n] Let_def)
next
  case (Suc k)
  have "n div 16 < 16 ^ Suc k" using Suc.prems by (simp add: less_mult_imp_div_less mult.commute)
  from Suc.IH [OF this] show ?case by (simp add: hex_text.simps [of n] Let_def)
qed

lemma hex_text_group: "n < 65536 \<Longrightarrow> v6_group (hex_text n) \<and> hex_number (hex_text n) = n"
  using hex_text_back [of n] hex_text_length [of n 3] by (simp add: v6_group_def)

section \<open>The textual forms of an IPv6 address\<close>

text \<open>Groups in full, or with \<open>::\<close> standing for zero groups; a dotted address may end either. The form
  and the number it denotes, without the zone.\<close>

datatype ipv6_form = Full "js_string list" "js_string option" | Short "js_string list" "js_string list" "js_string option"

definition opt_list :: "'a option \<Rightarrow> 'a list" where
  "opt_list x = (case x of None \<Rightarrow> [] | Some a \<Rightarrow> [a])"

definition tail_numbers :: "js_string option \<Rightarrow> nat list" where
  "tail_numbers d =
     (case d of None \<Rightarrow> [] | Some t \<Rightarrow> [unat (ipv4ToNumber t) div 65536, unat (ipv4ToNumber t) mod 65536])"

definition tail_ok :: "js_string option \<Rightarrow> bool" where
  "tail_ok d = (case d of None \<Rightarrow> True | Some t \<Rightarrow> is_ipv4 t)"

fun form_ok :: "ipv6_form \<Rightarrow> bool" where
  "form_ok (Full gs d) \<longleftrightarrow> (\<forall>g \<in> set gs. v6_group g) \<and> tail_ok d \<and> length gs + length (tail_numbers d) = 8"
| "form_ok (Short ls gs d) \<longleftrightarrow> (\<forall>g \<in> set ls \<union> set gs. v6_group g) \<and> tail_ok d \<and>
     length ls + length gs + length (tail_numbers d) \<le> 7"

fun form_text :: "ipv6_form \<Rightarrow> js_string" where
  "form_text (Full gs d) = join [58] (gs @ opt_list d)"
| "form_text (Short ls gs d) = join [58] ls @ 58 # 58 # join [58] (gs @ opt_list d)"

fun form_numbers :: "ipv6_form \<Rightarrow> nat list" where
  "form_numbers (Full gs d) = map hex_number gs @ tail_numbers d"
| "form_numbers (Short ls gs d) =
     map hex_number ls @ replicate (8 - length ls - length gs - length (tail_numbers d)) 0 @
     map hex_number gs @ tail_numbers d"

definition form_value :: "ipv6_form \<Rightarrow> int" where
  "form_value f = groups_number (form_numbers f)"

lemma v6_group_units: "v6_group g \<Longrightarrow> 58 \<notin> set g \<and> 46 \<notin> set g \<and> 37 \<notin> set g \<and> g \<noteq> []"
  using hex_val_not by (auto simp: v6_group_def)

lemma split_double_join:
  assumes "\<forall>w \<in> set ws. 58 \<notin> set w \<and> w \<noteq> []"
  shows "split_double (join [58] ws @ 58 # 58 # r) = (join [58] ws, Some r)"
    and "split_double (join [58] ws) = (join [58] ws, None)"
proof -
  have word: "58 \<notin> set w \<Longrightarrow> split_double (w @ s) = (case split_double s of (a, b) \<Rightarrow> (w @ a, b))" for w s
    by (induction w) (auto split: prod.splits)
  have step: "58 \<notin> set w \<Longrightarrow> s \<noteq> [] \<Longrightarrow> hd s \<noteq> 58 \<Longrightarrow>
      split_double (w @ 58 # s) = (case split_double s of (a, b) \<Rightarrow> (w @ 58 # a, b))" for w s
    by (simp add: word split: prod.splits)
  have hd: "ws \<noteq> [] \<Longrightarrow> \<forall>w \<in> set ws. 58 \<notin> set w \<and> w \<noteq> [] \<Longrightarrow>
      join [58] ws \<noteq> [] \<and> hd (join [58] ws @ t) \<noteq> 58" for ws t
    by (cases ws; cases "tl ws") (auto simp: hd_append, (metis hd_in_set)+)
  show "split_double (join [58] ws @ 58 # 58 # r) = (join [58] ws, Some r)"
    using assms
  proof (induction "[58 :: unit16]" ws rule: join.induct)
    case (3 w v ws)
    then have "join [58] (v # ws) @ 58 # 58 # r \<noteq> []" "hd (join [58] (v # ws) @ 58 # 58 # r) \<noteq> 58"
      using hd [of "v # ws" "58 # 58 # r"] by auto
    with 3 step [of w "join [58] (v # ws) @ 58 # 58 # r"] show ?case by simp
  qed (simp_all add: word)
  show "split_double (join [58] ws) = (join [58] ws, None)"
    using assms
  proof (induction "[58 :: unit16]" ws rule: join.induct)
    case (2 w)
    then show ?case using word [of w "[]"] by simp
  next
    case (3 w v ws)
    then have "join [58] (v # ws) \<noteq> []" "hd (join [58] (v # ws)) \<noteq> 58"
      using hd [of "v # ws" "[]"] by auto
    with 3 step [of w "join [58] (v # ws)"] show ?case by simp
  qed simp
qed

lemma part_groups_join:
  assumes "\<forall>w \<in> set ws. 58 \<notin> set w \<and> w \<noteq> []"
  shows "part_groups (join [58] ws) = ws"
proof (cases "ws = []")
  case False
  then have "join [58] ws \<noteq> []" using assms by (cases ws; cases "tl ws") auto
  with False assms show ?thesis by (simp add: part_groups_def split_on_join)
qed (simp add: part_groups_def)

lemma count_groups_items:
  "\<forall>g \<in> set gs. v6_group g \<Longrightarrow> tail_ok d \<Longrightarrow>
   count_groups True (gs @ opt_list d) = Some (length gs + length (tail_numbers d))"
proof (induction gs)
  case Nil
  then show ?case
    using v4_no_units v6_group_units by (fastforce simp: opt_list_def tail_numbers_def tail_ok_def split: option.splits)
next
  case (Cons g gs)
  show ?case
  proof (cases "gs @ opt_list d")
    case Nil
    with Cons show ?thesis by (simp add: opt_list_def tail_numbers_def split: option.splits)
  next
    case (Cons h hs)
    with Cons.IH Cons.prems show ?thesis by simp
  qed
qed

lemma count_groups_plain: "\<forall>g \<in> set gs. v6_group g \<Longrightarrow> count_groups False gs = Some (length gs)"
proof (induction gs)
  case (Cons g gs)
  then show ?case by (cases gs) simp_all
qed simp

lemma item_words:
  assumes "\<forall>g \<in> set gs. v6_group g" and "tail_ok d"
  shows "\<forall>w \<in> set (gs @ opt_list d). 58 \<notin> set w \<and> w \<noteq> [] \<and> 37 \<notin> set w"
  using assms v6_group_units v4_no_units by (auto simp: opt_list_def tail_ok_def split: option.splits)

lemma plain_form: "form_ok f \<Longrightarrow> is_ipv6_plain (form_text f)"
proof (cases f)
  case (Full gs d)
  assume "form_ok f"
  with Full have f: "\<forall>g \<in> set gs. v6_group g" "tail_ok d" "length gs + length (tail_numbers d) = 8" by simp_all
  have w: "\<forall>w \<in> set (gs @ opt_list d). 58 \<notin> set w \<and> w \<noteq> []" using item_words [OF f(1,2)] by blast
  show ?thesis
    unfolding is_ipv6_plain_def Full form_text.simps split_double_join(2) [OF w]
    using count_groups_items [OF f(1,2)] f(3) by (simp add: part_groups_join [OF w])
next
  case (Short ls gs d)
  assume "form_ok f"
  with Short have f: "\<forall>g \<in> set gs. v6_group g" "tail_ok d" "\<forall>g \<in> set ls. v6_group g"
    "length ls + length gs + length (tail_numbers d) \<le> 7" by auto
  have w: "\<forall>w \<in> set (gs @ opt_list d). 58 \<notin> set w \<and> w \<noteq> []" using item_words [OF f(1,2)] by blast
  have l: "\<forall>w \<in> set ls. 58 \<notin> set w \<and> w \<noteq> []" using f(3) v6_group_units by blast
  show ?thesis
    unfolding is_ipv6_plain_def Short form_text.simps split_double_join(1) [OF l]
    using count_groups_items [OF f(1,2)] count_groups_plain [OF f(3)] f(4)
    by (simp add: part_groups_join [OF w] part_groups_join [OF l])
qed

section \<open>Every form is read as the number it denotes\<close>

lemma form_colon: "form_ok f \<Longrightarrow> \<exists>a d. form_text f = a @ 58 # d \<and> 58 \<notin> set d"
proof -
  have colon: "58 \<in> set (form_text f) \<Longrightarrow> ?thesis"
    by (metis in_set_conv_decomp_last)
  assume ok: "form_ok f"
  have "58 \<in> set (form_text f)"
  proof (cases f)
    case (Full gs d)
    have "length (tail_numbers d) = (if d = None then 0 else 2)" by (simp add: tail_numbers_def split: option.split)
    with ok Full have "2 \<le> length gs" by (auto split: if_splits)
    then obtain g h hs where "gs = g # h # hs" by (auto simp: numeral_eq_Suc Suc_le_length_iff)
    with Full show ?thesis by simp
  qed simp
  then show ?thesis by (rule colon)
qed

lemma join_units: "set (join [58] ws) \<subseteq> insert 58 (\<Union>w \<in> set ws. set w)"
  by (induction "[58 :: unit16]" ws rule: join.induct) auto

lemma form_units:
  assumes "form_ok f"
  shows "37 \<notin> set (form_text f)"
proof -
  note joined = join_units
  show ?thesis
  proof (cases f)
    case (Full gs d)
    with assms item_words [of gs d] joined [of "gs @ opt_list d"] show ?thesis by fastforce
  next
    case (Short ls gs d)
    with assms have "37 \<notin> set (join [58] ls)" "37 \<notin> set (join [58] (gs @ opt_list d))"
      using item_words [of gs d] item_words [of ls None] joined [of "gs @ opt_list d"] joined [of ls]
      by (fastforce simp: opt_list_def tail_ok_def)+
    with Short show ?thesis by simp
  qed
qed

lemma form_not_ipv4: "form_ok f \<Longrightarrow> \<not> is_ipv4 (form_text f)"
proof
  assume "form_ok f" "is_ipv4 (form_text f)"
  then show False using form_colon v4_no_units by fastforce
qed

lemma form_isIP: "form_ok f \<Longrightarrow> isIP (form_text f) = 6"
proof -
  assume ok: "form_ok f"
  have whole: "takeWhile (\<lambda>c. c \<noteq> 37) (form_text f) = form_text f"
    using form_units [OF ok] by (auto simp: takeWhile_eq_all_conv)
  show ?thesis
    unfolding isIP_def is_ipv6_def Let_def whole using form_not_ipv4 [OF ok] plain_form [OF ok] by simp
qed

lemma colon_prefix_at: "58 \<notin> set t \<Longrightarrow> colon_prefix (p @ 58 # t) = p @ [58]"
  by (simp add: colon_prefix_def lastIndexOf_append_sep)

text \<open>A form without a dotted tail, from its parts.\<close>

lemma fold_form:
  assumes "form_ok f" and "f = Full gs None \<or> f = Short ls gs None"
    and "(\<exists>gs. f = Full gs None) \<or> double"
  shows "ipv6_groups double (form_text f) = Some (form_value f)"
  using assms(2)
proof
  assume f: "f = Full gs None"
  with assms have ok: "\<forall>g \<in> set gs. v6_group g" "length gs = 8" by (simp_all add: tail_numbers_def)
  then have w: "\<forall>w \<in> set gs. 58 \<notin> set w \<and> w \<noteq> []" using v6_group_units by blast
  show ?thesis
    using ok(2) fold_groups_number [OF ok(1), of 0]
    by (simp add: ipv6_groups_def f opt_list_def split_double_join(2) [OF w] part_groups_join [OF w] part_groups_def [of "[]"]
        form_value_def groups_number_def tail_numbers_def)
next
  assume f: "f = Short ls gs None"
  with assms have ok: "\<forall>g \<in> set gs. v6_group g" "\<forall>g \<in> set ls. v6_group g" "length ls + length gs \<le> 7"
    by (simp_all add: tail_numbers_def ball_Un)
  have w: "\<forall>w \<in> set gs. 58 \<notin> set w \<and> w \<noteq> []" and l: "\<forall>w \<in> set ls. 58 \<notin> set w \<and> w \<noteq> []"
    using ok(1,2) v6_group_units by blast+
  define z where "z = 8 - length ls - length gs"
  have z: "nat (8 - int (length ls) - int (length gs)) = z" using ok(3) by (simp add: z_def)
  have "\<forall>g \<in> set (ls @ replicate z [48] @ gs). v6_group g" using ok(1,2) v6_group_zero(1) by auto
  from fold_groups_number [OF this, of 0]
  have "fold_groups 0 (ls @ replicate z [48] @ gs) = Some (form_value f)"
    by (simp add: f form_value_def groups_number_def tail_numbers_def z_def v6_group_zero(2) map_replicate_const)
  moreover have "length ls + (z + length gs) = 8" using ok(3) by (simp add: z_def)
  ultimately show ?thesis
    using assms(3) by (simp add: ipv6_groups_def f opt_list_def Let_def split_double_join(1) [OF l] split_double_join(2) [OF w]
        part_groups_join [OF w] part_groups_join [OF l] z)
qed

lemma int32_text16_small:
  assumes "unat w < 65536"
  shows "int32_text16 w = hex_text (unat w)"
proof -
  define k where "k = unat w"
  have u: "uint w = int k" by (simp add: k_def)
  have "signed_take_bit (LENGTH(32) - Suc 0) (int k) = int k"
    by (rule signed_take_bit_int_eq_self) (use assms in \<open>simp_all add: k_def [symmetric]\<close>)
  then have "sint w = int (unat w)" unfolding sint_uint u by (simp add: k_def)
  then show ?thesis by (simp add: int32_text16_def)
qed

lemma tail_words:
  assumes "is_ipv4 t"
  obtains h l where "replaceIpv4Tail s t = Some (colon_prefix s @ h @ 58 # l)" and "v6_group h" and "v6_group l"
    and "hex_number h = unat (ipv4ToNumber t) div 65536" and "hex_number l = unat (ipv4ToNumber t) mod 65536"
proof -
  obtain a b c d where p: "split_on 46 t = [a, b, c, d]" and
    o: "v4_octet a" "v4_octet b" "v4_octet c" "v4_octet d" by (rule v4_parts [OF assms])
  have pair: "int32_text16 (push_bit 8 (to_int32 (to_number x)) OR to_int32 (to_number y)) =
      hex_text (nat_of_digits x * 256 + nat_of_digits y)" if xy: "v4_octet x" "v4_octet y" for x y
  proof -
    let ?w = "push_bit 8 (to_int32 (to_number x)) OR to_int32 (to_number y)"
    note nx = octet_number(2,3) [OF xy(1)] and ny = octet_number(2,3) [OF xy(2)]
    have u: "unat ?w = nat_of_digits x * 256 + nat_of_digits y"
      using word_shift_or [of "to_int32 (to_number x)" "to_int32 (to_number y)"] nx ny by simp
    have small: "unat ?w < 65536" using nx(1) ny(1) unfolding u by simp
    show ?thesis using int32_text16_small [OF small] unfolding u .
  qed
  note n = octet_number(2) [OF o(1)] octet_number(2) [OF o(2)] octet_number(2) [OF o(3)] octet_number(2) [OF o(4)]
  let ?h = "hex_text (nat_of_digits a * 256 + nat_of_digits b)"
  let ?l = "hex_text (nat_of_digits c * 256 + nat_of_digits d)"
  have "replaceIpv4Tail s t = Some (colon_prefix s @ ?h @ 58 # ?l)"
    using assms by (simp add: replaceIpv4Tail_def isIP_def p pair o)
  moreover have "v6_group ?h \<and> hex_number ?h = nat_of_digits a * 256 + nat_of_digits b"
    "v6_group ?l \<and> hex_number ?l = nat_of_digits c * 256 + nat_of_digits d"
    using n by (simp_all add: hex_text_group)
  moreover have "unat (ipv4ToNumber t) = (nat_of_digits c * 256 + nat_of_digits d) +
      65536 * (nat_of_digits a * 256 + nat_of_digits b)"
    unfolding ipv4_number [OF p o] by simp
  then have "unat (ipv4ToNumber t) div 65536 = nat_of_digits a * 256 + nat_of_digits b"
    "unat (ipv4ToNumber t) mod 65536 = nat_of_digits c * 256 + nat_of_digits d"
    using n by (simp_all only: div_mult_self2 mod_mult_self2) simp_all
  ultimately show ?thesis using that by simp
qed

text \<open>The form with its dotted tail written as two groups.\<close>

fun undotted :: "ipv6_form \<Rightarrow> js_string \<Rightarrow> js_string \<Rightarrow> ipv6_form" where
  "undotted (Full gs d) h l = Full (gs @ [h, l]) None"
| "undotted (Short ls gs d) h l = Short ls (gs @ [h, l]) None"

lemma join_snoc: "ws \<noteq> [] \<Longrightarrow> join s (ws @ [w]) = join s ws @ s @ w"
  by (induction s ws rule: join.induct) auto

lemma join_two: "join [58] (gs @ [h, l]) = join [58] (gs @ [h]) @ 58 # l"
  using join_snoc [of "gs @ [h]" "[58]" l] by simp

lemma dotted_text:
  assumes "form_ok f" and "f = Full gs (Some t) \<or> f = Short ls gs (Some t)"
  obtains p where "form_text f = p @ 58 # t" and "\<And>h l. form_text (undotted f h l) = p @ 58 # h @ 58 # l"
  using assms(2)
proof
  assume f: "f = Full gs (Some t)"
  with assms have "gs \<noteq> []" by (auto simp: tail_numbers_def)
  with f show ?thesis
    using that [of "join [58] gs"] by (simp add: opt_list_def join_two join_snoc)
next
  assume f: "f = Short ls gs (Some t)"
  show ?thesis
  proof (cases "gs = []")
    case True
    with f show ?thesis using that [of "join [58] ls @ [58]"] by (simp add: opt_list_def)
  next
    case False
    with f show ?thesis
      using that [of "join [58] ls @ 58 # 58 # join [58] gs"] by (simp add: opt_list_def join_two join_snoc)
  qed
qed

lemma form_double: "form_ok f \<Longrightarrow> (\<exists>gs d. f = Full gs d) \<or> snd (split_double (form_text f)) \<noteq> None"
proof (cases f)
  case (Short ls gs d)
  assume "form_ok f"
  with Short have "\<forall>w \<in> set ls. 58 \<notin> set w \<and> w \<noteq> []" using v6_group_units by auto
  from split_double_join(1) [OF this] Short show ?thesis by simp
qed simp

text \<open>Every form is recognised and read as the number it denotes.\<close>

lemma ipv6_forms_read_back:
  assumes "form_ok f"
  shows "isIP (form_text f) = 6 \<and> parseIpv6 (form_text f) = Some (form_value f)"
proof -
  define gs d where "gs = (case f of Full gs d \<Rightarrow> gs | Short ls gs d \<Rightarrow> gs)"
    and "d = (case f of Full gs d \<Rightarrow> d | Short ls gs d \<Rightarrow> d)"
  define ls where "ls = (case f of Full gs d \<Rightarrow> [] | Short ls gs d \<Rightarrow> ls)"
  have f: "f = Full gs d \<or> f = Short ls gs d" by (cases f) (simp_all add: gs_def d_def ls_def)
  define double where "double = (snd (split_double (form_text f)) \<noteq> None)"
  have dbl: "(\<exists>gs d. f = Full gs d) \<or> double" using form_double [OF assms] by (simp add: double_def)
  have six: "isIP (form_text f) = 6" by (rule form_isIP [OF assms])
  show ?thesis
  proof (cases d)
    case None
    obtain a t where at: "form_text f = a @ 58 # t" and t: "58 \<notin> set t" using form_colon [OF assms] by blast
    have "46 \<notin> set (form_text f)"
    proof -
      note joined = join_units
      have "\<forall>w \<in> set ls. 46 \<notin> set w" "\<forall>w \<in> set gs. 46 \<notin> set w"
        using assms f v6_group_units None by (auto simp: ls_def split: ipv6_form.splits)
      then have "46 \<notin> set (join [58] ls)" "46 \<notin> set (join [58] gs)"
        using joined [of ls] joined [of gs] by (fastforce)+
      then show ?thesis using f None by (auto simp: opt_list_def)
    qed
    then have "46 \<notin> set (drop k (form_text f))" for k by (meson in_set_dropD)
    moreover have "ipv6_groups double (form_text f) = Some (form_value f)"
      by (rule fold_form [OF assms]) (use f None dbl in auto)
    moreover have "form_text f \<noteq> []" using at by simp
    ultimately show ?thesis using six unfolding parseIpv6_def double_def Let_def by simp
  next
    case (Some t)
    have ft: "f = Full gs (Some t) \<or> f = Short ls gs (Some t)" using f Some by simp
    have v4: "is_ipv4 t" using ft assms by (auto simp: tail_ok_def)
    obtain p where p: "form_text f = p @ 58 # t" "\<And>h l. form_text (undotted f h l) = p @ 58 # h @ 58 # l"
      using dotted_text [OF assms ft] by blast
    have t: "58 \<notin> set t" "46 \<in> set t" using v4_no_units [OF v4] by simp_all
    have pre: "colon_prefix (form_text f) = p @ [58]" unfolding p(1) by (rule colon_prefix_at [OF t(1)])
    obtain h l where hl: "replaceIpv4Tail (form_text f) t = Some (p @ [58] @ h @ 58 # l)" "v6_group h" "v6_group l"
      "hex_number h = unat (ipv4ToNumber t) div 65536" "hex_number l = unat (ipv4ToNumber t) mod 65536"
      using tail_words [OF v4, of "form_text f"] unfolding pre by auto
    have ok: "form_ok (undotted f h l)" and same: "form_value (undotted f h l) = form_value f"
      using ft assms hl by (auto simp: tail_ok_def tail_numbers_def form_value_def)
    have "ipv6_groups double (form_text (undotted f h l)) = Some (form_value f)"
      unfolding same [symmetric] by (rule fold_form [OF ok]) (use ft dbl in auto)
    moreover have "drop (length (p @ [58])) (form_text f) = t" by (simp add: p(1))
    ultimately show ?thesis
      using six t(2) unfolding parseIpv6_def double_def by (simp add: Let_def pre hl(1) p(2))
  qed
qed

lemma split_double_parts:
  "split_double s = (a, r) \<Longrightarrow> s = a @ (case r of None \<Rightarrow> [] | Some b \<Rightarrow> 58 # 58 # b)"
proof (induction s arbitrary: a r)
  case (Cons c s)
  show ?case
  proof (cases "c = 58 \<and> s \<noteq> [] \<and> hd s = 58")
    case True
    with Cons.prems show ?thesis by (cases s) auto
  next
    case False
    with Cons.prems obtain a' where "split_double s = (a', r)" "a = c # a'" by (auto split: prod.splits if_splits)
    with Cons.IH show ?thesis by simp
  qed
qed simp

lemma count_groups_back:
  "count_groups dotted ws = Some k \<Longrightarrow>
   \<exists>gs d. ws = gs @ opt_list d \<and> (\<forall>g \<in> set gs. v6_group g) \<and> tail_ok d \<and> (dotted \<or> d = None) \<and>
     k = length gs + length (tail_numbers d)"
proof (induction dotted ws arbitrary: k rule: count_groups.induct)
  case (1 dotted)
  then show ?case by (intro exI [of _ "[]"] exI [of _ None]) (simp add: opt_list_def tail_ok_def tail_numbers_def)
next
  case (2 dotted g)
  show ?case
  proof (cases "v6_group g")
    case True
    with 2 show ?thesis
      by (intro exI [of _ "[g]"] exI [of _ None]) (simp add: opt_list_def tail_ok_def tail_numbers_def)
  next
    case False
    with 2 show ?thesis
      by (intro exI [of _ "[]"] exI [of _ "Some g"]) (simp add: opt_list_def tail_ok_def tail_numbers_def split: if_splits)
  qed
next
  case (3 dotted g h gs)
  from "3.prems" obtain m where g: "v6_group g" "count_groups dotted (h # gs) = Some m" "k = Suc m"
    by (auto split: if_splits)
  from "3.IH" [OF g(1,2)] obtain gs' d where "h # gs = gs' @ opt_list d" "\<forall>g \<in> set gs'. v6_group g" "tail_ok d"
    "dotted \<or> d = None" "m = length gs' + length (tail_numbers d)" by blast
  with g show ?case by (intro exI [of _ "g # gs'"] exI [of _ d]) simp
qed

lemma join_part_groups: "join [58] (part_groups s) = s"
  by (simp add: part_groups_def join_split_on)

lemma ipv6_text_has_form:
  assumes "isIP s = 6" and "37 \<notin> set s"
  shows "\<exists>f. form_ok f \<and> s = form_text f"
proof -
  have whole: "takeWhile (\<lambda>c. c \<noteq> 37) s = s" using assms(2) by (auto simp: takeWhile_eq_all_conv)
  have plain: "is_ipv6_plain s"
    using assms(1) unfolding isIP_def is_ipv6_def Let_def whole by (simp split: if_splits)
  obtain a r where sd: "split_double s = (a, r)" by fastforce
  note s = split_double_parts [OF sd]
  show ?thesis
  proof (cases r)
    case None
    with plain sd have "count_groups True (part_groups a) = Some 8" by (simp add: is_ipv6_plain_def)
    from count_groups_back [OF this] obtain gs d where g: "part_groups a = gs @ opt_list d"
      "\<forall>g \<in> set gs. v6_group g" "tail_ok d" "8 = length gs + length (tail_numbers d)" by blast
    have "a = join [58] (gs @ opt_list d)" using join_part_groups [of a] g(1) by simp
    with g s None show ?thesis by (intro exI [of _ "Full gs d"]) simp
  next
    case (Some b)
    with plain sd obtain m n where c: "count_groups False (part_groups a) = Some m"
      "count_groups True (part_groups b) = Some n" "m + n \<le> 7"
      by (auto simp: is_ipv6_plain_def split: option.splits)
    from count_groups_back [OF c(1)] obtain ls where l: "part_groups a = ls" "\<forall>g \<in> set ls. v6_group g" "m = length ls"
      by (auto simp: opt_list_def tail_numbers_def)
    from count_groups_back [OF c(2)] obtain gs d where g: "part_groups b = gs @ opt_list d"
      "\<forall>g \<in> set gs. v6_group g" "tail_ok d" "n = length gs + length (tail_numbers d)" by blast
    have "a = join [58] ls" "b = join [58] (gs @ opt_list d)"
      using join_part_groups [of a] join_part_groups [of b] l(1) g(1) by simp_all
    with g l s Some c(3) show ?thesis by (intro exI [of _ "Short ls gs d"]) auto
  qed
qed

text \<open>C31. The texts recognised as IPv6 addresses without a zone are exactly the textual forms - all groups,
  \<open>::\<close> anywhere, leading zeros, either case, a dotted IPv4 tail - and each is read as the number it
  denotes.\<close>

theorem ipv6_text_denotes:
  assumes "37 \<notin> set s"
  shows "(isIP s = 6 \<longleftrightarrow> (\<exists>f. form_ok f \<and> s = form_text f)) \<and>
    (\<forall>f. form_ok f \<and> s = form_text f \<longrightarrow> parseIpv6 s = Some (form_value f))"
  using ipv6_text_has_form [OF _ assms] ipv6_forms_read_back by auto

definition sample_form :: ipv6_form where
  "sample_form = Short [js ''64'', js ''FF9b''] [js ''a9fe'', js ''00fe''] None"

theorem ipv6_text_denotes_witness:
  "isIP (js ''64:FF9b::a9fe:00fe'') = 6 \<and>
   parseIpv6 (js ''64:FF9b::a9fe:00fe'') = Some 0x64FF9b0000000000000000a9fe00fe"
proof -
  have tx: "js ''64:FF9b::a9fe:00fe'' = form_text sample_form"
    by (simp add: sample_form_def js_def opt_list_def)
  have ok: "form_ok sample_form"
    by (simp add: sample_form_def js_def v6_group_def tail_ok_def tail_numbers_def hex_val_def)
  have "replicate 4 (0 :: nat) = [0, 0, 0, 0]" by (simp add: numeral_eq_Suc)
  then have val: "form_value sample_form = 0x64FF9b0000000000000000a9fe00fe"
    by (simp add: sample_form_def form_value_def groups_number_def tail_numbers_def js_def hex_number_def hex_val_def)
  have "37 \<notin> set (js ''64:FF9b::a9fe:00fe'')" by (simp add: js_def)
  from ipv6_text_denotes [OF this] show ?thesis using tx ok val by auto
qed

section \<open>Private addresses are the reserved ones\<close>

definition reserved_ipv6_blocks :: "(int \<times> nat) list" where
  "reserved_ipv6_blocks =
     [(0, 127), (0xff00 * 2 ^ 112, 8), (0xfe80 * 2 ^ 112, 10), (0xfec0 * 2 ^ 112, 10), (0xfc00 * 2 ^ 112, 7)]"

text \<open>Blocks that carry an IPv4 address, with the place of its last bit: mapped, compatible, NAT64, 6to4.\<close>

definition embedding_blocks :: "((int \<times> nat) \<times> nat) list" where
  "embedding_blocks =
     [((0xffff * 2 ^ 32, 96), 0), ((0, 96), 0), ((0x64ff9b * 2 ^ 96, 96), 0), ((0x2002 * 2 ^ 112, 16), 80)]"

definition in_block6 :: "int \<Rightarrow> int \<times> nat \<Rightarrow> bool" where
  "in_block6 n b \<longleftrightarrow> n div 2 ^ (128 - snd b) = fst b div 2 ^ (128 - snd b)"

definition reserved_ipv6 :: "int \<Rightarrow> bool" where
  "reserved_ipv6 n \<longleftrightarrow> (\<exists>b \<in> set reserved_ipv6_blocks. in_block6 n b) \<or>
     (\<exists>e \<in> set embedding_blocks. in_block6 n (fst e) \<and> reserved_ipv4 (nat (n div 2 ^ snd e mod 2 ^ 32)))"

lemma unat_low_bits: "unat (word_of_int (k AND 0xffffffff) :: 32 word) = nat (k mod 2 ^ 32)"
proof -
  have "(0xffffffff :: int) = mask 32" by (simp add: mask_eq_exp_minus_1)
  then have "k AND 0xffffffff = k mod 2 ^ 32" by (simp only: take_bit_eq_mask [symmetric] take_bit_eq_mod)
  moreover have "uint (word_of_int (k mod 2 ^ 32) :: 32 word) = k mod 2 ^ 32"
    by (simp add: uint_word_of_int)
  ultimately show ?thesis by (simp add: unat_eq_nat_uint)
qed

lemma and_even_byte:
  fixes x :: int
  assumes "0 \<le> x" and "x < 256"
  shows "x AND 0xfe = 0xfc \<longleftrightarrow> x div 2 = 0x7e"
proof -
  have "(0xfe :: int) = push_bit 1 (mask 7)" by (simp add: mask_eq_exp_minus_1 push_bit_eq_mult)
  moreover have "x AND push_bit 1 (mask m) = push_bit 1 (take_bit m (drop_bit 1 x))" for m
    by (rule bit_eqI) (auto simp: bit_simps simp del: push_bit_Suc)
  ultimately have "x AND 0xfe = push_bit 1 (take_bit 7 (drop_bit 1 x))" by (simp only:)
  also have "\<dots> = 2 * (x div 2 mod 128)" by (simp add: push_bit_eq_mult take_bit_eq_mod drop_bit_eq_div)
  also have "x div 2 mod 128 = x div 2" using assms by simp
  finally show ?thesis by simp
qed

lemma embedded_number:
  "(case getEmbeddedIpv4Number n of Some w \<Rightarrow> isPrivateIpv4Number w | None \<Rightarrow> False) \<longleftrightarrow>
    (\<exists>e \<in> set embedding_blocks. in_block6 n (fst e) \<and> reserved_ipv4 (nat (n div 2 ^ snd e mod 2 ^ 32)))"
proof -
  define q where "q = n div 2 ^ 32"
  have top: "n div 2 ^ 112 = q div 2 ^ 80" by (simp add: q_def zdiv_zmult2_eq [symmetric])
  have nat64: "push_bit 64 0x64ff9b = (0x64ff9b * 2 ^ 64 :: int)" by (simp add: push_bit_eq_mult)
  have r: "(\<exists>e \<in> set embedding_blocks. in_block6 n (fst e) \<and> reserved_ipv4 (nat (n div 2 ^ snd e mod 2 ^ 32))) \<longleftrightarrow>
    (q = 0xffff \<or> q = 0 \<or> q = 0x64ff9b * 2 ^ 64) \<and> reserved_ipv4 (nat (n mod 2 ^ 32)) \<or>
    q div 2 ^ 80 = 0x2002 \<and> reserved_ipv4 (nat (n div 2 ^ 80 mod 2 ^ 32))"
    by (auto simp: embedding_blocks_def in_block6_def top [symmetric] q_def)
  have l: "(case getEmbeddedIpv4Number n of Some w \<Rightarrow> isPrivateIpv4Number w | None \<Rightarrow> False) \<longleftrightarrow>
    (if q = 0xffff \<or> q = 0 \<or> q = 0x64ff9b * 2 ^ 64 then reserved_ipv4 (nat (n mod 2 ^ 32))
     else q div 2 ^ 80 = 0x2002 \<and> reserved_ipv4 (nat (n div 2 ^ 80 mod 2 ^ 32)))"
    unfolding getEmbeddedIpv4Number_def Let_def nat64 drop_bit_eq_div q_def [symmetric] top
    by (simp add: private_number_reserved unat_low_bits)
  have "q = 0xffff \<or> q = 0 \<or> q = 0x64ff9b * 2 ^ 64 \<Longrightarrow> q div 2 ^ 80 \<noteq> 0x2002" by auto
  then show ?thesis unfolding l r if_bool_eq_disj by blast
qed

lemma private_ipv6_reserved:
  assumes "0 \<le> n" and "n < 2 ^ 128"
  shows "private_ipv6 n \<longleftrightarrow> reserved_ipv6 n"
proof -
  have x: "0 \<le> n div 2 ^ 120" "n div 2 ^ 120 < 256" using assms by (simp_all add: pos_imp_zdiv_nonneg_iff)
  have low: "n = 0 \<or> n = 1 \<longleftrightarrow> n div 2 = 0" using assms(1) by linarith
  have seven: "n div 2 ^ 120 div 2 = n div 2 ^ 121" by (simp add: zdiv_zmult2_eq [symmetric])
  have "private_ipv6 n \<longleftrightarrow> n div 2 = 0 \<or> n div 2 ^ 120 = 0xff \<or> n div 2 ^ 118 = 0x3fa \<or> n div 2 ^ 118 = 0x3fb \<or>
      n div 2 ^ 121 = 0x7e \<or>
      (\<exists>e \<in> set embedding_blocks. in_block6 n (fst e) \<and> reserved_ipv4 (nat (n div 2 ^ snd e mod 2 ^ 32)))"
    unfolding private_ipv6_def drop_bit_eq_div and_even_byte [OF x] seven embedded_number [symmetric]
    using low by auto
  moreover have "(\<exists>b \<in> set reserved_ipv6_blocks. in_block6 n b) \<longleftrightarrow>
      n div 2 = 0 \<or> n div 2 ^ 120 = 0xff \<or> n div 2 ^ 118 = 0x3fa \<or> n div 2 ^ 118 = 0x3fb \<or> n div 2 ^ 121 = 0x7e"
    by (simp add: reserved_ipv6_blocks_def in_block6_def)
  ultimately show ?thesis unfolding reserved_ipv6_def by blast
qed

lemma form_value_bound: "form_ok f \<Longrightarrow> 0 \<le> form_value f \<and> form_value f < 2 ^ 128"
proof -
  assume ok: "form_ok f"
  have "unat (ipv4ToNumber t) < 2 ^ 32" for t using unsigned_less [of "ipv4ToNumber t"] by simp
  then have "unat (ipv4ToNumber t) div 65536 < 65536" for t by (simp add: less_mult_imp_div_less)
  then have tail: "\<forall>n \<in> set (tail_numbers d). n < 65536" for d
    by (auto simp: tail_numbers_def split: option.splits)
  have small: "v6_group g \<Longrightarrow> hex_number g < 65536" for g by (rule v6_group_value(2))
  have "(\<forall>n \<in> set (form_numbers f). n < 65536) \<and> length (form_numbers f) = 8"
    using ok tail small by (cases f) auto
  then show ?thesis using groups_number_bound [of "form_numbers f"] by (simp add: form_value_def)
qed

definition mapped_form :: "js_string \<Rightarrow> ipv6_form" where
  "mapped_form t = Short [] [js ''ffff''] (Some t)"

lemma mapped_form_text:
  assumes "is_ipv4 t"
  shows "form_ok (mapped_form t)" and "form_text (mapped_form t) = js ''::ffff:'' @ t"
proof -
  have f: "hex_val 102 = Some 15" by (simp add: hex_val_def)
  show "form_ok (mapped_form t)"
    using assms f by (simp add: mapped_form_def tail_ok_def tail_numbers_def v6_group_def js_def)
  show "form_text (mapped_form t) = js ''::ffff:'' @ t"
    by (simp add: mapped_form_def opt_list_def js_def)
qed

lemma mapped_form_reserved:
  assumes "is_ipv4 t"
  shows "reserved_ipv6 (form_value (mapped_form t)) \<longleftrightarrow> reserved_ipv4 (unat (ipv4ToNumber t))"
proof -
  define w where "w = ipv4ToNumber t"
  define m where "m = int (unat w)"
  have m: "0 \<le> m" "m < 2 ^ 32" using unsigned_less [of w] by (simp_all add: m_def)
  have ffff: "hex_number (js ''ffff'') = 65535" by (simp add: hex_number_def js_def hex_val_def)
  have zeros: "replicate 5 (0 :: nat) = [0, 0, 0, 0, 0]" by (simp add: numeral_eq_Suc)
  have nums: "form_numbers (mapped_form t) = [0, 0, 0, 0, 0, 65535, unat w div 65536, unat w mod 65536]"
    using zeros by (simp add: mapped_form_def tail_numbers_def ffff w_def [symmetric])
  have "int (unat w div 65536) * 65536 + int (unat w mod 65536) = m"
    unfolding m_def by (metis div_mult_mod_eq of_nat_add of_nat_mult of_nat_numeral)
  then have v: "form_value (mapped_form t) = 65535 * 2 ^ 32 + m"
    by (simp add: form_value_def nums groups_number_def algebra_simps)
  define n where "n = 65535 * 2 ^ 32 + m"
  have q: "n div 2 ^ 32 = 65535" using m by (simp add: n_def)
  have r: "n mod 2 ^ 32 = m"
    using minus_mult_div_eq_mod [of n "2 ^ 32"] unfolding q by (simp add: n_def)
  have big: "n div 2 ^ 120 = 0" "n div 2 ^ 118 = 0" "n \<noteq> 0" "n \<noteq> 1" "0 \<le> n" "n < 2 ^ 128" using m by (simp_all add: n_def)
  have "private_ipv6 n \<longleftrightarrow> isPrivateIpv4Number (word_of_int (n AND 0xffffffff))"
    using big q by (simp add: private_ipv6_def getEmbeddedIpv4Number_def drop_bit_eq_div)
  then have "private_ipv6 n \<longleftrightarrow> reserved_ipv4 (unat w)"
    unfolding private_number_reserved unat_low_bits r by (simp add: m_def)
  then show ?thesis using private_ipv6_reserved [OF big(5,6)] by (simp add: v n_def w_def)
qed

lemma mapped_ipv4_text:
  assumes "mapped_ipv4 v = Some t"
  shows "v = js ''::ffff:'' @ t" and "\<forall>p \<in> set (split_on 46 t). all_digits p"
proof -
  from assms have "startsWith v (js ''::ffff:'')" and t: "t = drop 7 v" and
    "\<forall>p \<in> set (split_on 46 t). all_digits p"
    by (auto simp: mapped_ipv4_def Let_def split: if_splits)
  then show "v = js ''::ffff:'' @ t" "\<forall>p \<in> set (split_on 46 t). all_digits p"
    by (auto simp: startsWith_iff)
qed

lemma ipv4_not_mapped: "is_ipv4 v \<Longrightarrow> mapped_ipv4 v = None"
proof (rule ccontr)
  assume v: "is_ipv4 v" and "mapped_ipv4 v \<noteq> None"
  then obtain t where "mapped_ipv4 v = Some t" by auto
  from mapped_ipv4_text(1) [OF this] v4_no_units [OF v] show False by (simp add: js_def)
qed

lemma mapped_valid:
  assumes "mapped_ipv4 v = Some t" and "isIP v \<noteq> 0"
  shows "is_ipv4 t"
proof -
  note v = mapped_ipv4_text [OF assms(1)]
  have dig: "\<forall>c \<in> set t. is_digit c \<or> c = 46"
    using split_on_units [of t 46] v(2) by (auto simp: all_digits_def subset_iff)
  have no: "58 \<notin> set t" "37 \<notin> set t" using dig by (auto simp: is_digit_def)
  have "\<not> is_ipv4 v" using ipv4_not_mapped assms(1) by fastforce
  then have six: "is_ipv6 v" using assms(2) by (simp add: isIP_def split: if_splits)
  have whole: "takeWhile (\<lambda>c. c \<noteq> 37) v = v" using no(2) by (auto simp: v(1) js_def takeWhile_eq_all_conv)
  have plain: "is_ipv6_plain v" using six unfolding is_ipv6_def Let_def whole by simp
  have t: "t \<noteq> []"
  proof
    assume "t = []"
    then have "split_on 46 t = [[]]" by simp
    with v(2) show False by (simp add: all_digits_def)
  qed
  have w: "\<forall>w \<in> set [js ''ffff'', t]. 58 \<notin> set w \<and> w \<noteq> []" using no t by (simp add: js_def)
  have eq: "v = join [58] [] @ 58 # 58 # join [58] [js ''ffff'', t]" by (simp add: v(1) js_def)
  have sd: "split_double v = ([], Some (join [58] [js ''ffff'', t]))"
    using split_double_join(1) [of "[]" "join [58] [js ''ffff'', t]"] eq by simp
  have cg: "count_groups True [js ''ffff'', t] \<noteq> None"
    using plain unfolding is_ipv6_plain_def sd prod.case option.case part_groups_join [OF w]
    by (auto split: option.splits if_splits)
  have "46 \<in> set t"
  proof (rule ccontr)
    assume "46 \<notin> set t"
    then have "split_on 46 t = [t]" by (rule split_on_single)
    moreover have "length (split_on 46 t) = 4" using assms(1) by (auto simp: mapped_ipv4_def Let_def split: if_splits)
    ultimately show False by simp
  qed
  then have "\<not> v6_group t" using v6_group_units by blast
  with cg show ?thesis by (auto split: if_splits)
qed



lemma metadata_numbers: "cloud_metadata_ipv4 = [0xa9fea9fe, 0x646464c8]"
proof -
  have n: "ipv4ToNumber (js s) = w"
    if "split_on 46 (js s) = [a, b, c, d]" "v4_octet a" "v4_octet b" "v4_octet c" "v4_octet d"
      "unat w = ((nat_of_digits a * 256 + nat_of_digits b) * 256 + nat_of_digits c) * 256 + nat_of_digits d"
    for s a b c d w
    using ipv4_number [OF that(1-5)] that(6) by (simp add: word_unat_eq_iff)
  have "ipv4ToNumber (js ''169.254.169.254'') = 0xa9fea9fe"
    by (rule n [of _ "js ''169''" "js ''254''" "js ''169''" "js ''254''"])
      (simp_all add: js_def v4_octet_def all_digits_def is_digit_def nat_of_digits_def digit_val_def)
  moreover have "ipv4ToNumber (js ''100.100.100.200'') = 0x646464c8"
    by (rule n [of _ "js ''100''" "js ''100''" "js ''100''" "js ''200''"])
      (simp_all add: js_def v4_octet_def all_digits_def is_digit_def nat_of_digits_def digit_val_def)
  ultimately show ?thesis by (simp add: cloud_metadata_ipv4_def)
qed

lemma metadata_number_private: "isCloudMetadataIpv4Number w \<Longrightarrow> isPrivateIpv4Number w"
  by (auto simp: isCloudMetadataIpv4Number_def metadata_numbers isPrivateIpv4Number_def)

lemma embedded_low:
  "drop_bit 32 n = 0xffff \<or> drop_bit 32 n = 0 \<Longrightarrow>
   getEmbeddedIpv4Number n = Some (word_of_int (n AND 0xffffffff))"
  by (simp add: getEmbeddedIpv4Number_def Let_def)

lemma link_local_number_private:
  "drop_bit 24 v AND 0xff = 169 \<and> drop_bit 16 v AND 0xff = 254 \<Longrightarrow> isPrivateIpv4Number v"
  by (simp add: isPrivateIpv4Number_def)

lemma special_ipv4_private:
  assumes "isIP v \<noteq> 0" and "ipv4_of v = Some t" and "v = unbracket (lower addr)"
    and "isCloudMetadataAddress lower addr \<or> isLinkLocalAddress lower addr \<or> isTailscaleAddress lower addr"
  shows "isPrivateAddress lower addr"
proof -
  have t: "is_ipv4 t"
  proof (cases "mapped_ipv4 v")
    case None
    with assms(2) have "isIP t = 4" by (auto simp: ipv4_of_def split: if_splits)
    then show ?thesis by (simp add: isIP_def split: if_splits)
  next
    case (Some u)
    with mapped_valid [OF Some assms(1)] assms(2) show ?thesis by (simp add: ipv4_of_def)
  qed
  note open_up = assms(2) [unfolded assms(3)]
  have priv: "isPrivateAddress lower addr =
      private_octets (entry (map to_number (split_on 46 t)) 0) (entry (map to_number (split_on 46 t)) 1)"
    using open_up by (simp add: isPrivateAddress_def Let_def)
  have "isPrivateAddress lower addr" if "isCloudMetadataAddress lower addr"
  proof -
    have "isCloudMetadataIpv4Number (ipv4ToNumber t)"
      using that open_up by (simp add: isCloudMetadataAddress_def Let_def)
    then have "isPrivateIpv4Number (ipv4ToNumber t)" by (rule metadata_number_private)
    then show ?thesis unfolding priv private_octets_reserved [OF t] private_number_reserved .
  qed
  moreover have "isPrivateAddress lower addr" if "isLinkLocalAddress lower addr \<or> isTailscaleAddress lower addr"
    using that open_up unfolding priv
    by (auto simp: isLinkLocalAddress_def isTailscaleAddress_def Let_def private_octets_def)
  ultimately show ?thesis using assms(4) by blast
qed

lemma special_ipv6_private:
  assumes "ipv4_of (unbracket (lower addr)) = None" and "parseIpv6 (unbracket (lower addr)) = Some n"
    and "isCloudMetadataAddress lower addr \<or> isLinkLocalAddress lower addr \<or> isTailscaleAddress lower addr"
  shows "private_ipv6 n"
proof -
  note open_up = assms(1,2)
  have inner: "private_ipv6 n" if "getEmbeddedIpv4Number n = Some w" "isPrivateIpv4Number w" for w
    using that by (simp add: private_ipv6_def)
  have meta: ?thesis if "isCloudMetadataAddress lower addr"
  proof (cases "n = aws_imds_ipv6")
    case True
    then show ?thesis by (simp add: private_ipv6_def aws_imds_ipv6_def)
  next
    case False
    with that open_up obtain w where "getEmbeddedIpv4Number n = Some w" "isCloudMetadataIpv4Number w"
      by (auto simp: isCloudMetadataAddress_def Let_def split: option.splits)
    then show ?thesis using inner metadata_number_private by blast
  qed
  have link: ?thesis if "isLinkLocalAddress lower addr"
  proof (cases "drop_bit 32 n = 0xffff \<or> drop_bit 32 n = 0")
    case True
    with that open_up have "isPrivateIpv4Number (word_of_int (n AND 0xffffffff))"
      by (intro link_local_number_private) (simp add: isLinkLocalAddress_def Let_def)
    with inner embedded_low [OF True] show ?thesis by blast
  next
    case False
    with that open_up have "drop_bit 118 n = 0x3fa" by (simp add: isLinkLocalAddress_def Let_def)
    then show ?thesis by (simp add: private_ipv6_def)
  qed
  have tailnet: ?thesis if "isTailscaleAddress lower addr"
  proof -
    have "drop_bit 80 n = tailscale_ula_prefix" using that open_up by (simp add: isTailscaleAddress_def Let_def)
    moreover have "drop_bit 120 n = drop_bit 40 (drop_bit 80 n)" by (simp add: drop_bit_drop_bit)
    ultimately show ?thesis by (simp add: private_ipv6_def tailscale_ula_prefix_def)
  qed
  from meta link tailnet assms(3) show ?thesis by blast
qed

text \<open>Whatever address is valid and a cloud metadata address, link-local, or of a tailnet is also
  refused as private, however it is written; a valid address that is not private is none of them.\<close>

theorem special_addresses_private:
  assumes "isIP (unbracket (lower addr)) \<noteq> 0"
    and "isCloudMetadataAddress lower addr \<or> isLinkLocalAddress lower addr \<or> isTailscaleAddress lower addr"
  shows "isPrivateAddress lower addr"
proof (cases "ipv4_of (unbracket (lower addr))")
  case (Some t)
  show ?thesis by (rule special_ipv4_private [OF assms(1) Some refl assms(2)])
next
  case None
  then show ?thesis
    using special_ipv6_private [OF None _ assms(2)]
    by (auto simp: isPrivateAddress_def Let_def split: option.splits)
qed

definition same_case :: "js_string \<Rightarrow> js_string" where
  "same_case s = s"

lemma public_dns_number:
  "is_ipv4 (js ''8.8.8.8'')" "\<not> reserved_ipv4 (unat (ipv4ToNumber (js ''8.8.8.8'')))"
  "ipv4ToNumber (js ''8.8.8.8'') = 0x08080808"
proof -
  have sp: "split_on 46 (js ''8.8.8.8'') = [js ''8'', js ''8'', js ''8'', js ''8'']" by (simp add: js_def)
  have oc: "v4_octet (js ''8'')" "nat_of_digits (js ''8'') = 8"
    by (simp_all add: js_def v4_octet_def all_digits_def is_digit_def nat_of_digits_def digit_val_def)
  show "is_ipv4 (js ''8.8.8.8'')" by (simp add: is_ipv4_def sp oc)
  show n: "ipv4ToNumber (js ''8.8.8.8'') = 0x08080808"
    using ipv4_number [OF sp oc(1) oc(1) oc(1) oc(1)] oc(2) by (simp add: word_unat_eq_iff)
  show "\<not> reserved_ipv4 (unat (ipv4ToNumber (js ''8.8.8.8'')))"
    unfolding n by (simp add: reserved_ipv4_parts)
qed

lemma public_dns:
  "\<not> isPrivateAddress same_case (js ''8.8.8.8'')" "\<not> isCloudMetadataAddress same_case (js ''8.8.8.8'')"
proof -
  have "unbracket (same_case (js ''8.8.8.8'')) = js ''8.8.8.8''" by (simp add: same_case_def unbracket_def js_def)
  moreover have "ipv4_of (js ''8.8.8.8'') = Some (js ''8.8.8.8'')"
    using public_dns_number(1) by (simp add: ipv4_of_def ipv4_not_mapped isIP_def)
  ultimately show "\<not> isPrivateAddress same_case (js ''8.8.8.8'')" "\<not> isCloudMetadataAddress same_case (js ''8.8.8.8'')"
    using private_octets_reserved [OF public_dns_number(1)] public_dns_number(2,3)
    by (simp_all add: isPrivateAddress_def isCloudMetadataAddress_def Let_def isCloudMetadataIpv4Number_def metadata_numbers)
qed


theorem special_addresses_private_witness: "isPrivateAddress same_case (js ''169.254.169.254'')"
proof (rule special_addresses_private)
  have sp: "split_on 46 (js ''169.254.169.254'') = [js ''169'', js ''254'', js ''169'', js ''254'']"
    by (simp add: js_def)
  have oc: "v4_octet (js ''169'')" "v4_octet (js ''254'')" "nat_of_digits (js ''169'') = 169"
    "nat_of_digits (js ''254'') = 254"
    by (simp_all add: js_def v4_octet_def all_digits_def is_digit_def nat_of_digits_def digit_val_def)
  have u: "unbracket (same_case (js ''169.254.169.254'')) = js ''169.254.169.254''"
    by (simp add: same_case_def unbracket_def js_def)
  have v4: "is_ipv4 (js ''169.254.169.254'')" by (simp add: is_ipv4_def sp oc)
  then have "isIP (js ''169.254.169.254'') = 4" by (simp add: isIP_def)
  then show "isIP (unbracket (same_case (js ''169.254.169.254''))) \<noteq> 0" unfolding u by simp
  have "ipv4_of (js ''169.254.169.254'') = Some (js ''169.254.169.254'')"
    using v4 by (simp add: ipv4_of_def ipv4_not_mapped isIP_def)
  then show "isCloudMetadataAddress same_case (js ''169.254.169.254'') \<or>
      isLinkLocalAddress same_case (js ''169.254.169.254'') \<or> isTailscaleAddress same_case (js ''169.254.169.254'')"
    by (simp add: isCloudMetadataAddress_def u isCloudMetadataIpv4Number_def cloud_metadata_ipv4_def)
qed

section \<open>What a checked lookup delivers\<close>

definition delivered_addresses :: "delivered \<Rightarrow> js_string list" where
  "delivered_addresses d = (case d of Every es \<Rightarrow> map address es | Single a _ \<Rightarrow> [a])"

lemma selected_addresses:
  assumes "selectLookupAddress addresses options = Inr d"
  shows "delivered_addresses d \<noteq> []" and "set (delivered_addresses d) \<subseteq> address ` set addresses"
proof -
  define cs where "cs = filter (\<lambda>e. (case snd options of Some f \<Rightarrow> f | None \<Rightarrow> 0) = 0 \<or>
    family e = (case snd options of Some f \<Rightarrow> f | None \<Rightarrow> 0)) addresses"
  have sub: "set cs \<subseteq> set addresses" by (auto simp: cs_def)
  have "cs \<noteq> [] \<and> (d = Every cs \<or> d = Single (address (hd cs)) (family (hd cs)))"
    using assms unfolding selectLookupAddress_def Let_def cs_def [symmetric]
    by (cases cs) (auto split: if_splits)
  then show "delivered_addresses d \<noteq> []" "set (delivered_addresses d) \<subseteq> address ` set addresses"
    using sub by (auto simp: delivered_addresses_def subset_iff)
qed

text \<open>The contract of a validator: the addresses it lets through are acceptable for the host. A lookup
  built on it delivers at least one address and only acceptable ones, whatever the resolver answers.\<close>

locale address_guard =
  fixes validate :: "resolved_address list \<Rightarrow> js_string \<Rightarrow> (lookup_error, unit) res"
    and acceptable :: "js_string \<Rightarrow> js_string \<Rightarrow> bool"
  assumes validated: "validate addresses host = Inr u \<Longrightarrow> \<forall>e \<in> set addresses. acceptable host (address e)"
begin

lemma delivered_acceptable:
  assumes "createAddressCheckedLookup resolve validate host options = Inr d"
  shows "delivered_addresses d \<noteq> [] \<and> (\<forall>a \<in> set (delivered_addresses d). acceptable host a)"
proof -
  obtain addresses u where "validate addresses host = Inr u"
    "selectLookupAddress addresses (lookupOptions options) = Inr d"
    using assms by (auto simp: createAddressCheckedLookup_def)
  from validated [OF this(1)] selected_addresses [OF this(2)] show ?thesis by auto
qed

end

end
