(* ===== verification/Safe_Fetch.thy ===== *)
theory Safe_Fetch
  imports Network_Address "HOL-Library.AList"
begin

text \<open>
  Fetching a page the model asked for (\<open>packages/adapters/src/web-ssrf.ts\<close> and the bounded read of
  \<open>packages/core/src/response-bytes.ts\<close>): checked URLs, checked name lookups, redirects followed by
  hand and a byte budget. The URL parser, the resolver, the network and the text decoder are
  parameters; a wait that the deadline cuts off is one of their failures.
\<close>

section \<open>What the fetch relies on\<close>

record web_url = parsed_url +
  href :: js_string
  origin :: js_string
  pathname :: js_string
  url_host :: js_string

datatype fetch_error =
    Url_invalid | Protocol_refused | Credentials_refused | Host_refused | Address_refused
  | Too_many_redirects | Location_missing | Http_status nat | Too_large
  | Aborted | Failed js_string

text \<open>One \<open>read()\<close> of the body: a chunk, which may carry no bytes, or a failure. The end of the list is
  \<open>done\<close>.\<close>

datatype body_read = Chunk "8 word list option" | Broken fetch_error

text \<open>\<open>response.body\<close> is absent or a stream.\<close>

datatype response_body = Whole "(fetch_error, 8 word list) res" | Stream "body_read list"

record web_response =
  status :: nat
  location :: "js_string option"
  content_length :: "js_string option"
  content_type :: "js_string option"
  body :: response_body

type_synonym header_list = "(js_string \<times> js_string) list"

record web_request =
  rq_href :: js_string
  rq_headers :: header_list

text \<open>The number of the hop tells the calls of one fetch apart.\<close>

record fetch_world =
  parse_url :: "js_string \<Rightarrow> web_url option"
  parse_relative :: "js_string \<Rightarrow> js_string \<Rightarrow> web_url option"
  resolve_at :: "nat \<Rightarrow> js_string \<Rightarrow> (fetch_error, resolved_address list) res"
  fetch_at :: "nat \<Rightarrow> web_request \<Rightarrow> (fetch_error, web_response) res"
  aborted_at :: "nat \<Rightarrow> bool"
  lower_case :: "js_string \<Rightarrow> js_string"
  decode_text :: "8 word list \<Rightarrow> js_string"

section \<open>Checked URLs\<close>

definition blocked_suffixes :: "js_string list" where
  "blocked_suffixes = [js ''.localhost'', js ''.local'', js ''.internal'']"

definition blocked_hosts :: "js_string list" where
  "blocked_hosts = [js ''localhost'', js ''metadata.google.internal'', js ''metadata.goog'']"

definition drop_final_dot :: "js_string \<Rightarrow> js_string" where
  "drop_final_dot s = (if s \<noteq> [] \<and> last s = 46 then butlast s else s)"

definition isBlockedHostname :: "(js_string \<Rightarrow> js_string) \<Rightarrow> js_string \<Rightarrow> bool" where
  "isBlockedHostname lower host =
     (let normalized = drop_final_dot (lower host) in
      if normalized \<in> set blocked_hosts \<or> (\<exists>x \<in> set blocked_suffixes. endsWith normalized x) then True
      else if isIP normalized \<noteq> 0 then isPrivateAddress lower normalized
      else False)"

definition public_addresses :: "(js_string \<Rightarrow> js_string) \<Rightarrow> resolved_address list \<Rightarrow> bool" where
  "public_addresses lower addresses \<longleftrightarrow>
     addresses \<noteq> [] \<and> (\<forall>e \<in> set addresses. \<not> isPrivateAddress lower (address e))"

definition assertPublicAddresses ::
    "(js_string \<Rightarrow> js_string) \<Rightarrow> resolved_address list \<Rightarrow> (fetch_error, unit) res" where
  "assertPublicAddresses lower addresses = check (public_addresses lower addresses) Address_refused"

definition assertSafeWebUrl :: "fetch_world \<Rightarrow> nat \<Rightarrow> js_string \<Rightarrow> (fetch_error, web_url) res" where
  "assertSafeWebUrl w hop value =
     (case parse_url w value of
        None \<Rightarrow> Inl Url_invalid
      | Some url \<Rightarrow>
          if protocol url \<noteq> js ''http:'' \<and> protocol url \<noteq> js ''https:'' then Inl Protocol_refused
          else if username url \<noteq> [] \<or> password url \<noteq> [] then Inl Credentials_refused
          else
            let host = unbracket (hostname url) in
            if isBlockedHostname (lower_case w) host then Inl Host_refused
            else and_then (resolve_at w hop host) (\<lambda>addresses.
                 and_then (assertPublicAddresses (lower_case w) addresses) (\<lambda>_. Inr url)))"

text \<open>The lookup given to the dispatcher: what the dialler of a hop receives.\<close>

definition dialled ::
    "(js_string \<Rightarrow> js_string) \<Rightarrow> (js_string \<Rightarrow> (lookup_error, resolved_address list) res) \<Rightarrow>
     js_string \<Rightarrow> lookup_argument \<Rightarrow> (lookup_error, delivered) res" where
  "dialled lower resolve =
     createAddressCheckedLookup resolve
       (\<lambda>addresses _. check (public_addresses lower addresses)
          (Lookup_failed (js ''URL resolves to a private address'')))"

section \<open>The bounded read\<close>

fun read_stream :: "nat \<Rightarrow> nat \<Rightarrow> 8 word list list \<Rightarrow> body_read list \<Rightarrow> (fetch_error, 8 word list) res" where
  "read_stream maxBytes sofar chunks [] = Inr (concat chunks)"
| "read_stream maxBytes sofar chunks (Broken e # rs) = Inl e"
| "read_stream maxBytes sofar chunks (Chunk v # rs) =
     (case v of
        None \<Rightarrow> read_stream maxBytes sofar chunks rs
      | Some bytes \<Rightarrow>
          if bytes = [] then read_stream maxBytes sofar chunks rs
          else if maxBytes < sofar + length bytes then Inl Too_large
          else read_stream maxBytes (sofar + length bytes) (chunks @ [bytes]) rs)"

definition readBoundedResponseBytes :: "nat \<Rightarrow> response_body \<Rightarrow> (fetch_error, 8 word list) res" where
  "readBoundedResponseBytes maxBytes b =
     (case b of
        Whole r \<Rightarrow> and_then r (\<lambda>bytes. if maxBytes < length bytes then Inl Too_large else Inr bytes)
      | Stream rs \<Rightarrow> read_stream maxBytes 0 [] rs)"

section \<open>Redirects\<close>

definition default_max_bytes :: nat where
  "default_max_bytes = 5 * 1024 * 1024"

definition max_redirects :: nat where
  "max_redirects = 5"

definition default_user_agent :: js_string where
  "default_user_agent = js ''Ardur/0.1 (+https://github.com/ardurai/ardur-bot)''"

text \<open>\<open>{ "user-agent": ..., accept: ..., ...headers }\<close>\<close>

definition request_headers :: "js_string \<Rightarrow> header_list option \<Rightarrow> header_list" where
  "request_headers userAgent headers =
     foldl (\<lambda>hs (k, v). AList.update k v hs)
       [(js ''user-agent'', userAgent),
        (js ''accept'', js ''text/html,application/xhtml+xml,application/xml;q=0.9,text/plain;q=0.8,*/*;q=0.5'')]
       (case headers of Some hs \<Rightarrow> hs | None \<Rightarrow> [])"

fun exceeds :: "js_num \<Rightarrow> nat \<Rightarrow> bool" where
  "exceeds (Num r) n = (r > of_nat n)"
| "exceeds (Infty neg) n = (\<not> neg)"
| "exceeds NaN n = False"

record fetched =
  page_url :: js_string
  page_body :: js_string
  page_type :: "js_string option"

text \<open>The answer of the last hop.\<close>

definition read_page :: "fetch_world \<Rightarrow> nat \<Rightarrow> web_url \<Rightarrow> web_response \<Rightarrow> (fetch_error, fetched) res" where
  "read_page w maxBytes validated response =
     (if \<not> (200 \<le> status response \<and> status response \<le> 299) then Inl (Http_status (status response))
      else if (case content_length response of
                 Some l \<Rightarrow> l \<noteq> [] \<and> exceeds (to_number l) maxBytes | None \<Rightarrow> False) then Inl Too_large
      else and_then (readBoundedResponseBytes maxBytes (body response)) (\<lambda>buffer.
           Inr \<lparr>page_url = href validated, page_body = decode_text w buffer, page_type = content_type response\<rparr>))"

text \<open>The requests sent, each with the caller's headers it carries, and the outcome.\<close>

fun followRedirects ::
    "fetch_world \<Rightarrow> nat \<Rightarrow> js_string \<Rightarrow> nat \<Rightarrow> js_string \<Rightarrow> header_list option \<Rightarrow>
     (web_request \<times> header_list option) list \<times> (fetch_error, fetched) res" where
  "followRedirects w maxBytes userAgent redirectsRemaining rawUrl headers =
     (let hop = max_redirects - redirectsRemaining in
      if aborted_at w hop then ([], Inl Aborted)
      else case assertSafeWebUrl w hop rawUrl of
        Inl e \<Rightarrow> ([], Inl e)
      | Inr validated \<Rightarrow>
          let request = \<lparr>rq_href = href validated, rq_headers = request_headers userAgent headers\<rparr> in
          (case fetch_at w hop request of
             Inl e \<Rightarrow> ([(request, headers)], Inl e)
           | Inr response \<Rightarrow>
               if 300 \<le> status response \<and> status response < 400 then
                 (case redirectsRemaining of
                    0 \<Rightarrow> ([(request, headers)], Inl Too_many_redirects)
                  | Suc remaining \<Rightarrow>
                      if falsy (location response) then ([(request, headers)], Inl Location_missing)
                      else case parse_relative w (the (location response)) (href validated) of
                        None \<Rightarrow> ([(request, headers)], Inl (Failed (js ''Invalid URL'')))
                      | Some nxt \<Rightarrow>
                          (case followRedirects w maxBytes userAgent remaining (href nxt)
                                  (if origin nxt = origin validated then headers else None) of
                             (sent, outcome) \<Rightarrow> ((request, headers) # sent, outcome)))
               else ([(request, headers)], read_page w maxBytes validated response)))"

declare followRedirects.simps [simp del]

definition fetchSafeWebText ::
    "fetch_world \<Rightarrow> nat option \<Rightarrow> js_string option \<Rightarrow> header_list option \<Rightarrow> js_string \<Rightarrow>
     (web_request \<times> header_list option) list \<times> (fetch_error, fetched) res" where
  "fetchSafeWebText w maxBytes userAgent headers url =
     followRedirects w (case maxBytes of Some n \<Rightarrow> n | None \<Rightarrow> default_max_bytes)
       (case userAgent of Some u \<Rightarrow> u | None \<Rightarrow> default_user_agent) max_redirects url headers"

section \<open>Only checked hosts are asked\<close>

definition checked_url :: "fetch_world \<Rightarrow> nat \<Rightarrow> web_url \<Rightarrow> bool" where
  "checked_url w hop u \<longleftrightarrow>
     protocol u \<in> {js ''http:'', js ''https:''} \<and> username u = [] \<and> password u = [] \<and>
     \<not> isBlockedHostname (lower_case w) (unbracket (hostname u)) \<and>
     (\<exists>addresses. resolve_at w hop (unbracket (hostname u)) = Inr addresses \<and>
        public_addresses (lower_case w) addresses)"

lemma assertSafeWebUrl_checked:
  "assertSafeWebUrl w hop value = Inr u \<Longrightarrow> parse_url w value = Some u \<and> checked_url w hop u"
  by (auto simp: assertSafeWebUrl_def checked_url_def Let_def assertPublicAddresses_def
      split: option.splits if_splits)

text \<open>What one request of a fetch may be: of a checked URL, with the caller's headers only at the origin
  the fetch started from.\<close>

definition proper_request ::
    "fetch_world \<Rightarrow> js_string \<Rightarrow> header_list option \<Rightarrow> js_string \<Rightarrow> nat \<Rightarrow> web_request \<times> header_list option \<Rightarrow>
     web_url \<Rightarrow> bool" where
  "proper_request w userAgent headers start hop r u \<longleftrightarrow>
     checked_url w hop u \<and> fst r = \<lparr>rq_href = href u, rq_headers = request_headers userAgent (snd r)\<rparr> \<and>
     (snd r = None \<or> snd r = headers \<and> origin u = start)"

fun proper_requests ::
    "fetch_world \<Rightarrow> js_string \<Rightarrow> header_list option \<Rightarrow> js_string \<Rightarrow> nat \<Rightarrow>
     (web_request \<times> header_list option) list \<Rightarrow> web_url list \<Rightarrow> bool" where
  "proper_requests w userAgent headers start hop [] us = (us = [])"
| "proper_requests w userAgent headers start hop (r # rs) us =
     (case us of
        [] \<Rightarrow> False
      | u # rest \<Rightarrow> proper_request w userAgent headers start hop r u \<and>
          proper_requests w userAgent headers start (Suc hop) rs rest)"

lemma proper_requests_nth:
  "proper_requests w userAgent headers start hop rs us \<Longrightarrow>
   length us = length rs \<and> (\<forall>i < length rs. proper_request w userAgent headers start (hop + i) (rs ! i) (us ! i))"
proof (induction rs arbitrary: hop us)
  case (Cons r rs)
  from Cons.prems obtain u rest where us: "us = u # rest" "proper_request w userAgent headers start hop r u"
    "proper_requests w userAgent headers start (Suc hop) rs rest" by (auto split: list.splits)
  with Cons.IH [OF us(3)] show ?case by (auto simp: nth_Cons split: nat.splits)
qed simp

text \<open>Headers dropped at another origin stay dropped.\<close>

lemma proper_without_headers:
  "proper_requests w userAgent None start hop rs us \<Longrightarrow> proper_requests w userAgent headers start' hop rs us"
proof (induction rs arbitrary: hop us)
  case (Cons r rs)
  then show ?case by (auto simp: proper_request_def split: list.splits)
qed simp

text \<open>A URL that was resolved against a base reads back from its \<open>href\<close>.\<close>

definition href_reads_back :: "fetch_world \<Rightarrow> bool" where
  "href_reads_back w \<longleftrightarrow> (\<forall>loc base u. parse_relative w loc base = Some u \<longrightarrow> parse_url w (href u) = Some u)"

lemma redirect_step:
  assumes "followRedirects w maxBytes userAgent (Suc remaining) raw headers = (sent, outcome)"
    and "assertSafeWebUrl w (max_redirects - Suc remaining) raw = Inr u" and "sent \<noteq> []"
  shows "sent = [(\<lparr>rq_href = href u, rq_headers = request_headers userAgent headers\<rparr>, headers)] \<or>
    (\<exists>nxt loc rest. parse_relative w loc (href u) = Some nxt \<and>
       sent = (\<lparr>rq_href = href u, rq_headers = request_headers userAgent headers\<rparr>, headers) # rest \<and>
       followRedirects w maxBytes userAgent remaining (href nxt)
         (if origin nxt = origin u then headers else None) = (rest, outcome))"
  using assms unfolding followRedirects.simps [of w maxBytes userAgent "Suc remaining"] Let_def
  by (auto split: if_split_asm sum.split_asm option.split_asm prod.split_asm)

lemma redirects_proper:
  assumes "href_reads_back w"
  shows "remaining \<le> max_redirects \<Longrightarrow>
    followRedirects w maxBytes userAgent remaining raw headers = (sent, outcome) \<Longrightarrow>
    \<exists>us start. proper_requests w userAgent headers start (max_redirects - remaining) sent us \<and>
      length sent \<le> Suc remaining \<and> (us \<noteq> [] \<longrightarrow> parse_url w raw = Some (hd us) \<and> start = origin (hd us))"
proof (induction remaining arbitrary: raw headers sent outcome)
  case 0
  show ?case
  proof (cases "sent = []")
    case True
    then show ?thesis by (intro exI [of _ "[]"] exI) simp
  next
    case False
    with 0(2) obtain u where u: "assertSafeWebUrl w max_redirects raw = Inr u"
      "sent = [(\<lparr>rq_href = href u, rq_headers = request_headers userAgent headers\<rparr>, headers)]"
      by (auto simp: followRedirects.simps Let_def split: if_splits sum.splits)
    with assertSafeWebUrl_checked [OF u(1)] show ?thesis
      by (intro exI [of _ "[u]"] exI [of _ "origin u"]) (simp add: proper_request_def)
  qed
next
  case (Suc remaining)
  define hop where "hop = max_redirects - Suc remaining"
  have next_hop: "max_redirects - remaining = Suc hop" using Suc.prems(1) by (simp add: hop_def)
  show ?case
  proof (cases "sent = []")
    case True
    then show ?thesis by (intro exI [of _ "[]"] exI) simp
  next
    case False
    with Suc.prems(2) obtain u where u: "assertSafeWebUrl w hop raw = Inr u"
      by (auto simp: followRedirects.simps Let_def hop_def split: if_splits sum.splits)
    note checked = assertSafeWebUrl_checked [OF u]
    define r where "r = (\<lparr>rq_href = href u, rq_headers = request_headers userAgent headers\<rparr>, headers)"
    have first: "proper_request w userAgent headers (origin u) hop r u"
      using checked by (simp add: proper_request_def r_def)
    consider (last) "sent = [r]"
      | (more) nxt loc rest where "parse_relative w loc (href u) = Some nxt" "sent = r # rest"
          "followRedirects w maxBytes userAgent remaining (href nxt)
             (if origin nxt = origin u then headers else None) = (rest, outcome)"
      using redirect_step [OF Suc.prems(2) u [unfolded hop_def] False] unfolding r_def by blast
    then show ?thesis
    proof cases
      case last
      with first checked show ?thesis
        by (intro exI [of _ "[u]"] exI [of _ "origin u"]) (simp add: hop_def [symmetric])
    next
      case more
      from Suc.IH [OF _ more(3)] Suc.prems(1) obtain us start where
        us: "proper_requests w userAgent (if origin nxt = origin u then headers else None) start (Suc hop) rest us"
        "length rest \<le> Suc remaining" "us \<noteq> [] \<longrightarrow> parse_url w (href nxt) = Some (hd us) \<and> start = origin (hd us)"
        unfolding next_hop by auto
      have reads: "parse_url w (href nxt) = Some nxt"
        using assms more(1) by (auto simp: href_reads_back_def)
      have "proper_requests w userAgent headers (origin u) (Suc hop) rest us"
      proof (cases "us = []")
        case True
        with us(1) have "rest = []" using proper_requests_nth [OF us(1)] by simp
        with True show ?thesis by simp
      next
        case False
        with us(3) reads have start: "start = origin nxt" by simp
        show ?thesis
        proof (cases "origin nxt = origin u")
          case True
          with us(1) start show ?thesis by simp
        next
          case False
          with us(1) have "proper_requests w userAgent None start (Suc hop) rest us" by simp
          then show ?thesis by (rule proper_without_headers)
        qed
      qed
      with first checked us(2) more(2) show ?thesis
        by (intro exI [of _ "u # us"] exI [of _ "origin u"]) (simp add: hop_def [symmetric])
    qed
  qed
qed


text \<open>A world with one public page that redirects once to another host.\<close>

definition sample_url :: "js_string \<Rightarrow> web_url" where
  "sample_url name = \<lparr>protocol = js ''https:'', username = [], password = [], hostname = name, url_search = [],
     url_hash = [], href = name, origin = name, pathname = js ''/'', url_host = name\<rparr>"

definition sample_response :: "nat \<Rightarrow> web_response" where
  "sample_response hop = \<lparr>status = (if hop = 0 then 302 else 200), location = Some (js ''b''), content_length = None,
     content_type = None, body = Stream [Chunk (Some [104, 105])]\<rparr>"

definition sample_world :: fetch_world where
  "sample_world = \<lparr>parse_url = (\<lambda>s. Some (sample_url s)), parse_relative = (\<lambda>loc base. Some (sample_url loc)),
     resolve_at = (\<lambda>_ _. Inr [\<lparr>address = js ''8.8.8.8'', family = 4\<rparr>]),
     fetch_at = (\<lambda>hop _. Inr (sample_response hop)), aborted_at = (\<lambda>_. False), lower_case = same_case,
     decode_text = map (\<lambda>b. of_nat (unat b))\<rparr>"


section \<open>Only public addresses are dialled\<close>

interpretation web: address_guard
  "\<lambda>addresses _. check (public_addresses lower addresses) (Lookup_failed (js ''URL resolves to a private address''))"
  "\<lambda>_ a. \<not> isPrivateAddress lower a" for lower
  by unfold_locales (auto simp: public_addresses_def)

text \<open>Whatever the resolver answers when the connection is made, even other addresses than at the
  check, the dialler gets at least one address and only public ones, or an error.\<close>

theorem dialled_address_public:
  assumes "dialled lower resolve host options = Inr d"
  shows "delivered_addresses d \<noteq> [] \<and> (\<forall>a \<in> set (delivered_addresses d). \<not> isPrivateAddress lower a)"
  using assms unfolding dialled_def by (rule web.delivered_acceptable)

theorem dialled_address_public_witness:
  "\<not> isPrivateAddress same_case (js ''8.8.8.8'')"
proof -
  have public: "\<not> isPrivateAddress same_case (js ''8.8.8.8'')"
    by (rule public_dns(1))
  have "dialled same_case (\<lambda>_. Inr [\<lparr>address = js ''8.8.8.8'', family = 4\<rparr>]) (js ''a'') Options_absent =
      Inr (Single (js ''8.8.8.8'') 4)"
    by (simp add: dialled_def createAddressCheckedLookup_def public_addresses_def public selectLookupAddress_def)
  from dialled_address_public [OF this] show ?thesis by (simp add: delivered_addresses_def)
qed

section \<open>The byte budget\<close>

definition chunk_bytes :: "8 word list option list \<Rightarrow> 8 word list" where
  "chunk_bytes cs = concat (map (\<lambda>c. case c of Some bytes \<Rightarrow> bytes | None \<Rightarrow> []) cs)"

lemma read_stream_chunks:
  "sofar = length (concat acc) \<Longrightarrow> sofar \<le> maxBytes \<Longrightarrow>
   read_stream maxBytes sofar acc (map Chunk cs @ rest) =
     (if maxBytes < sofar + length (chunk_bytes cs) then Inl Too_large
      else read_stream maxBytes (sofar + length (chunk_bytes cs)) (acc @ concat (map (\<lambda>c. case c of
        Some bytes \<Rightarrow> if bytes = [] then [] else [bytes] | None \<Rightarrow> []) cs)) rest)"
proof (induction cs arbitrary: sofar acc)
  case (Cons c cs)
  show ?case
  proof (cases "c = None \<or> c = Some []")
    case True
    then show ?thesis using Cons.IH [OF Cons.prems] by (auto simp: chunk_bytes_def)
  next
    case False
    then obtain bytes where c: "c = Some bytes" "bytes \<noteq> []" by (cases c) auto
    show ?thesis
      using Cons.IH [of "sofar + length bytes" "acc @ [bytes]"] Cons.prems c by (simp add: chunk_bytes_def add.assoc)
  qed
qed (simp add: chunk_bytes_def)

text \<open>C34. A streamed body is returned whole and in order when its bytes fit the budget, and refused as
  too large as soon as they do not, even when the stream would fail later.\<close>

theorem body_within_budget:
  "readBoundedResponseBytes maxBytes (Stream (map Chunk cs)) =
     (if length (chunk_bytes cs) \<le> maxBytes then Inr (chunk_bytes cs) else Inl Too_large) \<and>
   readBoundedResponseBytes maxBytes (Stream (map Chunk cs @ Broken e # rest)) =
     (if length (chunk_bytes cs) \<le> maxBytes then Inl e else Inl Too_large)"
proof -
  have "concat (concat (map (\<lambda>c. case c of Some bytes \<Rightarrow> if bytes = [] then [] else [bytes] | None \<Rightarrow> []) cs)) =
      chunk_bytes cs"
    by (induction cs) (auto simp: chunk_bytes_def split: option.splits)
  then show ?thesis
    using read_stream_chunks [of 0 "[]" maxBytes cs "[]"] read_stream_chunks [of 0 "[]" maxBytes cs "Broken e # rest"]
    by (simp add: readBoundedResponseBytes_def)
qed

lemma stream_bounded:
  "read_stream maxBytes sofar acc rs = Inr bytes \<Longrightarrow> length (concat acc) = sofar \<Longrightarrow> sofar \<le> maxBytes \<Longrightarrow>
   length bytes \<le> maxBytes"
  by (induction maxBytes sofar acc rs rule: read_stream.induct) (auto split: option.splits if_splits)

lemma body_bounded: "readBoundedResponseBytes maxBytes b = Inr bytes \<Longrightarrow> length bytes \<le> maxBytes"
  using stream_bounded [of maxBytes 0 "[]"]
  by (auto simp: readBoundedResponseBytes_def split: response_body.splits if_splits)

end
