(* ===== verification/Endpoint_Guards.thy ===== *)
theory Endpoint_Guards
  imports Safe_Fetch
begin

text \<open>
  The other guards on outgoing connections, each a validator for the checked lookup: connectors
  (\<open>packages/adapters/src/remote-mcp.ts\<close>), model servers (\<open>openai-compatible-url.ts\<close> and the lookup and
  fetch of \<open>pi-openai-compatible-provider.ts\<close>) and memory servers (\<open>serenity-client.ts\<close>,
  \<open>memory/semantic-http.ts\<close>). A thrown error is its message. The URL parser and the resolver are
  parameters.
\<close>

type_synonym 'a msg = "(js_string, 'a) res"
type_synonym url_parser = "js_string \<Rightarrow> web_url option"
type_synonym resolver = "js_string \<Rightarrow> resolved_address list msg"

text \<open>A validator that throws a message, and a resolver that does, as the lookup sees them.\<close>

definition as_lookup :: "'a msg \<Rightarrow> (lookup_error, 'a) res" where
  "as_lookup r = (case r of Inl m \<Rightarrow> Inl (Lookup_failed m) | Inr x \<Rightarrow> Inr x)"

definition fails :: "string \<Rightarrow> 'a msg" where
  "fails m = Inl (js m)"

lemma as_lookup_Inr [simp]: "as_lookup r = Inr x \<longleftrightarrow> r = Inr x"
  by (simp add: as_lookup_def split: sum.split)

section \<open>Connectors\<close>

definition isTailscaleMagicDnsHostname :: "(js_string \<Rightarrow> js_string) \<Rightarrow> js_string \<Rightarrow> bool" where
  "isTailscaleMagicDnsHostname lower host =
     (let n = drop_final_dot (lower host) in n = js ''ts.net'' \<or> endsWith n (js ''.ts.net''))"

definition isPrivateHostname :: "(js_string \<Rightarrow> js_string) \<Rightarrow> js_string \<Rightarrow> bool" where
  "isPrivateHostname lower host =
     (let n = drop_final_dot (lower host) in
      if isTailscaleMagicDnsHostname lower n then False
      else n = js ''localhost'' \<or> endsWith n (js ''.localhost'') \<or> endsWith n (js ''.local'') \<or>
        endsWith n (js ''.internal'') \<or> n = js ''metadata.google.internal'' \<or>
        (isIP n \<noteq> 0 \<and> isPrivateAddress lower n))"

definition connector_refuses :: "(js_string \<Rightarrow> js_string) \<Rightarrow> bool \<Rightarrow> js_string \<Rightarrow> bool" where
  "connector_refuses lower magicDns a =
     (if isCloudMetadataAddress lower a then True
      else if \<not> isPrivateAddress lower a then False
      else \<not> (magicDns \<and> isTailscaleAddress lower a))"

definition assertConnectorAddresses ::
    "(js_string \<Rightarrow> js_string) \<Rightarrow> resolved_address list \<Rightarrow> js_string option \<Rightarrow> unit msg" where
  "assertConnectorAddresses lower addresses host =
     (if addresses = [] then fails ''Connector URL resolves to a private address''
      else
        let magicDns = (case host of Some h \<Rightarrow> isTailscaleMagicDnsHostname lower h | None \<Rightarrow> False) in
        if \<exists>e \<in> set addresses. connector_refuses lower magicDns (address e)
        then fails ''Connector URL resolves to a private address'' else Inr ())"

definition inspectSafeRemoteUrl ::
    "(js_string \<Rightarrow> js_string) \<Rightarrow> url_parser \<Rightarrow> resolver \<Rightarrow> js_string \<Rightarrow> (web_url \<times> resolved_address list) msg" where
  "inspectSafeRemoteUrl lower parse resolve value =
     (case parse value of
        None \<Rightarrow> fails ''Connector URL is invalid''
      | Some url \<Rightarrow>
          if protocol url \<noteq> js ''https:'' then fails ''Connector URL must use HTTPS''
          else if username url \<noteq> [] \<or> password url \<noteq> [] then fails ''Connector URL must not contain credentials''
          else if url_hash url \<noteq> [] then fails ''Connector URL must not contain a fragment''
          else
            let host = unbracket (hostname url) in
            if isPrivateHostname lower host then fails ''Connector URL targets a private host''
            else and_then (resolve host) (\<lambda>addresses.
                 and_then (assertConnectorAddresses lower addresses (Some host)) (\<lambda>_. Inr (url, addresses))))"

definition assertSafeRemoteUrl ::
    "(js_string \<Rightarrow> js_string) \<Rightarrow> url_parser \<Rightarrow> resolver \<Rightarrow> js_string \<Rightarrow> web_url msg" where
  "assertSafeRemoteUrl lower parse resolve value =
     and_then (inspectSafeRemoteUrl lower parse resolve value) (\<lambda>r. Inr (fst r))"

definition createSafeLookup ::
    "(js_string \<Rightarrow> js_string) \<Rightarrow> resolver \<Rightarrow> js_string \<Rightarrow> lookup_argument \<Rightarrow> (lookup_error, delivered) res" where
  "createSafeLookup lower resolve =
     createAddressCheckedLookup (\<lambda>h. as_lookup (resolve h))
       (\<lambda>addresses h. as_lookup (assertConnectorAddresses lower addresses (Some h)))"

text \<open>What a failed transport throws: an error with a cause, or an aggregate of errors; anything else
  has no detail.\<close>

datatype js_error = Error js_string "js_error option" | Aggregate js_string "js_error option" "js_error list"
  | Thrown_value

definition max_cause_depth :: nat where
  "max_cause_depth = 5"

text \<open>\<open>transportFailureDetail\<close> at the depth that leaves the given number of levels.\<close>

fun transportFailureDetail :: "nat \<Rightarrow> js_error option \<Rightarrow> js_string option" where
  "transportFailureDetail 0 e = None"
| "transportFailureDetail (Suc levels) None = None"
| "transportFailureDetail (Suc levels) (Some Thrown_value) = None"
| "transportFailureDetail (Suc levels) (Some (Error m cause)) =
     (case transportFailureDetail levels cause of
        Some d \<Rightarrow> Some d | None \<Rightarrow> if m = js ''fetch failed'' then None else Some m)"
| "transportFailureDetail (Suc levels) (Some (Aggregate m cause errors)) =
     (case find (\<lambda>d. \<not> falsy d) (map (\<lambda>e. transportFailureDetail levels (Some e)) errors) of
        Some d \<Rightarrow> d
      | None \<Rightarrow>
          (case transportFailureDetail levels cause of
             Some d \<Rightarrow> Some d | None \<Rightarrow> if m = js ''fetch failed'' then None else Some m))"

text \<open>The package's fetch dials through the checked lookup, an injected one through a pin.\<close>

datatype route = By_lookup | By_pin js_string "resolved_address list"

definition createSafeRemoteFetch ::
    "(js_string \<Rightarrow> js_string) \<Rightarrow> url_parser \<Rightarrow> resolver \<Rightarrow> bool \<Rightarrow>
     (web_url \<Rightarrow> route \<Rightarrow> (js_error, web_response) res) \<Rightarrow> js_string \<Rightarrow> web_response msg" where
  "createSafeRemoteFetch lower parse resolve usePackageFetch send input =
     and_then (inspectSafeRemoteUrl lower parse resolve input) (\<lambda>(url, addresses).
       case send url (if usePackageFetch then By_lookup else By_pin (hostname url) addresses) of
         Inl e \<Rightarrow>
           (let detail = transportFailureDetail max_cause_depth (Some e) in
            Inl (js ''Could not reach '' @ url_host url @
              (if falsy detail then [] else js '': '' @ the detail)))
       | Inr response \<Rightarrow>
           if 300 \<le> status response \<and> status response < 400 then fails ''Connector redirects are not allowed''
           else Inr response)"

text \<open>What a route hands the dialler that asks for a host; \<open>other\<close> is the runtime's own lookup.\<close>

definition route_lookup ::
    "(js_string \<Rightarrow> js_string) \<Rightarrow> resolver \<Rightarrow> (js_string \<Rightarrow> lookup_argument \<Rightarrow> (lookup_error, delivered) res) \<Rightarrow>
     route \<Rightarrow> js_string \<Rightarrow> lookup_argument \<Rightarrow> (lookup_error, delivered) res" where
  "route_lookup lower resolve other r =
     (case r of
        By_lookup \<Rightarrow> createSafeLookup lower resolve
      | By_pin name addresses \<Rightarrow> pinnedLookup lower (Some (name, addresses)) other)"

section \<open>Model servers\<close>

definition metadata_hosts :: "js_string list" where
  "metadata_hosts = [js ''metadata.google.internal'', js ''metadata.goog'']"

definition strip_slashes :: "js_string \<Rightarrow> js_string" where
  "strip_slashes s = rev (dropWhile (\<lambda>c. c = 47) (rev s))"

text \<open>\<open>/\\/v\\d+$/\<close>\<close>

definition versioned_api_root :: "js_string \<Rightarrow> bool" where
  "versioned_api_root path =
     (let r = rev path; ds = takeWhile is_digit r in
      ds \<noteq> [] \<and> startsWith (drop (length ds) r) [118, 47])"

definition normalizeOpenAiCompatibleBaseUrl :: "url_parser \<Rightarrow> js_string \<Rightarrow> js_string msg" where
  "normalizeOpenAiCompatibleBaseUrl parse raw =
     (case parse (trim raw) of
        None \<Rightarrow> fails ''Base URL must be an absolute HTTP(S) URL''
      | Some url \<Rightarrow>
          if protocol url \<noteq> js ''http:'' \<and> protocol url \<noteq> js ''https:'' then fails ''Base URL must use http or https''
          else if username url \<noteq> [] \<or> password url \<noteq> [] then fails ''Base URL must not contain credentials''
          else
            let path = strip_slashes (pathname url) in
            Inr (origin url @ (if versioned_api_root path then path
              else if path \<noteq> [] then path @ js ''/v1'' else js ''/v1'')))"

definition normalizeHostname :: "(js_string \<Rightarrow> js_string) \<Rightarrow> js_string \<Rightarrow> js_string" where
  "normalizeHostname lower host = drop_final_dot (unbracket (lower host))"

definition isPrivateOpenAiCompatibleHostname :: "(js_string \<Rightarrow> js_string) \<Rightarrow> js_string \<Rightarrow> bool" where
  "isPrivateOpenAiCompatibleHostname lower host =
     (let n = normalizeHostname lower host in
      if n = js ''localhost'' \<or> endsWith n (js ''.localhost'') \<or> n = js ''host.docker.internal'' then True
      else if n \<in> set metadata_hosts then False
      else if isIP n = 4 \<or> isIP n = 6 then isPrivateAddress lower n
      else False)"

definition isBlockedModelHost :: "(js_string \<Rightarrow> js_string) \<Rightarrow> js_string \<Rightarrow> bool" where
  "isBlockedModelHost lower host =
     (let n = normalizeHostname lower host in
      n \<in> set metadata_hosts \<or>
      (isIP n \<noteq> 0 \<and> (isCloudMetadataAddress lower n \<or> isLinkLocalAddress lower n)))"

definition assertAllowedOpenAiCompatibleRequestUrl ::
    "(js_string \<Rightarrow> js_string) \<Rightarrow> url_parser \<Rightarrow> bool \<Rightarrow> js_string \<Rightarrow> web_url msg" where
  "assertAllowedOpenAiCompatibleRequestUrl lower parse allowPublic raw =
     (case parse raw of
        None \<Rightarrow> fails ''Model server URL must be an absolute HTTP(S) URL''
      | Some url \<Rightarrow>
          if protocol url \<noteq> js ''http:'' \<and> protocol url \<noteq> js ''https:''
          then fails ''Model server URL must use http or https''
          else if username url \<noteq> [] \<or> password url \<noteq> [] then fails ''Model server URL must not contain credentials''
          else
            let host = normalizeHostname lower (hostname url) in
            if isBlockedModelHost lower host then fails ''Base URL targets a blocked metadata or link-local host''
            else if isPrivateOpenAiCompatibleHostname lower host then Inr url
            else if \<not> allowPublic then
              fails ''Public model endpoints are blocked. Set ARDURBOT_OPENAI_COMPAT_ALLOW_PUBLIC=1 to allow them. A private reverse proxy on localhost or an RFC1918 address does not need that gate.''
            else Inr url)"

definition assertAllowedOpenAiCompatibleUrl ::
    "(js_string \<Rightarrow> js_string) \<Rightarrow> url_parser \<Rightarrow> bool \<Rightarrow> js_string \<Rightarrow> web_url msg" where
  "assertAllowedOpenAiCompatibleUrl lower parse allowPublic raw =
     and_then (normalizeOpenAiCompatibleBaseUrl parse raw)
       (assertAllowedOpenAiCompatibleRequestUrl lower parse allowPublic)"

definition assertHttpsForKeyedOpenAiCompatibleUrl ::
    "(js_string \<Rightarrow> js_string) \<Rightarrow> web_url \<Rightarrow> js_string option \<Rightarrow> unit msg" where
  "assertHttpsForKeyedOpenAiCompatibleUrl lower url apiKey =
     (if (case apiKey of Some k \<Rightarrow> trim k = [] | None \<Rightarrow> True) then Inr ()
      else if protocol url = js ''https:'' then Inr ()
      else if isPrivateOpenAiCompatibleHostname lower (normalizeHostname lower (hostname url)) then Inr ()
      else fails ''OpenAI-compatible endpoints that send an API key must use HTTPS. Use an https:// URL, or omit the API key on a private HTTP endpoint.'')"

definition assertModelAddresses ::
    "(js_string \<Rightarrow> js_string) \<Rightarrow> bool \<Rightarrow> resolved_address list \<Rightarrow> unit msg" where
  "assertModelAddresses lower privateHostname addresses =
     (if addresses = [] then fails ''Model server did not resolve to an address''
      else if \<exists>e \<in> set addresses. isCloudMetadataAddress lower (address e)
      then fails ''Model server hostname resolved to a blocked metadata address''
      else if privateHostname then
        if \<exists>e \<in> set addresses. isIP (address e) = 0 \<or> \<not> isPrivateAddress lower (address e) \<or>
             isLinkLocalAddress lower (address e)
        then fails ''Local model server hostname resolved outside the private network'' else Inr ()
      else if \<exists>e \<in> set addresses. isPrivateAddress lower (address e)
      then fails ''Public model server hostname resolved to a private address'' else Inr ())"

definition createOpenAiCompatibleLookup ::
    "(js_string \<Rightarrow> js_string) \<Rightarrow> web_url \<Rightarrow> resolver \<Rightarrow> js_string \<Rightarrow> lookup_argument \<Rightarrow>
     (lookup_error, delivered) res" where
  "createOpenAiCompatibleLookup lower url resolve =
     createAddressCheckedLookup (\<lambda>h. as_lookup (resolve h))
       (\<lambda>addresses _. as_lookup (assertModelAddresses lower
          (isPrivateOpenAiCompatibleHostname lower (unbracket (hostname url))) addresses))"

text \<open>\<open>init.headers\<close>: a \<open>Headers\<close> object, which holds one joined value per lower-case name, or pairs.\<close>

datatype headers_init = Header_object header_list | Header_pairs header_list

definition headersCarryAuthorization :: "(js_string \<Rightarrow> js_string) \<Rightarrow> headers_init \<Rightarrow> bool" where
  "headersCarryAuthorization lower headers =
     (case headers of
        Header_object hs \<Rightarrow> \<not> falsy (map_of hs (js ''authorization''))
      | Header_pairs hs \<Rightarrow> \<exists>h \<in> set hs. lower (fst h) = js ''authorization'' \<and> snd h \<noteq> [])"

text \<open>The first argument of \<open>fetch\<close> is a \<open>Request\<close> with headers of its own, or an address.\<close>

definition requestCarriesAuthorization ::
    "(js_string \<Rightarrow> js_string) \<Rightarrow> header_list option \<Rightarrow> headers_init option \<Rightarrow> bool" where
  "requestCarriesAuthorization lower request_object init_headers =
     (case init_headers of
        Some h \<Rightarrow> headersCarryAuthorization lower h
      | None \<Rightarrow> (case request_object of
            Some hs \<Rightarrow> \<not> falsy (map_of hs (js ''authorization'')) | None \<Rightarrow> False))"

text \<open>The request the fetch sends: the URL, and whether it dials through the checked lookup.\<close>

definition createOpenAiCompatibleFetch ::
    "(js_string \<Rightarrow> js_string) \<Rightarrow> url_parser \<Rightarrow> bool \<Rightarrow> js_string \<Rightarrow> header_list option \<Rightarrow> headers_init option \<Rightarrow>
     (web_url \<times> bool) msg" where
  "createOpenAiCompatibleFetch lower parse allowPublic rawUrl request_object init_headers =
     and_then (assertAllowedOpenAiCompatibleRequestUrl lower parse allowPublic rawUrl) (\<lambda>url.
     and_then (if requestCarriesAuthorization lower request_object init_headers
               then assertHttpsForKeyedOpenAiCompatibleUrl lower url (Some (js ''present'')) else Inr ()) (\<lambda>_.
       Inr (url, isIP (unbracket (hostname url)) = 0)))"

section \<open>Memory servers\<close>

definition isLocalMcpHost :: "js_string \<Rightarrow> bool" where
  "isLocalMcpHost host \<longleftrightarrow> host \<in> {js ''localhost'', js ''127.0.0.1'', js ''[::1]'', js ''::1''}"

definition parseSerenityEndpoint :: "url_parser \<Rightarrow> js_string \<Rightarrow> web_url msg" where
  "parseSerenityEndpoint parse endpoint =
     (case parse endpoint of
        None \<Rightarrow> fails ''Serenity endpoint must be a valid HTTP(S) URL.''
      | Some url \<Rightarrow>
          if (protocol url \<noteq> js ''http:'' \<and> protocol url \<noteq> js ''https:'') \<or> username url \<noteq> [] \<or>
             password url \<noteq> [] \<or> 63 \<in> set (href url) \<or> 35 \<in> set (href url)
          then fails ''Serenity endpoint must use HTTP(S) without credentials, a query, or a fragment.''
          else Inr url)"

definition hostnameOf :: "web_url \<Rightarrow> js_string" where
  "hostnameOf url = unbracket (hostname url)"

definition assertAllowedSerenityEndpoint :: "(js_string \<Rightarrow> js_string) \<Rightarrow> web_url \<Rightarrow> unit msg" where
  "assertAllowedSerenityEndpoint lower url =
     (if isCloudMetadataAddress lower (hostnameOf url) then fails ''Serenity endpoint targets a blocked address.''
      else if protocol url = js ''http:'' then
        if \<not> isLocalMcpHost (hostnameOf url)
        then fails ''Serenity HTTP endpoints are limited to loopback (localhost / 127.0.0.1 / ::1); use HTTPS for LAN or public hosts.''
        else Inr ()
      else Inr ())"

text \<open>The setter of \<open>url.pathname\<close> is a parameter.\<close>

definition normalizeSerenityEndpointUrl ::
    "(js_string \<Rightarrow> js_string) \<Rightarrow> url_parser \<Rightarrow> (web_url \<Rightarrow> js_string \<Rightarrow> web_url) \<Rightarrow> js_string \<Rightarrow> web_url msg" where
  "normalizeSerenityEndpointUrl lower parse set_pathname endpoint =
     and_then (parseSerenityEndpoint parse endpoint) (\<lambda>url.
     and_then (assertAllowedSerenityEndpoint lower url) (\<lambda>_.
       let path = strip_slashes (pathname url) in
       Inr (set_pathname url (if endsWith path (js ''/mcp'') then path else path @ js ''/mcp''))))"

definition normalizeSerenityEndpoint ::
    "(js_string \<Rightarrow> js_string) \<Rightarrow> url_parser \<Rightarrow> (web_url \<Rightarrow> js_string \<Rightarrow> web_url) \<Rightarrow> js_string \<Rightarrow> js_string msg" where
  "normalizeSerenityEndpoint lower parse set_pathname endpoint =
     and_then (normalizeSerenityEndpointUrl lower parse set_pathname endpoint) (\<lambda>url. Inr (strip_slashes (href url)))"

definition serenityEndpointRequiresDeploymentOwner ::
    "(js_string \<Rightarrow> js_string) \<Rightarrow> url_parser \<Rightarrow> js_string \<Rightarrow> bool msg" where
  "serenityEndpointRequiresDeploymentOwner lower parse endpoint =
     and_then (parseSerenityEndpoint parse endpoint) (\<lambda>url.
       let host = hostnameOf url in
       Inr (if isLocalMcpHost host \<or> isBlockedHostname lower host then True
            else if isIP host \<noteq> 0 then isPrivateAddress lower host
            else protocol url = js ''http:''))"

definition classifySerenityEndpointTrust ::
    "(js_string \<Rightarrow> js_string) \<Rightarrow> url_parser \<Rightarrow> resolver \<Rightarrow> js_string \<Rightarrow> js_string msg" where
  "classifySerenityEndpointTrust lower parse resolve endpoint =
     and_then (parseSerenityEndpoint parse endpoint) (\<lambda>url.
     and_then (serenityEndpointRequiresDeploymentOwner lower parse (href url)) (\<lambda>owner.
       if owner then Inr (js ''private'')
       else and_then (resolve (hostnameOf url)) (\<lambda>addresses.
         if addresses = [] then fails ''Serenity endpoint did not resolve to an address.''
         else if \<exists>e \<in> set addresses. isCloudMetadataAddress lower (address e)
         then fails ''Serenity endpoint targets a blocked address.''
         else if \<exists>e \<in> set addresses. isPrivateAddress lower (address e) then Inr (js ''private'')
         else Inr (js ''public''))))"

datatype fetch_path = Private_literal | Private_dns | Public_path

definition serenityFetchPath ::
    "(js_string \<Rightarrow> js_string) \<Rightarrow> url_parser \<Rightarrow> js_string option \<Rightarrow> web_url \<Rightarrow> fetch_path msg" where
  "serenityFetchPath lower parse endpointTrust url =
     and_then (if endpointTrust = Some (js ''private'') then Inr True
               else serenityEndpointRequiresDeploymentOwner lower parse (href url)) (\<lambda>private.
       Inr (if private then if isIP (hostnameOf url) \<noteq> 0 then Private_literal else Private_dns
            else Public_path))"

definition assertPrivateLanAddresses ::
    "(js_string \<Rightarrow> js_string) \<Rightarrow> resolved_address list \<Rightarrow> unit msg" where
  "assertPrivateLanAddresses lower addresses =
     (if addresses = [] then fails ''Serenity endpoint did not resolve to an address.''
      else if \<exists>e \<in> set addresses. isCloudMetadataAddress lower (address e)
      then fails ''Serenity endpoint targets a blocked address.''
      else if \<exists>e \<in> set addresses. \<not> isPrivateAddress lower (address e)
      then fails ''Serenity endpoint no longer resolves to a private address.'' else Inr ())"

text \<open>The lookup of one request: its only answer is the one pinned when the request began.\<close>

definition serenityLanLookup ::
    "(js_string \<Rightarrow> js_string) \<Rightarrow> resolved_address list \<Rightarrow> js_string \<Rightarrow> lookup_argument \<Rightarrow> (lookup_error, delivered) res" where
  "serenityLanLookup lower pinned =
     createAddressCheckedLookup (\<lambda>_. Inr pinned) (\<lambda>addresses _. as_lookup (assertPrivateLanAddresses lower addresses))"

definition createSerenityPrivateLanFetch ::
    "(js_string \<Rightarrow> js_string) \<Rightarrow> url_parser \<Rightarrow> resolver \<Rightarrow>
     (web_url \<Rightarrow> (js_string \<Rightarrow> lookup_argument \<Rightarrow> (lookup_error, delivered) res) \<Rightarrow> (js_error, web_response) res) \<Rightarrow>
     js_string \<Rightarrow> web_response msg" where
  "createSerenityPrivateLanFetch lower parse resolve send input =
     (case parse input of
        None \<Rightarrow> fails ''Invalid URL''
      | Some url \<Rightarrow>
          and_then (resolve (hostnameOf url)) (\<lambda>pinned.
          and_then (assertPrivateLanAddresses lower pinned) (\<lambda>_.
            case send url (serenityLanLookup lower pinned) of
              Inl e \<Rightarrow> Inl (js ''Could not reach '' @ url_host url @
                (case e of Error m _ \<Rightarrow> js '': '' @ m | Aggregate m _ _ \<Rightarrow> js '': '' @ m | Thrown_value \<Rightarrow> []))
            | Inr response \<Rightarrow>
                if 300 \<le> status response \<and> status response < 400
                then Inl (js ''Could not reach '' @ url_host url @
                  js '': Serenity MCP redirects are not permitted; configure the final URL.'')
                else Inr response)))"

definition semanticBaseUrl :: "(js_string \<Rightarrow> js_string) \<Rightarrow> url_parser \<Rightarrow> js_string \<Rightarrow> bool \<Rightarrow> js_string msg" where
  "semanticBaseUrl lower parse baseUrl loopbackHttpOnly =
     and_then (parseSerenityEndpoint parse baseUrl) (\<lambda>url.
       let host = unbracket (hostname url) in
       if isCloudMetadataAddress lower host then fails ''This memory endpoint is blocked.''
       else if protocol url = js ''http:'' \<and> loopbackHttpOnly \<and> \<not> isLocalMcpHost host
       then fails ''Use HTTPS for memory services outside loopback.''
       else if protocol url = js ''http:'' \<and> isIP host \<noteq> 0 \<and> \<not> isPrivateAddress lower host
       then fails ''Use HTTPS for public memory services.''
       else Inr (strip_slashes (href url)))"

record memory_settings =
  set_baseUrl :: "js_string option"
  set_endpointTrust :: "js_string option"

definition semanticRequiresDeploymentOwner ::
    "(js_string \<Rightarrow> js_string) \<Rightarrow> url_parser \<Rightarrow> memory_settings \<Rightarrow> bool msg" where
  "semanticRequiresDeploymentOwner lower parse settings =
     (if set_endpointTrust settings = Some (js ''private'') then Inr True
      else if falsy (set_baseUrl settings) then Inr False
      else serenityEndpointRequiresDeploymentOwner lower parse (the (set_baseUrl settings)))"

definition classifySemanticSettings ::
    "(js_string \<Rightarrow> js_string) \<Rightarrow> url_parser \<Rightarrow> resolver \<Rightarrow> memory_settings \<Rightarrow> memory_settings msg" where
  "classifySemanticSettings lower parse resolve settings =
     and_then (semanticBaseUrl lower parse (case set_baseUrl settings of Some b \<Rightarrow> b | None \<Rightarrow> []) False) (\<lambda>baseUrl.
     and_then (classifySerenityEndpointTrust lower parse resolve baseUrl) (\<lambda>trust.
       Inr (settings\<lparr>set_baseUrl := Some baseUrl, set_endpointTrust := Some trust\<rparr>)))"

definition authorizeSemanticConnection ::
    "(js_string \<Rightarrow> js_string) \<Rightarrow> url_parser \<Rightarrow> resolver \<Rightarrow> memory_settings \<Rightarrow> bool option \<Rightarrow> memory_settings msg" where
  "authorizeSemanticConnection lower parse resolve settings allowPrivateEndpoint =
     and_then (classifySemanticSettings lower parse resolve settings) (\<lambda>classified.
       if set_endpointTrust classified = Some (js ''private'') \<and> allowPrivateEndpoint \<noteq> Some True
       then fails ''This memory provider endpoint requires deployment-owner authorization.'' else Inr classified)"

text \<open>The address set one request of the memory client may dial when the endpoint is private.\<close>

definition semanticPrivateAddresses ::
    "(js_string \<Rightarrow> js_string) \<Rightarrow> resolver \<Rightarrow> js_string \<Rightarrow> resolved_address list msg" where
  "semanticPrivateAddresses lower resolve host =
     and_then (if isIP host \<noteq> 0 then Inr [\<lparr>address = host, family = int (isIP host)\<rparr>] else resolve host) (\<lambda>addresses.
       if addresses = [] \<or>
          (\<exists>e \<in> set addresses. isCloudMetadataAddress lower (address e) \<or> \<not> isPrivateAddress lower (address e))
       then fails ''The memory service request failed. Check the connection and retry.''
       else Inr addresses)"

definition semanticPrivateLookup ::
    "resolved_address list \<Rightarrow> js_string \<Rightarrow> lookup_argument \<Rightarrow> (lookup_error, delivered) res" where
  "semanticPrivateLookup addresses = createAddressCheckedLookup (\<lambda>_. Inr addresses) (\<lambda>_ _. Inr ())"

section \<open>Every guard is a validator of the checked lookup\<close>

definition connector_accepts :: "(js_string \<Rightarrow> js_string) \<Rightarrow> js_string \<Rightarrow> js_string \<Rightarrow> bool" where
  "connector_accepts lower host a \<longleftrightarrow> \<not> isCloudMetadataAddress lower a \<and>
     (isPrivateAddress lower a \<longrightarrow> isTailscaleMagicDnsHostname lower host \<and> isTailscaleAddress lower a)"

definition model_accepts :: "(js_string \<Rightarrow> js_string) \<Rightarrow> bool \<Rightarrow> js_string \<Rightarrow> bool" where
  "model_accepts lower privateHostname a \<longleftrightarrow> \<not> isCloudMetadataAddress lower a \<and>
     (if privateHostname then isIP a \<noteq> 0 \<and> isPrivateAddress lower a \<and> \<not> isLinkLocalAddress lower a
      else \<not> isPrivateAddress lower a)"

definition memory_accepts :: "(js_string \<Rightarrow> js_string) \<Rightarrow> js_string \<Rightarrow> bool" where
  "memory_accepts lower a \<longleftrightarrow> isPrivateAddress lower a \<and> \<not> isCloudMetadataAddress lower a"

lemma validators:
  "assertConnectorAddresses lower addresses (Some host) = Inr u \<Longrightarrow>
   \<forall>e \<in> set addresses. connector_accepts lower host (address e)"
  "assertModelAddresses lower private addresses = Inr v \<Longrightarrow> \<forall>e \<in> set addresses. model_accepts lower private (address e)"
  "assertPrivateLanAddresses lower addresses = Inr w \<Longrightarrow> \<forall>e \<in> set addresses. memory_accepts lower (address e)"
  by (auto simp: assertConnectorAddresses_def connector_refuses_def connector_accepts_def assertModelAddresses_def
      model_accepts_def assertPrivateLanAddresses_def memory_accepts_def fails_def Let_def split: if_splits)

interpretation connector: address_guard
  "\<lambda>addresses h. as_lookup (assertConnectorAddresses lower addresses (Some h))" "connector_accepts lower" for lower
  by unfold_locales (simp add: validators(1))

interpretation model: address_guard
  "\<lambda>addresses _. as_lookup (assertModelAddresses lower local_name addresses)" "\<lambda>_. model_accepts lower local_name"
  for lower local_name
  by unfold_locales (simp add: validators(2))

interpretation memory: address_guard
  "\<lambda>addresses _. as_lookup (assertPrivateLanAddresses lower addresses)" "\<lambda>_. memory_accepts lower" for lower
  by unfold_locales (simp add: validators(3))

lemma semantic_delivers:
  assumes "semanticPrivateAddresses lower resolve name = Inr addresses"
    and "semanticPrivateLookup addresses host options = Inr d"
  shows "delivered_addresses d \<noteq> [] \<and> (\<forall>a \<in> set (delivered_addresses d). memory_accepts lower a)"
proof -
  have "\<forall>e \<in> set addresses. memory_accepts lower (address e)"
    using assms(1) by (auto simp: semanticPrivateAddresses_def memory_accepts_def fails_def split: if_splits)
  moreover have "selectLookupAddress addresses (lookupOptions options) = Inr d"
    using assms(2) by (simp add: semanticPrivateLookup_def createAddressCheckedLookup_def)
  ultimately show ?thesis using selected_addresses by fastforce
qed

text \<open>C32. Whatever the resolvers answer, a connector dials no metadata address and a private one only on
  its own tailnet; a model server is dialled at private addresses exactly when its name is a private
  one, never at metadata; a memory server inside the network only at private addresses that are not
  metadata. Each lookup that succeeds delivers an address.\<close>

theorem guarded_lookups_deliver:
  "(createSafeLookup lower resolve host options = Inr d \<longrightarrow>
      delivered_addresses d \<noteq> [] \<and> (\<forall>a \<in> set (delivered_addresses d). connector_accepts lower host a)) \<and>
   (createOpenAiCompatibleLookup lower url resolve host options = Inr d \<longrightarrow>
      delivered_addresses d \<noteq> [] \<and> (\<forall>a \<in> set (delivered_addresses d).
        model_accepts lower (isPrivateOpenAiCompatibleHostname lower (unbracket (hostname url))) a)) \<and>
   (serenityLanLookup lower pinned host options = Inr d \<longrightarrow>
      delivered_addresses d \<noteq> [] \<and> (\<forall>a \<in> set (delivered_addresses d). memory_accepts lower a)) \<and>
   (semanticPrivateAddresses lower resolve name = Inr addresses \<and>
    semanticPrivateLookup addresses host options = Inr d \<longrightarrow>
      delivered_addresses d \<noteq> [] \<and> (\<forall>a \<in> set (delivered_addresses d). memory_accepts lower a))"
  using connector.delivered_acceptable [of _ lower host options d]
    model.delivered_acceptable [of _ lower _ host options d]
    memory.delivered_acceptable [of _ lower host options d] semantic_delivers [of lower resolve name addresses host options d]
  unfolding createSafeLookup_def createOpenAiCompatibleLookup_def serenityLanLookup_def by blast

theorem guarded_lookups_deliver_witness:
  "connector_accepts same_case (js ''mcp'') (js ''8.8.8.8'')"
proof -
  let ?resolve = "\<lambda>_. Inr [\<lparr>address = js ''8.8.8.8'', family = 4\<rparr>]"
  have "createSafeLookup same_case ?resolve (js ''mcp'') Options_absent = Inr (Single (js ''8.8.8.8'') 4)"
    by (simp add: createSafeLookup_def createAddressCheckedLookup_def as_lookup_def assertConnectorAddresses_def
        connector_refuses_def public_dns selectLookupAddress_def)
  with guarded_lookups_deliver [of same_case ?resolve "js ''mcp''" Options_absent] show ?thesis
    by (simp add: delivered_addresses_def)
qed

section \<open>A key in clear stays in the network\<close>

text \<open>A host as the URL parser leaves it: lower case, at most one pair of brackets, no zone, and not
  ending in two dots.\<close>

definition parsed_host :: "(js_string \<Rightarrow> js_string) \<Rightarrow> js_string \<Rightarrow> bool" where
  "parsed_host lower h \<longleftrightarrow>
     (let u = unbracket h; n = drop_final_dot u in
      lower h = h \<and> lower u = u \<and> lower n = n \<and> unbracket u = u \<and> unbracket n = n \<and> drop_final_dot n = n \<and>
      37 \<notin> set u)"

lemma host_names_agree:
  assumes "parsed_host lower h"
  shows "normalizeHostname lower h = drop_final_dot (unbracket h)"
    and "normalizeHostname lower (drop_final_dot (unbracket h)) = drop_final_dot (unbracket h)"
    and "normalizeHostname lower (unbracket h) = drop_final_dot (unbracket h)"
  using assms by (simp_all add: parsed_host_def normalizeHostname_def Let_def)

text \<open>An address ends in a hexadecimal digit or a colon, so no name of a local host is one.\<close>

lemma ends_join: "ws \<noteq> [] \<Longrightarrow> last ws \<noteq> [] \<Longrightarrow> join s ws \<noteq> [] \<and> last (join s ws) = last (last ws)"
  by (induction s ws rule: join.induct) auto

lemma digit_hex: "is_digit c \<Longrightarrow> hex_val c \<noteq> None"
  by (simp add: is_digit_def hex_val_def)

lemma ipv4_last:
  assumes "is_ipv4 s"
  shows "hex_val (last s) \<noteq> None"
proof -
  obtain a b c d where p: "split_on 46 s = [a, b, c, d]" and d: "v4_octet d" using v4_parts [OF assms] by metis
  have "d \<noteq> []" using d by (simp add: v4_octet_def all_digits_def)
  moreover have "s = join [46] [a, b, c, d]" using join_split_on [of 46 s] p by simp
  ultimately have "last s = last d" using ends_join [of "[a, b, c, d]" "[46]"] by simp
  moreover have "is_digit (last d)" using d \<open>d \<noteq> []\<close> by (simp add: v4_octet_def all_digits_def)
  ultimately show ?thesis using digit_hex by simp
qed

lemma items_last:
  assumes "\<forall>g \<in> set gs. v6_group g" and "tail_ok d" and "gs @ opt_list d \<noteq> []"
  shows "hex_val (last (join [58] (gs @ opt_list d))) \<noteq> None"
proof -
  have g: "g \<in> set gs \<Longrightarrow> g \<noteq> [] \<and> hex_val (last g) \<noteq> None" for g using assms(1) by (auto simp: v6_group_def)
  have "last (gs @ opt_list d) \<noteq> [] \<and> hex_val (last (last (gs @ opt_list d))) \<noteq> None"
  proof (cases d)
    case None
    with assms(3) g [of "last gs"] show ?thesis by (auto simp: opt_list_def)
  next
    case (Some t)
    with assms(2) ipv4_last [of t] v4_no_units [of t] show ?thesis by (simp add: opt_list_def tail_ok_def)
  qed
  with ends_join [OF assms(3)] show ?thesis by simp
qed

lemma ip_last_unit:
  assumes "isIP s \<noteq> 0" and "37 \<notin> set s"
  shows "s \<noteq> [] \<and> (hex_val (last s) \<noteq> None \<or> last s = 58)"
proof (cases "is_ipv4 s")
  case True
  with ipv4_last v4_no_units show ?thesis by blast
next
  case False
  with assms(1) have "isIP s = 6" by (simp add: isIP_def split: if_splits)
  then obtain f where f: "form_ok f" "s = form_text f" using ipv6_text_has_form assms(2) by blast
  have ne: "s \<noteq> []" using form_colon [OF f(1)] f(2) by auto
  show ?thesis
  proof (cases f)
    case (Full gs d)
    have "gs @ opt_list d \<noteq> []" using ne f(2) Full by auto
    with Full f ne items_last [of gs d] show ?thesis by simp
  next
    case (Short ls gs d)
    show ?thesis
    proof (cases "join [58] (gs @ opt_list d) = []")
      case True
      with Short f ne show ?thesis by simp
    next
      case False
      then have "gs @ opt_list d \<noteq> []" by auto
      with Short f ne False items_last [of gs d] show ?thesis by auto
    qed
  qed
qed

lemma named_not_address:
  assumes "n = js ''localhost'' \<or> endsWith n (js ''.localhost'') \<or> n = js ''host.docker.internal''" and "37 \<notin> set n"
  shows "isIP n = 0"
proof (rule ccontr)
  assume "isIP n \<noteq> 0"
  from ip_last_unit [OF this assms(2)] have l: "n \<noteq> []" "hex_val (last n) \<noteq> None \<or> last n = 58" by auto
  have "last n = 116 \<or> last n = 108"
  proof (cases "endsWith n (js ''.localhost'')")
    case True
    then obtain r where "rev n = rev (js ''.localhost'') @ r" by (auto simp: endsWith_def startsWith_iff)
    then have "n = rev r @ js ''.localhost''" by (simp add: rev_swap)
    then show ?thesis by (simp add: js_def)
  next
    case False
    with assms(1) show ?thesis by (auto simp: js_def)
  qed
  with l(2) show False by (auto simp: hex_val_def)
qed

lemma dotted_end_not_address: "37 \<notin> set s \<Longrightarrow> isIP s \<noteq> 0 \<Longrightarrow> drop_final_dot s = s"
  using ip_last_unit [of s] hex_val_not(2) by (auto simp: drop_final_dot_def)

lemma keyed_host_private:
  assumes "createOpenAiCompatibleFetch lower parse allowPublic raw req init = Inr (url, checked)"
    and "requestCarriesAuthorization lower req init" and "protocol url \<noteq> js ''https:''"
    and "parsed_host lower (hostname url)"
  shows "isPrivateOpenAiCompatibleHostname lower (unbracket (hostname url))"
    and "\<not> isBlockedModelHost lower (normalizeHostname lower (hostname url))"
    and "checked \<longleftrightarrow> isIP (unbracket (hostname url)) = 0"
proof -
  from assms(1,2) have a: "assertAllowedOpenAiCompatibleRequestUrl lower parse allowPublic raw = Inr url"
    and k: "assertHttpsForKeyedOpenAiCompatibleUrl lower url (Some (js ''present'')) = Inr ()"
    and c: "checked \<longleftrightarrow> isIP (unbracket (hostname url)) = 0"
    by (auto simp: createOpenAiCompatibleFetch_def)
  have "trim (js ''present'') = js ''present''" by (rule trim_id) (simp add: js_def is_space_def)
  with k assms(3) have "isPrivateOpenAiCompatibleHostname lower (normalizeHostname lower (hostname url))"
    by (auto simp: assertHttpsForKeyedOpenAiCompatibleUrl_def fails_def split: if_splits)
  then show "isPrivateOpenAiCompatibleHostname lower (unbracket (hostname url))"
    unfolding isPrivateOpenAiCompatibleHostname_def host_names_agree [OF assms(4)] .
  show "\<not> isBlockedModelHost lower (normalizeHostname lower (hostname url))"
    using a by (auto simp: assertAllowedOpenAiCompatibleRequestUrl_def fails_def Let_def split: option.splits if_splits)
  show "checked \<longleftrightarrow> isIP (unbracket (hostname url)) = 0" by (rule c)
qed


text \<open>The condition on the host matters: a name that ends in two dots is a local name where the key is
  let through, which strips a dot twice, but not where the lookup is checked, which strips one.\<close>

theorem double_dot_host_disagrees:
  "isPrivateOpenAiCompatibleHostname same_case (normalizeHostname same_case (js ''localhost..'')) \<and>
   \<not> isPrivateOpenAiCompatibleHostname same_case (unbracket (js ''localhost..''))"
proof -
  have n: "normalizeHostname same_case (js ''localhost..'') = js ''localhost.''"
    "normalizeHostname same_case (js ''localhost.'') = js ''localhost''" "unbracket (js ''localhost..'') = js ''localhost..''"
    by (simp_all add: normalizeHostname_def same_case_def unbracket_def drop_final_dot_def js_def)
  have "isIP (js ''localhost.'') = 0"
    using ip_last_unit [of "js ''localhost.''"] hex_val_not(2) by (fastforce simp: js_def)
  then have "\<not> isPrivateOpenAiCompatibleHostname same_case (js ''localhost..'')"
    by (simp add: isPrivateOpenAiCompatibleHostname_def Let_def n) (simp add: js_def endsWith_def startsWith_def metadata_hosts_def)
  then show ?thesis by (simp add: n isPrivateOpenAiCompatibleHostname_def [of _ "js ''localhost.''"])
qed

definition sample_model_url :: web_url where
  "sample_model_url = \<lparr>protocol = js ''http:'', username = [], password = [], hostname = js ''10.0.0.1'',
     url_search = [], url_hash = [], href = js ''http://10.0.0.1/v1'', origin = js ''http://10.0.0.1'',
     pathname = js ''/v1'', url_host = js ''10.0.0.1''\<rparr>"

lemma sample_model_host:
  "isIP (js ''10.0.0.1'') = 4" "isPrivateAddress same_case (js ''10.0.0.1'')"
  "\<not> isCloudMetadataAddress same_case (js ''10.0.0.1'')" "\<not> isLinkLocalAddress same_case (js ''10.0.0.1'')"
  "normalizeHostname same_case (js ''10.0.0.1'') = js ''10.0.0.1''" "unbracket (js ''10.0.0.1'') = js ''10.0.0.1''"
proof -
  have sp: "split_on 46 (js ''10.0.0.1'') = [js ''10'', js ''0'', js ''0'', js ''1'']" by (simp add: js_def)
  have oc: "v4_octet (js ''10'')" "v4_octet (js ''0'')" "v4_octet (js ''1'')" "nat_of_digits (js ''10'') = 10"
    "nat_of_digits (js ''0'') = 0" "nat_of_digits (js ''1'') = 1"
    by (simp_all add: js_def v4_octet_def all_digits_def is_digit_def nat_of_digits_def digit_val_def)
  have v4: "is_ipv4 (js ''10.0.0.1'')" by (simp add: is_ipv4_def sp oc)
  show "isIP (js ''10.0.0.1'') = 4" using v4 by (simp add: isIP_def)
  have n: "ipv4ToNumber (js ''10.0.0.1'') = 0x0a000001"
    using ipv4_number [OF sp oc(1) oc(2) oc(2) oc(3)] oc by (simp add: word_unat_eq_iff)
  have of4: "ipv4_of (js ''10.0.0.1'') = Some (js ''10.0.0.1'')"
    using v4 by (simp add: ipv4_of_def ipv4_not_mapped isIP_def)
  show u: "unbracket (js ''10.0.0.1'') = js ''10.0.0.1''" by (simp add: unbracket_def js_def)
  show "normalizeHostname same_case (js ''10.0.0.1'') = js ''10.0.0.1''"
    by (simp add: normalizeHostname_def same_case_def u) (simp add: drop_final_dot_def js_def)
  note sc = same_case_def [of "js ''10.0.0.1''"]
  have "reserved_ipv4 (unat (ipv4ToNumber (js ''10.0.0.1'')))" unfolding n by (simp add: reserved_ipv4_parts)
  then show "isPrivateAddress same_case (js ''10.0.0.1'')"
    using private_octets_reserved [OF v4] by (simp add: isPrivateAddress_def Let_def sc u of4)
  show "\<not> isCloudMetadataAddress same_case (js ''10.0.0.1'')"
    by (simp add: isCloudMetadataAddress_def Let_def sc u of4 isCloudMetadataIpv4Number_def metadata_numbers n)
  show "\<not> isLinkLocalAddress same_case (js ''10.0.0.1'')"
    using octet_number(1) [OF oc(1)] oc(4) by (simp add: isLinkLocalAddress_def Let_def sc u of4 sp entry_def)
qed


end
