(* ===== verification/Plan_Steps.thy ===== *)
theory Plan_Steps
  imports JsString
begin

text \<open>
  The steps of a goal's project plan (\<open>packages/db/src/goal-plan.ts\<close>, shapes of
  \<open>packages/contracts/src/goal.ts\<close>): the depth-first search for cycles among prerequisites, and the
  loop that re-derives which outstanding steps are blocked. A row of the database is a record; the
  loop is a \<open>partial_function\<close>, since on a plan with a cycle it need not end.
\<close>

section \<open>Rows\<close>

datatype step_status = Step_pending | Step_active | Step_blocked | Step_done | Step_cancelled

datatype support_link =
    Artifact_link js_string js_string
  | Tool_result_link js_string js_string
  | Run_link js_string

record step_outcome =
  oc_actorId :: js_string
  oc_support :: "support_link list"
  oc_recordedAt :: js_string

record step_handout =
  ho_runId :: js_string
  ho_delegationId :: js_string
  ho_dispatchedAt :: js_string

record plan_step =
  row_id :: js_string
  clientId :: js_string
  step_revision :: nat
  step_position :: nat
  step_title :: js_string
  step_owner :: js_string
  ownerIsUser :: bool
  step_condition :: js_string
  step_status :: step_status
  prerequisiteIds :: "js_string list"
  step_outcome :: "step_outcome option"
  dispatchRunId :: "js_string option"
  dispatchDelegationId :: "js_string option"
  step_dispatch :: "step_handout option"

record step_input =
  in_id :: js_string
  in_title :: js_string
  in_owner :: js_string
  in_ownerIsUser :: bool
  in_condition :: js_string
  in_prerequisites :: "js_string list"

section \<open>Cycles\<close>

text \<open>\<open>new Map(entries.map((entry) => [entry.id, entry]))\<close>: a later entry replaces an earlier one.\<close>

type_synonym graph_entry = "js_string \<times> js_string list"

definition prerequisites_of :: "graph_entry list \<Rightarrow> js_string \<Rightarrow> js_string list" where
  "prerequisites_of entries x = (case map_of (rev entries) x of Some ps \<Rightarrow> ps | None \<Rightarrow> [])"

definition entry_ids :: "graph_entry list \<Rightarrow> js_string set" where
  "entry_ids entries = fst ` set entries"

text \<open>
  The visits of \<open>xs\<close> in turn, with the two sets as lists: \<open>None\<close> once a visit returns true, else
  what is done by then. \<open>visiting.delete\<close> undoes the \<open>visiting.add\<close> of the same visit.
\<close>

function visit_all :: "graph_entry list \<Rightarrow> js_string list \<Rightarrow> js_string list \<Rightarrow> js_string list \<Rightarrow> js_string list option" where
  "visit_all g visiting finished [] = Some finished"
| "visit_all g visiting finished (x # xs) =
     (if x \<notin> entry_ids g then visit_all g visiting finished xs
      else if x \<in> set finished then visit_all g visiting finished xs
      else if x \<in> set visiting then None
      else case visit_all g (x # visiting) finished (prerequisites_of g x) of
             None \<Rightarrow> None
           | Some finished' \<Rightarrow> visit_all g visiting (x # finished') xs)"
  by pat_completeness auto

termination
proof (relation "inv_image (less_than <*lex*> less_than)
    (\<lambda>(g, visiting, finished, xs). (card (entry_ids g - set visiting), length xs))")
  fix g visiting finished x and xs :: "js_string list"
  assume "\<not> x \<notin> entry_ids g" and "x \<notin> set visiting"
  then have "entry_ids g - set (x # visiting) \<subset> entry_ids g - set visiting" by auto
  moreover have "finite (entry_ids g - set visiting)" by (simp add: entry_ids_def)
  ultimately have "card (entry_ids g - set (x # visiting)) < card (entry_ids g - set visiting)"
    by (rule psubset_card_mono [rotated])
  then show "((g, x # visiting, finished, prerequisites_of g x), g, visiting, finished, x # xs)
      \<in> inv_image (less_than <*lex*> less_than)
          (\<lambda>(g, visiting, finished, xs). (card (entry_ids g - set visiting), length xs))"
    by simp
qed auto

declare visit_all.simps [simp del]

definition graphHasCycle :: "graph_entry list \<Rightarrow> bool" where
  "graphHasCycle entries = (visit_all entries [] [] (map fst entries) = None)"

definition planHasCycle :: "step_input list \<Rightarrow> bool" where
  "planHasCycle steps = graphHasCycle (map (\<lambda>s. (in_id s, in_prerequisites s)) steps)"

section \<open>Statuses derived from prerequisites\<close>

definition deriveStatus ::
    "step_status \<Rightarrow> (js_string \<rightharpoonup> step_status) \<Rightarrow> js_string list \<Rightarrow> step_status" where
  "deriveStatus prior statuses ps =
     (if prior \<noteq> Step_pending \<and> prior \<noteq> Step_blocked then prior
      else if \<exists>x \<in> set ps. statuses x = Some Step_blocked \<or> statuses x = Some Step_cancelled
      then Step_blocked else Step_pending)"

definition status_map :: "plan_step list \<Rightarrow> js_string \<rightharpoonup> step_status" where
  "status_map rows = map_of (rev (map (\<lambda>r. (clientId r, step_status r)) rows))"

text \<open>
  One round of the loop over the rows: what they become, the map, and whether nothing changed. The
  row in memory and the row in the database change together; only the latter has a revision.
\<close>

fun settle_round ::
    "nat \<Rightarrow> (js_string \<rightharpoonup> step_status) \<Rightarrow> plan_step list \<Rightarrow>
      plan_step list \<times> (js_string \<rightharpoonup> step_status) \<times> bool" where
  "settle_round revision statuses [] = ([], statuses, True)"
| "settle_round revision statuses (r # rs) =
     (let nxt = deriveStatus (step_status r) statuses (prerequisiteIds r) in
      if nxt = step_status r
      then (case settle_round revision statuses rs of (rs', m, settled) \<Rightarrow> (r # rs', m, settled))
      else (case settle_round revision (statuses(clientId r \<mapsto> nxt)) rs of
              (rs', m, settled) \<Rightarrow>
                (r\<lparr>step_status := nxt, step_revision := revision\<rparr> # rs', m, False)))"

partial_function (option) settle_loop ::
    "nat \<Rightarrow> (js_string \<rightharpoonup> step_status) \<Rightarrow> plan_step list \<Rightarrow> plan_step list option" where
  "settle_loop revision statuses rows =
     (case settle_round revision statuses rows of
        (rows', m, settled) \<Rightarrow> if settled then Some rows' else settle_loop revision m rows')"

declare settle_loop.simps [code]

definition recomputePlanStepStatuses :: "nat \<Rightarrow> plan_step list \<Rightarrow> plan_step list option" where
  "recomputePlanStepStatuses revision rows = settle_loop revision (status_map rows) rows"

section \<open>The search finds the cycles\<close>

text \<open>The prerequisite relation within the plan.\<close>

definition plan_edges :: "graph_entry list \<Rightarrow> (js_string \<times> js_string) set" where
  "plan_edges g = {(x, y). x \<in> entry_ids g \<and> y \<in> entry_ids g \<and> y \<in> set (prerequisites_of g x)}"

lemma finite_plan_edges: "finite (plan_edges g)"
  by (rule finite_subset [of _ "entry_ids g \<times> entry_ids g"]) (auto simp: plan_edges_def entry_ids_def)

lemma visit_all_None:
  assumes "visit_all g visiting finished xs = None"
    and "\<And>v x. v \<in> set visiting \<Longrightarrow> x \<in> set xs \<Longrightarrow> x \<in> entry_ids g \<Longrightarrow> (v, x) \<in> (plan_edges g)\<^sup>+"
  shows "\<not> acyclic (plan_edges g)"
  using assms
proof (induction g visiting finished xs rule: visit_all.induct)
  case (2 g visiting finished x xs)
  note none = "2.prems"(1) [unfolded visit_all.simps(2)]
  show ?case
  proof (cases "x \<notin> entry_ids g \<or> x \<in> set finished \<or> x \<in> set visiting")
    case True
    with none "2.IH"(1, 2) "2.prems"(2) show ?thesis
      by (auto simp: acyclic_def split: if_splits)
  next
    case new: False
    show ?thesis
    proof (cases "visit_all g (x # visiting) finished (prerequisites_of g x)")
      case None
      have "(v, y) \<in> (plan_edges g)\<^sup>+"
        if "v \<in> set (x # visiting)" "y \<in> set (prerequisites_of g x)" "y \<in> entry_ids g" for v y
      proof -
        have edge: "(x, y) \<in> plan_edges g" using new that by (simp add: plan_edges_def)
        show ?thesis
        proof (cases "v = x")
          case False
          then have "(v, x) \<in> (plan_edges g)\<^sup>+" using that(1) new "2.prems"(2) [of v x] by simp
          then show ?thesis using edge by (rule trancl_into_trancl)
        qed (use edge in blast)
      qed
      with "2.IH"(3) new None show ?thesis by blast
    next
      case (Some finished')
      with none new have "visit_all g visiting (x # finished') xs = None" by simp
      then show ?thesis using "2.IH"(4) [OF _ _ _ Some] new "2.prems"(2) by simp
    qed
  qed
qed (simp add: visit_all.simps)

text \<open>What is done is closed under prerequisites and lies on no cycle.\<close>

definition finished_ok :: "graph_entry list \<Rightarrow> js_string set \<Rightarrow> bool" where
  "finished_ok g D \<longleftrightarrow> plan_edges g `` D \<subseteq> D \<and> (\<forall>x \<in> D. (x, x) \<notin> (plan_edges g)\<^sup>+)"

lemma closed_trancl: "r `` D \<subseteq> D \<Longrightarrow> x \<in> D \<Longrightarrow> (x, y) \<in> r\<^sup>+ \<Longrightarrow> y \<in> D"
  by (metis Image_closed_trancl ImageI trancl_into_rtrancl)

lemma finished_ok_insert:
  assumes "finished_ok g D" and "plan_edges g `` {x} \<subseteq> D"
  shows "finished_ok g (insert x D)"
proof -
  have closed: "plan_edges g `` D \<subseteq> D" using assms(1) by (simp add: finished_ok_def)
  have "(x, x) \<notin> (plan_edges g)\<^sup>+" if "x \<notin> D"
  proof
    assume "(x, x) \<in> (plan_edges g)\<^sup>+"
    then obtain y where "(x, y) \<in> plan_edges g" "(y, x) \<in> (plan_edges g)\<^sup>*" by (meson tranclD)
    with assms(2) have "y \<in> D" by blast
    with \<open>(y, x) \<in> (plan_edges g)\<^sup>*\<close> closed have "x \<in> D" by (metis Image_closed_trancl ImageI)
    with that show False by contradiction
  qed
  with assms show ?thesis by (auto simp: finished_ok_def)
qed

lemma visit_all_Some:
  assumes "visit_all g visiting finished xs = Some finished'" and "finished_ok g (set finished)"
  shows "finished_ok g (set finished') \<and> set finished \<union> (set xs \<inter> entry_ids g) \<subseteq> set finished'"
  using assms
proof (induction g visiting finished xs arbitrary: finished' rule: visit_all.induct)
  case (2 g visiting finished x xs)
  note some = "2.prems"(1) [unfolded visit_all.simps(2)]
  show ?case
  proof (cases "x \<notin> entry_ids g \<or> x \<in> set finished")
    case True
    with some "2.IH"(1, 2) "2.prems"(2) show ?thesis by (fastforce split: if_splits)
  next
    case new: False
    with some have fresh: "x \<notin> set visiting" by (auto split: if_splits)
    obtain done1 where inner: "visit_all g (x # visiting) finished (prerequisites_of g x) = Some done1"
        and rest: "visit_all g visiting (x # done1) xs = Some finished'"
      using some new fresh by (auto split: option.splits)
    have ok1: "finished_ok g (set done1)"
        and grows: "set finished \<union> (set (prerequisites_of g x) \<inter> entry_ids g) \<subseteq> set done1"
      using "2.IH"(3) [OF _ _ fresh inner "2.prems"(2)] new by auto
    from grows have "plan_edges g `` {x} \<subseteq> set done1" by (auto simp: plan_edges_def)
    then have "finished_ok g (set (x # done1))" using finished_ok_insert [OF ok1] by simp
    then show ?thesis using "2.IH"(4) [OF _ _ fresh inner rest] new grows by auto
  qed
qed (simp add: visit_all.simps)

lemma graphHasCycle_iff: "graphHasCycle g \<longleftrightarrow> \<not> acyclic (plan_edges g)"
proof
  assume "graphHasCycle g"
  then show "\<not> acyclic (plan_edges g)"
    using visit_all_None [of g "[]" "[]" "map fst g"] by (simp add: graphHasCycle_def)
next
  assume cyclic: "\<not> acyclic (plan_edges g)"
  show "graphHasCycle g"
  proof (rule ccontr)
    assume "\<not> graphHasCycle g"
    then obtain finished where "visit_all g [] [] (map fst g) = Some finished"
      by (auto simp: graphHasCycle_def)
    then have "finished_ok g (set finished)" and all: "entry_ids g \<subseteq> set finished"
      using visit_all_Some [of g "[]" "[]" "map fst g" finished]
      by (auto simp: finished_ok_def entry_ids_def)
    then have "(x, x) \<notin> (plan_edges g)\<^sup>+" if "x \<in> entry_ids g" for x
      using that by (auto simp: finished_ok_def)
    moreover have "x \<in> entry_ids g" if "(x, x) \<in> (plan_edges g)\<^sup>+" for x
      using tranclD [OF that] by (auto simp: plan_edges_def)
    ultimately show False using cyclic by (auto simp: acyclic_def)
  qed
qed

section \<open>What the loop settles on\<close>

definition outstanding :: "step_status \<Rightarrow> bool" where
  "outstanding s \<longleftrightarrow> s = Step_pending \<or> s = Step_blocked"

definition plan_graph :: "plan_step list \<Rightarrow> graph_entry list" where
  "plan_graph rows = map (\<lambda>r. (clientId r, prerequisiteIds r)) rows"

text \<open>An outstanding step is stuck when a chain of outstanding prerequisites leads to a cancelled one.\<close>

inductive stuck :: "plan_step list \<Rightarrow> js_string \<Rightarrow> bool" for rows where
  cancelled: "r \<in> set rows \<Longrightarrow> outstanding (step_status r) \<Longrightarrow> clientId q \<in> set (prerequisiteIds r) \<Longrightarrow>
    q \<in> set rows \<Longrightarrow> step_status q = Step_cancelled \<Longrightarrow> stuck rows (clientId r)"
| behind: "r \<in> set rows \<Longrightarrow> outstanding (step_status r) \<Longrightarrow> p \<in> set (prerequisiteIds r) \<Longrightarrow>
    stuck rows p \<Longrightarrow> stuck rows (clientId r)"

inductive_cases stuckE: "stuck rows x"

definition settled_status :: "plan_step list \<Rightarrow> plan_step \<Rightarrow> step_status" where
  "settled_status rows r =
     (if \<not> outstanding (step_status r) then step_status r
      else if stuck rows (clientId r) then Step_blocked else Step_pending)"

text \<open>How a row may change: its status among the outstanding ones, with the revision of the change.\<close>

definition evolves :: "nat \<Rightarrow> plan_step \<Rightarrow> plan_step \<Rightarrow> bool" where
  "evolves revision r r' \<longleftrightarrow>
     r' = r\<lparr>step_status := step_status r', step_revision := step_revision r'\<rparr> \<and>
     (outstanding (step_status r) \<longleftrightarrow> outstanding (step_status r')) \<and>
     (outstanding (step_status r) \<or> step_status r' = step_status r) \<and>
     (step_revision r' = step_revision r \<or> step_revision r' = revision) \<and>
     (step_status r' = step_status r \<or> step_revision r' = revision)"

lemma evolves_refl [simp]: "evolves revision r r"
  by (simp add: evolves_def)

lemma evolves_trans: "evolves v a b \<Longrightarrow> evolves v b c \<Longrightarrow> evolves v a c"
  by (cases a; cases b; cases c) (auto simp: evolves_def)

lemma evolves_fields:
  assumes "evolves v r r'"
  shows "clientId r' = clientId r" "prerequisiteIds r' = prerequisiteIds r" "row_id r' = row_id r"
    "outstanding (step_status r') = outstanding (step_status r)"
    "\<not> outstanding (step_status r) \<Longrightarrow> step_status r' = step_status r"
  using assms by (cases r; cases r'; auto simp: evolves_def)+

lemma deriveStatus_outstanding:
  "outstanding (deriveStatus s m ps) = outstanding s"
  "\<not> outstanding s \<Longrightarrow> deriveStatus s m ps = s"
  by (auto simp: deriveStatus_def outstanding_def)

lemma deriveStatus_cong:
  "outstanding s \<Longrightarrow> outstanding t \<Longrightarrow> (\<And>x. x \<in> set ps \<Longrightarrow> m x = n x) \<Longrightarrow>
     deriveStatus s m ps = deriveStatus t n ps"
  by (auto simp: deriveStatus_def outstanding_def)

lemma evolves_derive:
  "evolves v r (r\<lparr>step_status := deriveStatus (step_status r) m ps, step_revision := v\<rparr>)"
  using deriveStatus_outstanding [of "step_status r" m ps] by (auto simp: evolves_def)

lemma settle_round_evolves:
  "settle_round v m rs = (rs', m', b) \<Longrightarrow> list_all2 (evolves v) rs rs'"
  by (induction v m rs arbitrary: rs' m' b rule: settle_round.induct)
    (auto simp: Let_def evolves_derive split: if_splits prod.splits)

lemma settle_round_settled:
  "settle_round v m rs = (rs', m', True) \<Longrightarrow>
     rs' = rs \<and> m' = m \<and> (\<forall>r \<in> set rs. deriveStatus (step_status r) m (prerequisiteIds r) = step_status r)"
proof (induction rs arbitrary: rs')
  case (Cons r rs)
  from Cons.prems have same: "deriveStatus (step_status r) m (prerequisiteIds r) = step_status r"
    by (auto simp: Let_def split: if_splits prod.splits)
  with Cons.prems obtain rs1 where "settle_round v m rs = (rs1, m', True)" "rs' = r # rs1"
    by (auto simp: Let_def split: prod.splits)
  with Cons.IH same show ?case by auto
qed simp

lemma settle_round_map:
  assumes "settle_round v m rs = (rs', m', b)" and "distinct (map clientId rs)"
    and "\<And>r. r \<in> set rs \<Longrightarrow> m (clientId r) = Some (step_status r)"
  shows "(\<forall>r \<in> set rs'. m' (clientId r) = Some (step_status r)) \<and>
    (\<forall>x. x \<notin> clientId ` set rs \<longrightarrow> m' x = m x)"
  using assms
proof (induction rs arbitrary: rs' m m' b)
  case (Cons r rs)
  let ?n = "deriveStatus (step_status r) m (prerequisiteIds r)"
  let ?m = "if ?n = step_status r then m else m(clientId r \<mapsto> ?n)"
  obtain rs1 b1 where rest: "settle_round v ?m rs = (rs1, m', b1)"
      and first: "rs' = (if ?n = step_status r then r
        else r\<lparr>step_status := ?n, step_revision := v\<rparr>) # rs1"
    using Cons.prems(1) by (auto simp: Let_def split: if_splits prod.splits)
  have mapped: "?m (clientId q) = Some (step_status q)" if "q \<in> set rs" for q
  proof -
    have "clientId q \<noteq> clientId r" using Cons.prems(2) that by (metis distinct.simps(2) image_eqI list.set_map list.simps(9))
    then show ?thesis using Cons.prems(3) that by simp
  qed
  then have "(\<forall>q \<in> set rs1. m' (clientId q) = Some (step_status q)) \<and>
      (\<forall>x. x \<notin> clientId ` set rs \<longrightarrow> m' x = ?m x)"
    using Cons.IH [OF rest _ mapped] Cons.prems(2) by auto
  then show ?case using first Cons.prems(2, 3) by auto
qed simp

lemma settle_round_fixed:
  "(\<And>r. r \<in> set rs \<Longrightarrow> deriveStatus (step_status r) m (prerequisiteIds r) = step_status r) \<Longrightarrow>
     settle_round v m rs = (rs, m, True)"
  by (induction rs) (auto simp: Let_def)

text \<open>
  A round settles the steps whose prerequisites are settled: where the map agrees with a consistent
  target on \<open>A\<close>, and the rows in \<open>M\<close> have their prerequisites in \<open>A\<close>, the map agrees on those too.
\<close>

lemma settle_round_progress:
  assumes "settle_round v m rs = (rs', m', b)" and "distinct (map clientId rs)"
    and "\<And>r. r \<in> set rs \<Longrightarrow> m (clientId r) = Some (step_status r)"
    and "\<And>r. r \<in> set rs \<Longrightarrow> T (clientId r) = Some (deriveStatus (step_status r) T (prerequisiteIds r))"
    and "\<And>x. x \<in> A \<Longrightarrow> m x = T x"
    and "\<And>r. r \<in> set rs \<Longrightarrow> clientId r \<in> M \<Longrightarrow> set (prerequisiteIds r) \<subseteq> A"
    and "\<And>r. r \<in> set rs \<Longrightarrow> clientId r \<in> A \<Longrightarrow> clientId r \<in> M"
    and "x \<in> A \<or> x \<in> M \<and> x \<in> clientId ` set rs"
  shows "m' x = T x"
  using assms
proof (induction rs arbitrary: rs' m m' b A)
  case (Cons r rs)
  let ?n = "deriveStatus (step_status r) m (prerequisiteIds r)"
  let ?m = "if ?n = step_status r then m else m(clientId r \<mapsto> ?n)"
  let ?A = "if clientId r \<in> M then insert (clientId r) A else A"
  obtain rs1 b1 where rest: "settle_round v ?m rs = (rs1, m', b1)"
    using Cons.prems(1) by (auto simp: Let_def split: if_splits prod.splits)
  have mapped: "?m (clientId q) = Some (step_status q)" if "q \<in> set rs" for q
  proof -
    have "clientId q \<noteq> clientId r" using Cons.prems(2) that by (metis distinct.simps(2) image_eqI list.set_map list.simps(9))
    then show ?thesis using Cons.prems(3) that by simp
  qed
  have own: "?m (clientId r) = Some ?n" using Cons.prems(3) [of r] by simp
  have agree: "?m y = T y" if "y \<in> ?A" for y
  proof (cases "y = clientId r")
    case True
    have inM: "clientId r \<in> M" using that True Cons.prems(7) [of r] by (auto split: if_splits)
    have "m z = T z" if "z \<in> set (prerequisiteIds r)" for z
      using Cons.prems(5, 6) inM that by auto
    then have "?n = deriveStatus (step_status r) T (prerequisiteIds r)"
      by (auto simp: deriveStatus_def)
    then show ?thesis using True own Cons.prems(4) [of r] by simp
  next
    case False
    then show ?thesis using that Cons.prems(5) [of y] by (auto split: if_splits)
  qed
  have x: "x \<in> ?A \<or> x \<in> M \<and> x \<in> clientId ` set rs" using Cons.prems(8) by auto
  have sub: "set (prerequisiteIds q) \<subseteq> ?A" if "q \<in> set rs" "clientId q \<in> M" for q
    using Cons.prems(6) [of q] that by auto
  have keep: "clientId q \<in> M" if "q \<in> set rs" "clientId q \<in> ?A" for q
    using Cons.prems(7) [of q] that by (auto split: if_splits)
  show ?case
    by (rule Cons.IH [OF rest _ mapped _ agree sub keep x]) (use Cons.prems(2, 4) in auto)
qed simp

text \<open>The statuses the loop ends with, as a map.\<close>

definition settled_map :: "plan_step list \<Rightarrow> js_string \<rightharpoonup> step_status" where
  "settled_map rows = map_of (map (\<lambda>r. (clientId r, settled_status rows r)) rows)"

lemma settled_map_at:
  "distinct (map clientId rows) \<Longrightarrow> r \<in> set rows \<Longrightarrow> settled_map rows (clientId r) = Some (settled_status rows r)"
  by (auto simp: settled_map_def comp_def intro!: map_of_is_SomeI)

lemma settled_map_None: "x \<notin> clientId ` set rows \<Longrightarrow> settled_map rows x = None"
  by (auto simp: settled_map_def map_of_eq_None_iff image_image)

lemma settled_map_SomeD:
  "settled_map rows x = Some s \<Longrightarrow> \<exists>q \<in> set rows. x = clientId q \<and> s = settled_status rows q"
  by (auto simp: settled_map_def dest!: map_of_SomeD)

lemma same_row: "distinct (map clientId rows) \<Longrightarrow> r \<in> set rows \<Longrightarrow> q \<in> set rows \<Longrightarrow> clientId r = clientId q \<Longrightarrow> r = q"
  by (auto simp: distinct_map inj_on_def)

lemma blocked_behind:
  assumes "distinct (map clientId rows)" and "r \<in> set rows" and "outstanding (step_status r)"
  shows "(\<exists>x \<in> set (prerequisiteIds r). settled_map rows x = Some Step_blocked \<or>
      settled_map rows x = Some Step_cancelled) \<longleftrightarrow> stuck rows (clientId r)" (is "?L \<longleftrightarrow> _")
proof
  assume ?L
  then obtain q where q: "clientId q \<in> set (prerequisiteIds r)" "q \<in> set rows"
      "settled_status rows q = Step_blocked \<or> settled_status rows q = Step_cancelled"
    by (auto dest!: settled_map_SomeD)
  then have "stuck rows (clientId q) \<or> step_status q = Step_cancelled"
    by (auto simp: settled_status_def outstanding_def split: if_splits)
  then show "stuck rows (clientId r)" using q(1, 2) assms(2, 3) stuck.intros by blast
next
  assume "stuck rows (clientId r)"
  then show ?L
  proof (rule stuckE)
    fix r' q
    assume r': "clientId r = clientId r'" "r' \<in> set rows"
      and q: "clientId q \<in> set (prerequisiteIds r')" "q \<in> set rows" "step_status q = Step_cancelled"
    have "r' = r" using same_row [OF assms(1)] assms(2) r' by metis
    moreover have "settled_map rows (clientId q) = Some Step_cancelled"
      using settled_map_at [OF assms(1) q(2)] q(3) by (simp add: settled_status_def outstanding_def)
    ultimately show ?L using q(1) by blast
  next
    fix r' x
    assume r': "clientId r = clientId r'" "r' \<in> set rows"
      and x: "x \<in> set (prerequisiteIds r')" "stuck rows x"
    have "r' = r" using same_row [OF assms(1)] assms(2) r' by metis
    moreover from x(2) obtain q where "q \<in> set rows" "outstanding (step_status q)" "x = clientId q"
      by (auto elim: stuckE)
    then have "settled_map rows x = Some Step_blocked"
      using settled_map_at [OF assms(1)] x(2) by (simp add: settled_status_def)
    ultimately show ?L using x(1) by blast
  qed
qed

lemma settled_map_consistent:
  assumes "distinct (map clientId rows)" and "r \<in> set rows" and "evolves v r r'"
  shows "deriveStatus (step_status r') (settled_map rows) (prerequisiteIds r') = settled_status rows r"
proof (cases "outstanding (step_status r)")
  case True
  then show ?thesis
    using blocked_behind [OF assms(1, 2) True] evolves_fields [OF assms(3)]
    by (auto simp: deriveStatus_def settled_status_def outstanding_def)
next
  case False
  then show ?thesis
    using evolves_fields [OF assms(3)] deriveStatus_outstanding(2) by (simp add: settled_status_def)
qed

text \<open>The rank of a step: how many prerequisites it has, direct or not.\<close>

lemma rank_decreases:
  assumes "acyclic r" and "finite r" and "(x, y) \<in> r"
  shows "card (r\<^sup>+ `` {y}) < card (r\<^sup>+ `` {x})"
proof (rule psubset_card_mono)
  show "finite (r\<^sup>+ `` {x})" using assms(2) by (auto intro: finite_subset [OF _ finite_Range])
  have "y \<in> r\<^sup>+ `` {x}" "y \<notin> r\<^sup>+ `` {y}" using assms(1, 3) by (auto simp: acyclic_def)
  moreover have "r\<^sup>+ `` {y} \<subseteq> r\<^sup>+ `` {x}" using assms(3) by (auto intro: trancl_into_trancl2)
  ultimately show "r\<^sup>+ `` {y} \<subset> r\<^sup>+ `` {x}" by blast
qed

lemma map_of_rev_distinct: "distinct (map fst xs) \<Longrightarrow> map_of (rev xs) = map_of xs"
  by (rule map_of_eqI) (auto simp: distinct_map intro: map_of_is_SomeI dest!: map_of_SomeD simp flip: rev_map
    intro!: ext)

lemma all2_source: "list_all2 P xs ys \<Longrightarrow> y \<in> set ys \<Longrightarrow> \<exists>x \<in> set xs. P x y"
  by (induction rule: list_all2_induct) auto

lemma entry_ids_plan_graph: "entry_ids (plan_graph rows) = clientId ` set rows"
  by (auto simp: entry_ids_def plan_graph_def image_image)

lemma prerequisites_of_plan_graph:
  "distinct (map clientId rows) \<Longrightarrow> r \<in> set rows \<Longrightarrow>
     prerequisites_of (plan_graph rows) (clientId r) = prerequisiteIds r"
proof -
  assume "distinct (map clientId rows)" "r \<in> set rows"
  then have "map_of (plan_graph rows) (clientId r) = Some (prerequisiteIds r)"
      and "map_of (rev (plan_graph rows)) = map_of (plan_graph rows)"
    by (auto simp: plan_graph_def comp_def map_of_rev_distinct intro!: map_of_is_SomeI)
  then show ?thesis by (simp add: prerequisites_of_def)
qed

lemma plan_edges_plan_graph:
  "distinct (map clientId rows) \<Longrightarrow> plan_edges (plan_graph rows) =
     {(clientId r, y) | r y. r \<in> set rows \<and> y \<in> set (prerequisiteIds r) \<and> y \<in> clientId ` set rows}"
  using prerequisites_of_plan_graph [of rows] by (auto simp: plan_edges_def entry_ids_plan_graph)

lemma status_map_distinct:
  assumes "distinct (map clientId rows)"
  shows "r \<in> set rows \<Longrightarrow> status_map rows (clientId r) = Some (step_status r)"
    and "x \<notin> clientId ` set rows \<Longrightarrow> status_map rows x = None"
  using assms
  by (auto simp: status_map_def map_of_rev_distinct comp_def map_of_eq_None_iff image_image intro!: map_of_is_SomeI)

lemma settle_loop_ends:
  fixes rows0 v
  defines "E \<equiv> plan_edges (plan_graph rows0)"
  defines "rank \<equiv> \<lambda>x. card (E\<^sup>+ `` {x})"
  assumes dist: "distinct (map clientId rows0)" and acyc: "acyclic E"
    and "K - k = d" and bound: "\<And>x. rank x < K"
    and "list_all2 (evolves v) rows0 rows"
    and "\<And>r. r \<in> set rows \<Longrightarrow> m (clientId r) = Some (step_status r)"
    and "\<And>x. x \<notin> clientId ` set rows0 \<or> rank x < k \<Longrightarrow> m x = settled_map rows0 x"
  shows "\<exists>rows'. settle_loop v m rows = Some rows' \<and> list_all2 (evolves v) rows0 rows' \<and>
    (\<forall>r \<in> set rows'. settled_map rows0 (clientId r) = Some (step_status r))"
  using assms(5, 7-)
proof (induction d arbitrary: k m rows)
  case 0
  have "m = settled_map rows0" using 0(1, 4) bound by (auto simp: not_less intro!: ext order_less_le_trans)
  moreover have "deriveStatus (step_status r) (settled_map rows0) (prerequisiteIds r) = step_status r"
      if "r \<in> set rows" for r
  proof -
    have "\<exists>r0 \<in> set rows0. evolves v r0 r" by (rule all2_source [OF 0(2) that])
    then obtain r0 where r0: "r0 \<in> set rows0" "evolves v r0 r" by blast
    then have "Some (settled_status rows0 r0) = settled_map rows0 (clientId r)"
      using settled_map_at [OF dist] evolves_fields(1) by metis
    then show ?thesis
      using settled_map_consistent [OF dist r0] 0(3) [OF that] \<open>m = settled_map rows0\<close> by simp
  qed
  ultimately have "settle_round v m rows = (rows, m, True)" by (intro settle_round_fixed) simp
  then have "settle_loop v m rows = Some rows" by (subst settle_loop.simps) simp
  then show ?case using 0(2, 3) \<open>m = settled_map rows0\<close> by metis
next
  case (Suc d)
  obtain rows' m' b where rnd: "settle_round v m rows = (rows', m', b)" by (metis prod_cases3)
  have ids: "map clientId rows = map clientId rows0"
    using Suc.prems(2) evolves_fields(1)
    by (metis (no_types, lifting) length_map list_all2_conv_all_nth nth_equalityI nth_map)
  have from0: "\<exists>r0 \<in> set rows0. evolves v r0 r" if "r \<in> set rows" for r
    by (rule all2_source [OF Suc.prems(2) that])
  have target: "settled_map rows0 (clientId r) =
      Some (deriveStatus (step_status r) (settled_map rows0) (prerequisiteIds r))" if "r \<in> set rows" for r
    using from0 [OF that] settled_map_consistent [OF dist] settled_map_at [OF dist] evolves_fields(1)
    by metis
  have below: "set (prerequisiteIds r) \<subseteq> {x. x \<notin> clientId ` set rows0 \<or> rank x < k}"
    if "r \<in> set rows" "clientId r \<in> {x. rank x < Suc k}" for r
  proof
    fix y assume y: "y \<in> set (prerequisiteIds r)"
    from from0 [OF that(1)] obtain r0 where r0: "r0 \<in> set rows0" "evolves v r0 r" ..
    show "y \<in> {x. x \<notin> clientId ` set rows0 \<or> rank x < k}"
    proof (cases "y \<in> clientId ` set rows0")
      case True
      then have "(clientId r, y) \<in> E"
        using r0 y evolves_fields(1, 2) [OF r0(2)] by (auto simp: E_def plan_edges_plan_graph [OF dist])
      then have "rank y < rank (clientId r)"
        unfolding rank_def using rank_decreases [OF acyc] finite_plan_edges E_def by blast
      then show ?thesis using that(2) by simp
    qed simp
  qed
  have step: "m' x = settled_map rows0 x" if x: "x \<notin> clientId ` set rows0 \<or> rank x < Suc k" for x
  proof (rule settle_round_progress [OF rnd, where A = "{x. x \<notin> clientId ` set rows0 \<or> rank x < k}"
          and M = "{x. rank x < Suc k}"])
    show "distinct (map clientId rows)" using ids dist by simp
    show "x \<in> {x. x \<notin> clientId ` set rows0 \<or> rank x < k} \<or>
        x \<in> {x. rank x < Suc k} \<and> x \<in> clientId ` set rows"
      using x ids by (metis (mono_tags, lifting) list.set_map mem_Collect_eq)
    show "clientId r \<in> {x. rank x < Suc k}"
      if "r \<in> set rows" "clientId r \<in> {x. x \<notin> clientId ` set rows0 \<or> rank x < k}" for r
    proof -
      have "clientId r \<in> clientId ` set rows0" using that(1) ids by (metis image_eqI list.set_map)
      then show ?thesis using that(2) by simp
    qed
  qed (use Suc.prems(3, 4) target below in auto)
  have evo: "list_all2 (evolves v) rows0 rows'"
    by (rule list_all2_trans [OF _ Suc.prems(2) settle_round_evolves [OF rnd]]) (rule evolves_trans)
  have mapped: "m' (clientId r) = Some (step_status r)" if "r \<in> set rows'" for r
    using settle_round_map [OF rnd] ids dist Suc.prems(3) that by auto
  have "K - Suc k = d" using Suc.prems(1) by simp
  from Suc.IH [OF this evo mapped step]
  obtain rows'' where rec: "settle_loop v m' rows' = Some rows''" and
      res: "list_all2 (evolves v) rows0 rows''"
        "\<forall>r \<in> set rows''. settled_map rows0 (clientId r) = Some (step_status r)"
    by blast
  have "settle_loop v m rows = Some rows''"
  proof (cases b)
    case True
    then have "rows' = rows" "m' = m" using settle_round_settled rnd by auto
    then show ?thesis using rec by simp
  next
    case False
    then show ?thesis using rec rnd by (subst settle_loop.simps) simp
  qed
  then show ?case using res by blast
qed

lemma recompute_returns:
  assumes "distinct (map clientId rows)" and "\<not> graphHasCycle (plan_graph rows)"
  shows "\<exists>rows'. recomputePlanStepStatuses v rows = Some rows' \<and>
    list_all2 (\<lambda>r r'. evolves v r r' \<and> step_status r' = settled_status rows r) rows rows'"
proof -
  let ?E = "plan_edges (plan_graph rows)"
  have acyc: "acyclic ?E" using assms(2) by (simp add: graphHasCycle_iff)
  have bound: "card (?E\<^sup>+ `` {x}) < Suc (card (clientId ` set rows))" for x
  proof -
    have "?E\<^sup>+ `` {x} \<subseteq> clientId ` set rows"
      by (auto elim!: tranclE simp: plan_edges_def entry_ids_plan_graph)
    then show ?thesis by (simp add: card_mono less_Suc_eq_le)
  qed
  obtain rows' where rows': "recomputePlanStepStatuses v rows = Some rows'"
      "list_all2 (evolves v) rows rows'"
      "\<forall>r \<in> set rows'. settled_map rows (clientId r) = Some (step_status r)"
    using settle_loop_ends [OF assms(1) acyc refl bound, where k = 0 and v = v and rows = rows and m = "status_map rows"]
      status_map_distinct [OF assms(1)] settled_map_None [of _ rows]
    by (auto simp: recomputePlanStepStatuses_def list.rel_refl)
  have "list_all2 (\<lambda>r r'. evolves v r r' \<and> step_status r' = settled_status rows r) rows rows'"
  proof (rule list_all2_all_nthI)
    show "length rows = length rows'" using rows'(2) by (rule list_all2_lengthD)
    fix i assume i: "i < length rows"
    then have evo: "evolves v (rows ! i) (rows' ! i)" using rows'(2) by (simp add: list_all2_nthD)
    have "settled_map rows (clientId (rows' ! i)) = Some (step_status (rows' ! i))"
      using rows'(3) i list_all2_lengthD [OF rows'(2)] by simp
    then show "evolves v (rows ! i) (rows' ! i) \<and> step_status (rows' ! i) = settled_status rows (rows ! i)"
      using evo settled_map_at [OF assms(1), of "rows ! i"] i evolves_fields(1) [OF evo] by simp
  qed
  with rows'(1) show ?thesis by blast
qed

section \<open>Properties\<close>


text \<open>
  C39. On a plan without cycles, in whatever order the rows are read, the loop over statuses ends; a step
  that is not settled then is blocked when a chain of outstanding prerequisites leads to a cancelled
  step, and pending otherwise; nothing else changes but the revision of the rows it wrote.
\<close>

theorem blocked_iff_stuck:
  assumes "distinct (map clientId rows)" and "\<not> graphHasCycle (plan_graph rows)"
  shows "\<exists>rows'. recomputePlanStepStatuses v rows = Some rows' \<and>
    list_all2 (\<lambda>r r'.
      r' = r\<lparr>step_status :=
          (if \<not> outstanding (step_status r) then step_status r
           else if stuck rows (clientId r) then Step_blocked else Step_pending),
        step_revision := step_revision r'\<rparr> \<and>
      step_revision r' \<in> {step_revision r, v} \<and>
      (step_status r' = step_status r \<or> step_revision r' = v)) rows rows'"
proof -
  obtain rows' where rows': "recomputePlanStepStatuses v rows = Some rows'"
      "list_all2 (\<lambda>r r'. evolves v r r' \<and> step_status r' = settled_status rows r) rows rows'"
    using recompute_returns [OF assms] by blast
  have "list_all2 (\<lambda>r r'. r' = r\<lparr>step_status := settled_status rows r, step_revision := step_revision r'\<rparr> \<and>
      step_revision r' \<in> {step_revision r, v} \<and>
      (step_status r' = step_status r \<or> step_revision r' = v)) rows rows'"
    using rows'(2) by (rule list_all2_mono) (auto simp: evolves_def)
  with rows'(1) show ?thesis by (simp add: settled_status_def)
qed

definition sample_plan_step :: "string \<Rightarrow> string list \<Rightarrow> step_status \<Rightarrow> plan_step" where
  "sample_plan_step x ps status = \<lparr>row_id = js x, clientId = js x, step_revision = 1, step_position = 0,
     step_title = [], step_owner = [], ownerIsUser = False, step_condition = [], step_status = status,
     prerequisiteIds = map js ps, step_outcome = None, dispatchRunId = None, dispatchDelegationId = None,
     step_dispatch = None\<rparr>"

theorem blocked_iff_stuck_witness:
  "\<exists>rows'. recomputePlanStepStatuses 2 [sample_plan_step ''c'' [''b''] Step_pending,
      sample_plan_step ''b'' [''a''] Step_pending, sample_plan_step ''a'' [] Step_cancelled] = Some rows' \<and>
    length rows' = 3"
proof -
  let ?rows = "[sample_plan_step ''c'' [''b''] Step_pending, sample_plan_step ''b'' [''a''] Step_pending,
    sample_plan_step ''a'' [] Step_cancelled]"
  have "distinct (map clientId ?rows)" and "\<not> graphHasCycle (plan_graph ?rows)" by code_simp+
  from blocked_iff_stuck [OF this, of 2] obtain rows' where
      "recomputePlanStepStatuses 2 ?rows = Some rows'" "length ?rows = length rows'"
    using list_all2_lengthD by blast
  then show ?thesis by simp
qed

end
