(* ===== verification/Goal_Plan.thy ===== *)
theory Goal_Plan
  imports Plan_Steps Redaction Run_State
begin

text \<open>
  The transactions on a goal's project plan (\<open>packages/db/src/goal-plan.ts\<close>, the support check of
  \<open>goals.ts\<close>) and the handing out of its ready steps (\<open>packages/adapters/src/chief/project-plan.ts\<close>).
  The rows a goal's transactions read and write are one record; a transaction takes the row locks of
  the goal, so it is a function from that record to an error or the record it commits. Ids the
  database draws, the clock, and what admits a delegation are parameters.
\<close>

section \<open>The rows\<close>

datatype goal_status =
    Goal_running | Goal_needs_owner | Goal_paused | Goal_blocked | Goal_stopped | Goal_exhausted
  | Goal_completed | Goal_accepted

record team_goal =
  goal_id :: js_string
  goal_space :: js_string
  goal_user :: js_string
  goal_group :: js_string
  goal_thread :: js_string
  goal_coordinator :: js_string
  goal_rootTask :: js_string
  goal_status :: goal_status
  planRevision :: nat

record group_member =
  gm_botId :: js_string
  gm_name :: js_string
  gm_archived :: bool

record plan_group =
  pg_space :: js_string
  pg_user :: js_string
  pg_archived :: bool
  pg_coordinator :: "js_string option"
  pg_thread :: "js_string option"
  pg_members :: "group_member list"

record plan_run =
  pr_status :: run_status
  pr_space :: js_string
  pr_user :: js_string
  pr_goal :: "js_string option"
  pr_rootTask :: "js_string option"

record artifact_row =
  ar_space :: js_string
  ar_user :: js_string
  ar_hash :: js_string
  ar_group :: "js_string option"

record evidence_row =
  er_space :: js_string
  er_sha256 :: js_string
  er_run :: js_string

datatype step_action = Cancel_step | Reopen_step

datatype plan_event =
    Plan_updated nat nat
  | Plan_outcome js_string nat js_string
  | Plan_step_event js_string step_action nat
  | Goal_wake nat js_string
  | Goal_assigned js_string js_string js_string js_string

record plan_db =
  goal :: team_goal
  plan_rows :: "plan_step list"
  group_row :: plan_group
  runs :: "js_string \<rightharpoonup> plan_run"
  artifacts :: "js_string \<rightharpoonup> artifact_row"
  evidence_rows :: "js_string \<rightharpoonup> evidence_row"
  handoffs :: "js_string \<rightharpoonup> js_string option"
  delegations :: "js_string \<rightharpoonup> js_string"
  plan_events :: "plan_event list"

section \<open>Refusals\<close>

datatype plan_conflict =
    Revision_changed | Not_running | Unknown_owner | Prerequisite_missing | Dependency_cycle
  | Unknown_step | Step_settled | Step_not_settled | Step_in_flight | Missing_support

datatype support_error = Missing_record | Stale_record | Run_outside_goal

text \<open>\<open>Never_settles\<close> stands for a loop over statuses that does not end.\<close>

datatype plan_error =
    Conflict plan_conflict | Support_error support_error | Isolation_error | Invalid_input | Never_settles

primrec conflict_text :: "plan_conflict \<Rightarrow> js_string" where
  "conflict_text Revision_changed = js ''Plan revision is not current''"
| "conflict_text Not_running = js ''The goal is not running''"
| "conflict_text Unknown_owner = js ''A step owner is not a member of this group''"
| "conflict_text Prerequisite_missing = js ''A prerequisite is not a step in this plan''"
| "conflict_text Dependency_cycle = js ''The plan has a dependency cycle''"
| "conflict_text Unknown_step = js ''The step is not in this plan''"
| "conflict_text Step_settled = js ''The step is already done or cancelled''"
| "conflict_text Step_not_settled = js ''The step is still pending or blocked; only a done, cancelled, or in-flight step can be reopened''"
| "conflict_text Step_in_flight = js ''The step is still being worked on; its run has not finished''"
| "conflict_text Missing_support = js ''Finishing a step needs at least one record of the goal's work''"

section \<open>Inputs\<close>

definition id_unit :: "unit16 \<Rightarrow> bool" where
  "id_unit c \<longleftrightarrow> 97 \<le> c \<and> c \<le> 122 \<or> is_digit c"

definition valid_step_id :: "js_string \<Rightarrow> bool" where
  "valid_step_id s \<longleftrightarrow> s \<noteq> [] \<and> id_unit (hd s) \<and> length s \<le> 40 \<and> (\<forall>c \<in> set (tl s). id_unit c \<or> c = 45)"

definition trimmed :: "nat \<Rightarrow> js_string \<Rightarrow> (plan_error, js_string) res" where
  "trimmed limit s =
     (if trim s \<noteq> [] \<and> length (trim s) \<le> limit then Inr (trim s) else Inl Invalid_input)"

definition parse_step :: "step_input \<Rightarrow> (plan_error, step_input) res" where
  "parse_step s =
     and_then (check (valid_step_id (in_id s)) Invalid_input) (\<lambda>_.
     and_then (trimmed 300 (in_title s)) (\<lambda>title.
     and_then (trimmed 200 (in_owner s)) (\<lambda>owner.
     and_then (trimmed 500 (in_condition s)) (\<lambda>condition.
     and_then (check (length (in_prerequisites s) \<le> 20 \<and> (\<forall>x \<in> set (in_prerequisites s). valid_step_id x))
       Invalid_input) (\<lambda>_.
     Inr (s\<lparr>in_title := title, in_owner := owner, in_condition := condition\<rparr>))))))"

fun parse_steps :: "step_input list \<Rightarrow> (plan_error, step_input list) res" where
  "parse_steps [] = Inr []"
| "parse_steps (s # ss) = and_then (parse_step s) (\<lambda>s'. and_then (parse_steps ss) (\<lambda>ss'. Inr (s' # ss')))"

definition support_hash :: "js_string \<Rightarrow> bool" where
  "support_hash s \<longleftrightarrow> length s = 64 \<and> (\<forall>c \<in> set s. is_digit c \<or> 97 \<le> c \<and> c \<le> 102)"

fun valid_link :: "support_link \<Rightarrow> bool" where
  "valid_link (Artifact_link r v) = (r \<noteq> [] \<and> support_hash v)"
| "valid_link (Tool_result_link r v) = (r \<noteq> [] \<and> support_hash v)"
| "valid_link (Run_link r) = (r \<noteq> [])"

record plan_actor =
  pa_space :: js_string
  pa_user :: js_string
  pa_deploymentOwner :: bool

record coordinator_scope =
  sc_space :: js_string
  sc_user :: js_string
  sc_coordinator :: js_string
  sc_thread :: js_string

text \<open>Who acts, with the goal the input (of the owner) or the run (of the chief) names.\<close>

datatype plan_authority =
    By_owner plan_actor js_string
  | By_chief coordinator_scope js_string "js_string list option"

fun by_owner :: "plan_authority \<Rightarrow> bool" where
  "by_owner (By_owner a g) = True"
| "by_owner (By_chief s g secrets) = False"

fun input_goal_ok :: "plan_authority \<Rightarrow> bool" where
  "input_goal_ok (By_owner a g) = (g \<noteq> [])"
| "input_goal_ok (By_chief s g secrets) = True"

fun authority_secrets :: "plan_authority \<Rightarrow> js_string list option" where
  "authority_secrets (By_owner a g) = None"
| "authority_secrets (By_chief s g secrets) = secrets"

fun authority_actor :: "plan_authority \<Rightarrow> js_string" where
  "authority_actor (By_owner a g) = pa_user a"
| "authority_actor (By_chief s g secrets) = sc_coordinator s"

fun load_goal :: "plan_authority \<Rightarrow> plan_db \<Rightarrow> (plan_error, unit) res" where
  "load_goal (By_owner a g) db =
     check (pa_deploymentOwner a \<and> goal_id (goal db) = g \<and> goal_space (goal db) = pa_space a \<and>
       goal_user (goal db) = pa_user a) Isolation_error"
| "load_goal (By_chief s g secrets) db =
     check (goal_id (goal db) = g \<and> goal_space (goal db) = sc_space s \<and> goal_user (goal db) = sc_user s \<and>
       goal_coordinator (goal db) = sc_coordinator s \<and> goal_thread (goal db) = sc_thread s) Isolation_error"

section \<open>Replacing the plan\<close>

definition update_where :: "js_string \<Rightarrow> (plan_step \<Rightarrow> plan_step) \<Rightarrow> plan_step list \<Rightarrow> plan_step list" where
  "update_where x f rows = map (\<lambda>r. if row_id r = x then f r else r) rows"

definition active_members :: "plan_db \<Rightarrow> group_member list" where
  "active_members db = filter (\<lambda>m. \<not> gm_archived m) (pg_members (group_row db))"

definition validatePlanOwners :: "plan_db \<Rightarrow> step_input list \<Rightarrow> (plan_error, unit) res" where
  "validatePlanOwners db steps =
     check_all (\<lambda>s. check (if in_ownerIsUser s then in_owner s = goal_user (goal db)
         else in_owner s \<in> set (map gm_botId (active_members db))) (Conflict Unknown_owner)) steps"

definition merged_graph :: "step_input list \<Rightarrow> plan_step list \<Rightarrow> graph_entry list" where
  "merged_graph steps rows =
     map (\<lambda>s. (in_id s, in_prerequisites s)) steps @
     filter (\<lambda>e. fst e \<notin> set (map in_id steps)) (plan_graph rows)"

definition validatePlanShape :: "step_input list \<Rightarrow> plan_step list \<Rightarrow> (plan_error, unit) res" where
  "validatePlanShape steps rows =
     and_then (check (distinct (map in_id steps)) (Conflict Prerequisite_missing)) (\<lambda>_.
     and_then (check_all (\<lambda>s. check (\<forall>x \<in> set (in_prerequisites s).
         x \<in> set (map in_id steps) \<union> set (map clientId rows)) (Conflict Prerequisite_missing)) steps) (\<lambda>_.
     check (\<not> graphHasCycle (merged_graph steps rows)) (Conflict Dependency_cycle)))"

definition sameDefinitionText :: "js_string list option \<Rightarrow> js_string \<Rightarrow> js_string \<Rightarrow> bool" where
  "sameDefinitionText secrets stored submitted =
     (case secrets of
        Some ss \<Rightarrow> redactSecrets stored ss = redactSecrets submitted ss
      | None \<Rightarrow> stored = submitted)"

definition row_for :: "plan_step list \<Rightarrow> js_string \<Rightarrow> plan_step option" where
  "row_for rows x = map_of (rev (map (\<lambda>r. (clientId r, r)) rows)) x"

definition keeps_definition :: "js_string list option \<Rightarrow> plan_step list \<Rightarrow> step_input \<Rightarrow> bool" where
  "keeps_definition secrets rows s =
     (case row_for rows (in_id s) of
        None \<Rightarrow> True
      | Some prior \<Rightarrow> step_status prior \<noteq> Step_done \<or>
          sameDefinitionText secrets (step_title prior) (in_title s) \<and>
          sameDefinitionText secrets (step_condition prior) (in_condition s) \<and>
          step_owner prior = in_owner s \<and> ownerIsUser prior = in_ownerIsUser s \<and>
          prerequisiteIds prior = in_prerequisites s)"

definition blank_row :: "js_string \<Rightarrow> js_string \<Rightarrow> plan_step" where
  "blank_row rid cid = \<lparr>row_id = rid, clientId = cid, step_revision = 0, step_position = 0,
     step_title = [], step_owner = [], ownerIsUser = False, step_condition = [], step_status = Step_pending,
     prerequisiteIds = [], step_outcome = None, dispatchRunId = None, dispatchDelegationId = None,
     step_dispatch = None\<rparr>"

definition step_data :: "nat \<Rightarrow> nat \<Rightarrow> step_input \<Rightarrow> step_status \<Rightarrow> plan_step \<Rightarrow> plan_step" where
  "step_data revision index s status r =
     r\<lparr>step_revision := revision, step_position := index, step_title := in_title s,
       step_owner := in_owner s, ownerIsUser := in_ownerIsUser s, step_condition := in_condition s,
       prerequisiteIds := in_prerequisites s, step_status := status\<rparr>"

text \<open>The loop that writes the submitted steps; \<open>existing\<close> are the rows as read before it.\<close>

fun write_steps :: "(js_string \<Rightarrow> js_string) \<Rightarrow> nat \<Rightarrow> plan_step list \<Rightarrow> nat \<Rightarrow> step_input list \<Rightarrow>
    plan_step list \<Rightarrow> plan_step list" where
  "write_steps new_id revision existing index [] rows = rows"
| "write_steps new_id revision existing index (s # ss) rows =
     write_steps new_id revision existing (Suc index) ss
       (case row_for existing (in_id s) of
          Some prior \<Rightarrow> update_where (row_id prior) (step_data revision index s (step_status prior)) rows
        | None \<Rightarrow> rows @ [step_data revision index s Step_pending (blank_row (new_id (in_id s)) (in_id s))])"

definition cancel_row :: "nat \<Rightarrow> plan_step \<Rightarrow> plan_step" where
  "cancel_row revision r = r\<lparr>step_revision := revision, step_status := Step_cancelled\<rparr>"

fun cancel_omitted :: "nat \<Rightarrow> step_input list \<Rightarrow> plan_step list \<Rightarrow> plan_step list \<Rightarrow> plan_step list" where
  "cancel_omitted revision steps [] rows = rows"
| "cancel_omitted revision steps (r # existing) rows =
     cancel_omitted revision steps existing
       (if clientId r \<in> set (map in_id steps) \<or> step_status r = Step_done \<or> step_status r = Step_cancelled
        then rows else update_where (row_id r) (cancel_row revision) rows)"

text \<open>The statuses are derived anew and the rows stored; a loop that does not end is an error value.\<close>

definition with_settled_rows :: "nat \<Rightarrow> plan_step list \<Rightarrow> plan_db \<Rightarrow> (plan_error, plan_db) res" where
  "with_settled_rows revision rows db =
     (case recomputePlanStepStatuses revision rows of
        None \<Rightarrow> Inl Never_settles
      | Some rows' \<Rightarrow> Inr (db\<lparr>plan_rows := rows'\<rparr>))"

definition set_revision :: "nat \<Rightarrow> plan_db \<Rightarrow> plan_db" where
  "set_revision revision db = db\<lparr>goal := (goal db)\<lparr>planRevision := revision\<rparr>\<rparr>"

definition log_event :: "plan_event \<Rightarrow> plan_db \<Rightarrow> plan_db" where
  "log_event e db = db\<lparr>plan_events := plan_events db @ [e]\<rparr>"

definition assertPlanRunning :: "plan_db \<Rightarrow> (plan_error, unit) res" where
  "assertPlanRunning db = check (goal_status (goal db) = Goal_running) (Conflict Not_running)"

definition based_on :: "int \<Rightarrow> plan_db \<Rightarrow> (plan_error, unit) res" where
  "based_on base db = check (int (planRevision (goal db)) = base) (Conflict Revision_changed)"

record update_input =
  ui_baseRevision :: int
  ui_steps :: "step_input list"

definition commitPlanUpdate ::
    "(js_string \<Rightarrow> js_string) \<Rightarrow> update_input \<Rightarrow> js_string list option \<Rightarrow> plan_db \<Rightarrow>
      (plan_error, plan_db) res" where
  "commitPlanUpdate new_id inp secrets db =
     (let steps = ui_steps inp; existing = plan_rows db; revision = planRevision (goal db) + 1 in
      and_then (assertPlanRunning db) (\<lambda>_.
      and_then (based_on (ui_baseRevision inp) db) (\<lambda>_.
      and_then (validatePlanOwners db steps) (\<lambda>_.
      and_then (validatePlanShape steps existing) (\<lambda>_.
      and_then (check_all (\<lambda>s. check (keeps_definition secrets existing s) (Conflict Step_settled)) steps) (\<lambda>_.
      and_then (with_settled_rows revision
        (cancel_omitted revision steps existing (write_steps new_id revision existing 0 steps existing)) db) (\<lambda>db'.
      and_then (based_on (ui_baseRevision inp) db') (\<lambda>_.
      Inr (log_event (Plan_updated revision (length steps)) (set_revision revision db'))))))))))"

text \<open>The coordinator is woken after an edit of the owner, in a transaction of its own.\<close>

definition queueGoalPlanWake :: "js_string \<Rightarrow> nat \<Rightarrow> plan_db \<Rightarrow> plan_db" where
  "queueGoalPlanWake wake_id revision db =
     (let g = goal db; gr = group_row db in
      if goal_status g \<noteq> Goal_running \<or>
         \<not> (pg_space gr = goal_space g \<and> pg_user gr = goal_user g \<and> \<not> pg_archived gr \<and>
            pg_coordinator gr = Some (goal_coordinator g) \<and>
            goal_coordinator g \<in> set (map gm_botId (active_members db)))
      then db
      else log_event (Goal_wake revision wake_id)
        (db\<lparr>runs := (runs db)(wake_id \<mapsto>
           \<lparr>pr_status = Queued, pr_space = goal_space g, pr_user = goal_user g,
            pr_goal = Some (goal_id g), pr_rootTask = Some (goal_rootTask g)\<rparr>)\<rparr>))"

record plan_env =
  env_now :: js_string
  env_wake :: js_string
  env_row :: "js_string \<Rightarrow> js_string"

definition wake_owner_edit :: "plan_env \<Rightarrow> plan_authority \<Rightarrow> plan_db \<Rightarrow> plan_db" where
  "wake_owner_edit env who db =
     (if by_owner who then queueGoalPlanWake (env_wake env) (planRevision (goal db)) db else db)"

definition updateGoalPlan ::
    "plan_env \<Rightarrow> plan_authority \<Rightarrow> update_input \<Rightarrow> plan_db \<Rightarrow> (plan_error, plan_db) res" where
  "updateGoalPlan env who inp db =
     and_then (check (input_goal_ok who \<and> 0 < ui_baseRevision inp \<and> length (ui_steps inp) \<le> 50) Invalid_input) (\<lambda>_.
     and_then (parse_steps (ui_steps inp)) (\<lambda>steps.
     and_then (load_goal who db) (\<lambda>_.
     and_then (commitPlanUpdate (env_row env) (inp\<lparr>ui_steps := steps\<rparr>) (authority_secrets who) db) (\<lambda>db'.
     Inr (wake_owner_edit env who db')))))"

section \<open>Finishing, cancelling and reopening a step\<close>

definition claimPlanStep :: "js_string \<Rightarrow> int \<Rightarrow> plan_db \<Rightarrow> (plan_error, plan_step) res" where
  "claimPlanStep stepId base db =
     and_then (assertPlanRunning db) (\<lambda>_.
     and_then (based_on base db) (\<lambda>_.
     case find (\<lambda>r. clientId r = stepId) (plan_rows db) of
       None \<Rightarrow> Inl (Conflict Unknown_step)
     | Some r \<Rightarrow> Inr r))"

definition validate_link ::
    "(js_string \<Rightarrow> bool) \<Rightarrow> plan_db \<Rightarrow> support_link \<Rightarrow> (plan_error, unit) res" where
  "validate_link readable db link =
     (let g = goal db in
      case link of
        Artifact_link r v \<Rightarrow>
          (case artifacts db r of
             None \<Rightarrow> Inl (Support_error Missing_record)
           | Some a \<Rightarrow>
               and_then (check (ar_space a = goal_space g \<and> ar_user a = goal_user g) Isolation_error) (\<lambda>_.
               and_then (check (ar_group a = Some (goal_group g) \<or> ar_group a = None) Isolation_error) (\<lambda>_.
               check (v \<noteq> [] \<and> ar_hash a = v) (Support_error Stale_record))))
      | Tool_result_link r v \<Rightarrow>
          (case evidence_rows db r of
             None \<Rightarrow> Inl (Support_error Missing_record)
           | Some e \<Rightarrow>
               and_then (check (er_space e = goal_space g) Isolation_error) (\<lambda>_.
               and_then (check (readable (er_run e)) Isolation_error) (\<lambda>_.
               check (v \<noteq> [] \<and> er_sha256 e = v) (Support_error Stale_record))))
      | Run_link r \<Rightarrow>
          (case runs db r of
             None \<Rightarrow> Inl (Support_error Missing_record)
           | Some p \<Rightarrow>
               and_then (check (pr_space p = goal_space g \<and> pr_user p = goal_user g) Isolation_error) (\<lambda>_.
               check (pr_goal p = Some (goal_id g) \<or> pr_rootTask p = Some (goal_rootTask g))
                 (Support_error Run_outside_goal))))"

definition validateGoalConditionSupport ::
    "(js_string \<Rightarrow> bool) \<Rightarrow> plan_db \<Rightarrow> support_link list \<Rightarrow> (plan_error, unit) res" where
  "validateGoalConditionSupport readable db support = check_all (validate_link readable db) support"

record outcome_input =
  oi_stepId :: js_string
  oi_baseRevision :: int
  oi_support :: "support_link list"

definition finish_row :: "nat \<Rightarrow> step_outcome \<Rightarrow> plan_step \<Rightarrow> plan_step" where
  "finish_row revision outcome r =
     r\<lparr>step_revision := revision, step_status := Step_done, step_outcome := Some outcome\<rparr>"

definition recordGoalPlanStepOutcome ::
    "plan_env \<Rightarrow> (js_string \<Rightarrow> bool) \<Rightarrow> plan_authority \<Rightarrow> outcome_input \<Rightarrow> plan_db \<Rightarrow>
      (plan_error, plan_db) res" where
  "recordGoalPlanStepOutcome env readable who inp db =
     (let revision = planRevision (goal db) + 1; actorId = authority_actor who in
      and_then (check (input_goal_ok who \<and> valid_step_id (oi_stepId inp) \<and> 0 < oi_baseRevision inp \<and>
        length (oi_support inp) \<le> 20 \<and> (\<forall>l \<in> set (oi_support inp). valid_link l)) Invalid_input) (\<lambda>_.
      and_then (load_goal who db) (\<lambda>_.
      and_then (claimPlanStep (oi_stepId inp) (oi_baseRevision inp) db) (\<lambda>step.
      and_then (check (step_status step \<noteq> Step_done \<and> step_status step \<noteq> Step_cancelled)
        (Conflict Step_settled)) (\<lambda>_.
      and_then (check (by_owner who \<or> oi_support inp \<noteq> []) (Conflict Missing_support)) (\<lambda>_.
      and_then (validateGoalConditionSupport readable db (oi_support inp)) (\<lambda>_.
      and_then (with_settled_rows revision
        (update_where (row_id step) (finish_row revision
           \<lparr>oc_actorId = actorId, oc_support = oi_support inp, oc_recordedAt = env_now env\<rparr>) (plan_rows db))
        (set_revision revision db)) (\<lambda>db'.
      Inr (wake_owner_edit env who
        (log_event (Plan_outcome (clientId step) revision actorId) db'))))))))))"

record action_input =
  ai_stepId :: js_string
  ai_baseRevision :: int
  ai_action :: step_action

definition reopen_row :: "nat \<Rightarrow> step_status \<Rightarrow> plan_step \<Rightarrow> plan_step" where
  "reopen_row revision status r =
     r\<lparr>step_revision := revision, step_status := status, step_outcome := None, dispatchRunId := None,
       dispatchDelegationId := None, step_dispatch := None\<rparr>"

definition may_settle :: "step_action \<Rightarrow> plan_db \<Rightarrow> plan_step \<Rightarrow> (plan_error, unit) res" where
  "may_settle act db step =
     and_then (case act of
        Cancel_step \<Rightarrow> check (step_status step \<noteq> Step_done \<and> step_status step \<noteq> Step_cancelled)
          (Conflict Step_settled)
      | Reopen_step \<Rightarrow> check (step_status step = Step_done \<or> step_status step = Step_cancelled \<or>
          step_status step = Step_active) (Conflict Step_not_settled)) (\<lambda>_.
     if act = Reopen_step \<and> \<not> falsy (dispatchRunId step)
     then case runs db (the (dispatchRunId step)) of
            Some r \<Rightarrow> check (isTerminal (pr_status r)) (Conflict Step_in_flight)
          | None \<Rightarrow> Inr ()
     else Inr ())"

definition settleGoalPlanStep ::
    "plan_env \<Rightarrow> plan_authority \<Rightarrow> action_input \<Rightarrow> plan_db \<Rightarrow> (plan_error, plan_db) res" where
  "settleGoalPlanStep env who inp db =
     (let revision = planRevision (goal db) + 1 in
      and_then (check (input_goal_ok who \<and> valid_step_id (ai_stepId inp) \<and> 0 < ai_baseRevision inp)
        Invalid_input) (\<lambda>_.
      and_then (load_goal who db) (\<lambda>_.
      and_then (claimPlanStep (ai_stepId inp) (ai_baseRevision inp) db) (\<lambda>step.
      and_then (may_settle (ai_action inp) db step) (\<lambda>_.
      and_then (with_settled_rows revision
        (update_where (row_id step)
          (case ai_action inp of
             Cancel_step \<Rightarrow> cancel_row revision
           | Reopen_step \<Rightarrow> reopen_row revision
               (deriveStatus Step_pending (status_map (plan_rows db)) (prerequisiteIds step)))
          (plan_rows db))
        (set_revision revision db)) (\<lambda>db'.
      Inr (wake_owner_edit env who
        (log_event (Plan_step_event (clientId step) (ai_action inp) revision) db'))))))))"

section \<open>Handing out ready steps\<close>

definition isReadyForDispatch :: "team_goal \<Rightarrow> plan_step \<Rightarrow> bool" where
  "isReadyForDispatch g r \<longleftrightarrow>
     step_status r = Step_pending \<and> \<not> ownerIsUser r \<and> step_owner r \<noteq> goal_coordinator g \<and>
     dispatchRunId r = None"

definition prerequisites_done :: "plan_step list \<Rightarrow> plan_step \<Rightarrow> bool" where
  "prerequisites_done rows r \<longleftrightarrow> (\<forall>x \<in> set (prerequisiteIds r). status_map rows x = Some Step_done)"

definition listReadyGoalPlanSteps :: "plan_db \<Rightarrow> plan_step list" where
  "listReadyGoalPlanSteps db =
     (let rows = sort_cmp (\<lambda>a b. step_position a < step_position b \<or>
            step_position a = step_position b \<and> row_id a \<le> row_id b) (plan_rows db) in
      if goal_status (goal db) \<noteq> Goal_running then []
      else filter (\<lambda>r. isReadyForDispatch (goal db) r \<and> prerequisites_done rows r) rows)"

definition markGoalPlanStepDispatched ::
    "js_string \<Rightarrow> js_string \<Rightarrow> js_string \<Rightarrow> js_string \<Rightarrow> plan_db \<Rightarrow> bool \<times> plan_db" where
  "markGoalPlanStepDispatched stepRowId runId delegationId now db =
     (let claims = (\<lambda>r. row_id r = stepRowId \<and> dispatchRunId r = None);
          mark = (\<lambda>r. r\<lparr>step_status := Step_active, dispatchRunId := Some runId,
            dispatchDelegationId := Some delegationId,
            step_dispatch := Some \<lparr>ho_runId = runId, ho_delegationId = delegationId, ho_dispatchedAt = now\<rparr>\<rparr>)
      in (length (filter claims (plan_rows db)) = 1,
          db\<lparr>plan_rows := map (\<lambda>r. if claims r then mark r else r) (plan_rows db)\<rparr>))"

definition admissionKey :: "js_string \<Rightarrow> nat \<Rightarrow> js_string" where
  "admissionKey rowId revision = js ''goal-plan-step:'' @ rowId @ 58 # digits_of revision"

definition goalPlanStepPrompt :: "plan_step \<Rightarrow> js_string" where
  "goalPlanStepPrompt step =
     join [10] [js ''Project plan step: '' @ step_title step, js ''Done when: '' @ step_condition step,
       js ''When records of this goal's work support the step, report them with record_plan_step_outcome.'']"

datatype admission =
    Refused js_string
  | Admitted js_string "js_string option" "js_string option"

text \<open>What a transaction of the dispatch finds outside the plan, and the ids and time it draws.\<close>

record dispatch_env =
  de_sourceRunning :: bool
  de_admit :: "js_string \<Rightarrow> js_string \<Rightarrow> js_string \<Rightarrow> admission"
  de_runId :: js_string
  de_now :: js_string

record plan_caller =
  pc_id :: js_string
  pc_space :: js_string
  pc_user :: js_string
  pc_thread :: js_string
  pc_bot :: js_string

datatype dispatch_result = Skipped | Recovered | Dispatch_failed js_string | Dispatched js_string

definition still_ready :: "plan_db \<Rightarrow> plan_step \<Rightarrow> plan_step \<Rightarrow> bool" where
  "still_ready db step current \<longleftrightarrow>
     step_owner current \<in> set (map gm_botId (active_members db)) \<and>
     step_status current = Step_pending \<and> dispatchRunId current = None \<and>
     step_revision current = step_revision step \<and> step_owner current = step_owner step \<and>
     prerequisites_done (plan_rows db) current"

definition hand_out :: "dispatch_env \<Rightarrow> plan_caller \<Rightarrow> plan_step \<Rightarrow> plan_db \<Rightarrow> dispatch_result \<times> plan_db" where
  "hand_out env run current db =
     (let key = admissionKey (row_id current) (step_revision current) in
      case handoffs db key of
        Some recorded \<Rightarrow>
          (case recorded of
             None \<Rightarrow> (Skipped, db)
           | Some r \<Rightarrow>
               (case delegations db r of
                  None \<Rightarrow> (Skipped, db)
                | Some d \<Rightarrow> (Recovered,
                    snd (markGoalPlanStepDispatched (row_id current) r d (de_now env) db))))
      | None \<Rightarrow>
          (case de_admit env (step_owner current) key (goalPlanStepPrompt current) of
             Refused err \<Rightarrow> (Dispatch_failed err, db)
           | Admitted d goalId rootTask \<Rightarrow>
               (let r = de_runId env;
                    made = db\<lparr>handoffs := (handoffs db)(key \<mapsto> Some r),
                      runs := (runs db)(r \<mapsto> \<lparr>pr_status = Queued, pr_space = pc_space run,
                        pr_user = pc_user run, pr_goal = goalId, pr_rootTask = rootTask\<rparr>),
                      delegations := (delegations db)(r \<mapsto> d)\<rparr>;
                    marked = markGoalPlanStepDispatched (row_id current) r d (de_now env) made
                in if \<not> fst marked then (Skipped, snd marked)
                   else (Dispatched r,
                     log_event (Goal_assigned d (step_owner current) (clientId current) key) (snd marked)))))"

definition dispatchStep ::
    "dispatch_env \<Rightarrow> plan_caller \<Rightarrow> plan_step \<Rightarrow> plan_db \<Rightarrow> dispatch_result \<times> plan_db" where
  "dispatchStep env run step db =
     (let gr = group_row db in
      if \<not> (pg_space gr = pc_space run \<and> pg_user gr = pc_user run) then (Skipped, db)
      else if pg_archived gr \<or> pg_thread gr \<noteq> Some (pc_thread run) \<or> \<not> de_sourceRunning env
      then (Skipped, db)
      else case find (\<lambda>r. row_id r = row_id step) (plan_rows db) of
             None \<Rightarrow> (Skipped, db)
           | Some current \<Rightarrow>
               if \<not> still_ready db step current then (Skipped, db) else hand_out env run current db)"

fun dispatch_each ::
    "(js_string \<Rightarrow> dispatch_env) \<Rightarrow> plan_caller \<Rightarrow> plan_step list \<Rightarrow> plan_db \<Rightarrow> nat \<times> plan_db" where
  "dispatch_each envs run [] db = (0, db)"
| "dispatch_each envs run (step # steps) db =
     (case dispatchStep (envs (row_id step)) run step db of
        (result, db') \<Rightarrow>
          (case dispatch_each envs run steps db' of
             (n, db'') \<Rightarrow>
               ((case result of Dispatched r \<Rightarrow> n + 1 | Recovered \<Rightarrow> n + 1 | _ \<Rightarrow> n), db'')))"

definition dispatchReadyGoalPlanSteps ::
    "(js_string \<Rightarrow> dispatch_env) \<Rightarrow> plan_caller \<Rightarrow> js_string \<Rightarrow> plan_db \<Rightarrow> nat \<times> plan_db" where
  "dispatchReadyGoalPlanSteps envs run goalId db =
     (let g = goal db in
      if goal_id g = goalId \<and> goal_space g = pc_space run \<and> goal_user g = pc_user run \<and>
         goal_thread g = pc_thread run \<and> goal_coordinator g = pc_bot run \<and> goal_status g = Goal_running
      then dispatch_each envs run (listReadyGoalPlanSteps db) db
      else (0, db))"

section \<open>The tools of the chief\<close>

datatype tool_answer = Tool_ok | Tool_ok_dispatched nat | Tool_ok_revision nat nat | Tool_error js_string

fun planToolError :: "plan_error \<Rightarrow> (plan_error, tool_answer) res" where
  "planToolError (Conflict c) = Inr (Tool_error (conflict_text c))"
| "planToolError Isolation_error = Inr (Tool_error (js ''The goal is no longer active''))"
| "planToolError e = Inl e"

definition planToolScope :: "plan_caller \<Rightarrow> js_string \<Rightarrow> coordinator_scope" where
  "planToolScope run threadId =
     \<lparr>sc_space = pc_space run, sc_user = pc_user run, sc_coordinator = pc_bot run, sc_thread = threadId\<rparr>"

definition redact_step :: "js_string list \<Rightarrow> step_input \<Rightarrow> step_input" where
  "redact_step secrets s =
     s\<lparr>in_title := redactSecrets (in_title s) secrets, in_condition := redactSecrets (in_condition s) secrets\<rparr>"

definition updateProjectPlanFromRun ::
    "plan_env \<Rightarrow> (js_string \<Rightarrow> dispatch_env) \<Rightarrow> plan_caller \<Rightarrow> js_string \<Rightarrow> js_string \<Rightarrow> update_input \<Rightarrow>
      js_string list \<Rightarrow> plan_db \<Rightarrow> (plan_error, tool_answer) res \<times> plan_db" where
  "updateProjectPlanFromRun env envs run goalId threadId inp secrets db =
     (if \<exists>s \<in> set (ui_steps inp). \<exists>x \<in> set (in_id s # in_prerequisites s). redactSecrets x secrets \<noteq> x
      then (Inr (Tool_error (js ''Plan identifiers must not contain secrets'')), db)
      else case updateGoalPlan env (By_chief (planToolScope run threadId) goalId (Some secrets))
               (inp\<lparr>ui_steps := map (redact_step secrets) (ui_steps inp)\<rparr>) db of
             Inl e \<Rightarrow> (planToolError e, db)
           | Inr updated \<Rightarrow>
               (case dispatchReadyGoalPlanSteps envs run goalId updated of
                  (n, db') \<Rightarrow>
                    (Inr (Tool_ok_revision (if plan_rows updated = [] then 0 else planRevision (goal updated)) n), db')))"

definition recordPlanStepOutcomeFromRun ::
    "plan_env \<Rightarrow> (js_string \<Rightarrow> dispatch_env) \<Rightarrow> (js_string \<Rightarrow> bool) \<Rightarrow> plan_caller \<Rightarrow> js_string \<Rightarrow>
      js_string \<Rightarrow> outcome_input \<Rightarrow> plan_db \<Rightarrow> (plan_error, tool_answer) res \<times> plan_db" where
  "recordPlanStepOutcomeFromRun env envs readable run goalId threadId inp db =
     (case recordGoalPlanStepOutcome env readable (By_chief (planToolScope run threadId) goalId None) inp db of
        Inl e \<Rightarrow> (planToolError e, db)
      | Inr recorded \<Rightarrow>
          (case dispatchReadyGoalPlanSteps envs run goalId recorded of
             (n, db') \<Rightarrow> (Inr (Tool_ok_dispatched n), db')))"

definition settlePlanStepFromRun ::
    "plan_env \<Rightarrow> plan_caller \<Rightarrow> js_string \<Rightarrow> js_string \<Rightarrow> action_input \<Rightarrow> plan_db \<Rightarrow>
      (plan_error, tool_answer) res \<times> plan_db" where
  "settlePlanStepFromRun env run goalId threadId inp db =
     (case settleGoalPlanStep env (By_chief (planToolScope run threadId) goalId None) inp db of
        Inl e \<Rightarrow> (planToolError e, db)
      | Inr db' \<Rightarrow> (Inr Tool_ok, db'))"

end
