(* ===== verification/Plan_Safety.thy ===== *)
theory Plan_Safety
  imports Goal_Plan
begin

text \<open>
  What the transactions of \<open>Goal_Plan\<close> keep, alone and in any sequence: the shape of the plan, the
  statuses derived from it, and that a step is not worked on twice at the same time.
\<close>

section \<open>Rows through an edit\<close>

definition unique_rows :: "plan_step list \<Rightarrow> bool" where
  "unique_rows rows \<longleftrightarrow> distinct (map row_id rows) \<and> distinct (map clientId rows)"

lemma row_for_Some:
  "distinct (map clientId rows) \<Longrightarrow> row_for rows x = Some r \<longleftrightarrow> r \<in> set rows \<and> clientId r = x"
  by (auto simp: row_for_def map_of_rev_distinct comp_def dest!: map_of_SomeD intro!: map_of_is_SomeI)

lemma row_for_None:
  "distinct (map clientId rows) \<Longrightarrow> row_for rows x = None \<longleftrightarrow> x \<notin> clientId ` set rows"
  by (metis (no_types, lifting) row_for_Some imageE image_eqI not_None_eq)

lemma update_where_map:
  assumes "distinct (map row_id existing)" and "p \<in> set existing"
    and "\<And>r. r \<in> set existing \<Longrightarrow> row_id (g r) = row_id r"
    and "row_id ` set extra \<inter> row_id ` set existing = {}"
  shows "update_where (row_id p) f (map g existing @ extra) =
    map (\<lambda>r. if r = p then f (g r) else g r) existing @ extra"
proof -
  have "row_id (g r) = row_id p \<longleftrightarrow> r = p" if "r \<in> set existing" for r
    using assms(1-3) that by (auto simp: distinct_map inj_on_def)
  moreover have "row_id r \<noteq> row_id p" if "r \<in> set extra" for r using assms(2, 4) that by auto
  ultimately show ?thesis by (simp add: update_where_def map_idI)
qed

definition listed_data :: "nat \<Rightarrow> step_input list \<Rightarrow> (plan_step \<Rightarrow> plan_step) \<Rightarrow> (plan_step \<Rightarrow> plan_step) \<Rightarrow> plan_step \<Rightarrow> bool" where
  "listed_data revision steps g h r \<longleftrightarrow>
     (clientId r \<notin> set (map in_id steps) \<longrightarrow> h r = g r) \<and>
     (\<forall>s \<in> set steps. in_id s = clientId r \<longrightarrow> (\<exists>k. h r = step_data revision k s (step_status r) (g r)))"

definition new_row :: "nat \<Rightarrow> (js_string \<Rightarrow> js_string) \<Rightarrow> step_input \<Rightarrow> plan_step \<Rightarrow> bool" where
  "new_row revision new_id s b \<longleftrightarrow>
     (\<exists>k. b = step_data revision k s Step_pending (blank_row (new_id (in_id s)) (in_id s)))"

lemma step_data_fields [simp]:
  "row_id (step_data v k s t r) = row_id r" "clientId (step_data v k s t r) = clientId r"
  "step_status (step_data v k s t r) = t" "prerequisiteIds (step_data v k s t r) = in_prerequisites s"
  "step_revision (step_data v k s t r) = v" "dispatchRunId (step_data v k s t r) = dispatchRunId r"
  by (simp_all add: step_data_def)

lemma blank_row_fields [simp]:
  "row_id (blank_row a b) = a" "clientId (blank_row a b) = b" "dispatchRunId (blank_row a b) = None"
  by (simp_all add: blank_row_def)

lemma new_row_fields:
  "new_row v new_id s b \<Longrightarrow> row_id b = new_id (in_id s) \<and> clientId b = in_id s \<and>
     prerequisiteIds b = in_prerequisites s \<and> dispatchRunId b = None \<and> step_revision b = v \<and>
     step_status b = Step_pending"
  by (auto simp: new_row_def)

lemma write_steps_rows:
  assumes "unique_rows existing" and "distinct (map in_id steps)"
    and "\<And>x. x \<notin> clientId ` set existing \<Longrightarrow> new_id x \<notin> row_id ` set existing"
    and "\<And>r. r \<in> set existing \<Longrightarrow> row_id (g r) = row_id r"
    and "row_id ` set extra \<inter> row_id ` set existing = {}"
  shows "\<exists>h new. write_steps new_id revision existing index steps (map g existing @ extra) =
      map h existing @ extra @ new \<and>
    (\<forall>r \<in> set existing. listed_data revision steps g h r) \<and>
    list_all2 (new_row revision new_id) (filter (\<lambda>s. in_id s \<notin> clientId ` set existing) steps) new"
  using assms(2-)
proof (induction steps arbitrary: g extra index)
  case Nil
  then show ?case by (intro exI [of _ g] exI [of _ "[]"]) (simp add: listed_data_def)
next
  case (Cons s steps)
  have dr: "distinct (map row_id existing)" and dc: "distinct (map clientId existing)"
    using assms(1) by (simp_all add: unique_rows_def)
  have rest: "distinct (map in_id steps)" and out: "in_id s \<notin> set (map in_id steps)"
    using Cons.prems(1) by simp_all
  show ?case
  proof (cases "row_for existing (in_id s)")
    case None
    let ?b = "step_data revision index s Step_pending (blank_row (new_id (in_id s)) (in_id s))"
    have new: "in_id s \<notin> clientId ` set existing" using None row_for_None [OF dc] by blast
    then have disj: "row_id ` set (extra @ [?b]) \<inter> row_id ` set existing = {}"
      using Cons.prems(2, 4) by auto
    obtain h new where h: "write_steps new_id revision existing (Suc index) steps
          (map g existing @ extra @ [?b]) = map h existing @ (extra @ [?b]) @ new"
        "\<forall>r \<in> set existing. listed_data revision steps g h r"
        "list_all2 (new_row revision new_id) (filter (\<lambda>s. in_id s \<notin> clientId ` set existing) steps) new"
      using Cons.IH [OF rest Cons.prems(2, 3) disj] by blast
    have "listed_data revision (s # steps) g h r" if "r \<in> set existing" for r
      using h(2) that new by (auto simp: listed_data_def)
    moreover have "new_row revision new_id s ?b" by (auto simp: new_row_def)
    ultimately show ?thesis using h(1, 3) None new
      by (intro exI [of _ h] exI [of _ "?b # new"]) simp
  next
    case (Some p)
    then have p: "p \<in> set existing" "clientId p = in_id s" using row_for_Some [OF dc] by auto
    let ?g = "\<lambda>r. if r = p then step_data revision index s (step_status p) (g r) else g r"
    have upd: "update_where (row_id p) (step_data revision index s (step_status p)) (map g existing @ extra) =
        map ?g existing @ extra"
      by (rule update_where_map [OF dr p(1) Cons.prems(3, 4)])
    have "row_id (?g r) = row_id r" if "r \<in> set existing" for r using Cons.prems(3) that by auto
    from Cons.IH [OF rest Cons.prems(2) this Cons.prems(4)]
    obtain h new where h: "write_steps new_id revision existing (Suc index) steps
          (map ?g existing @ extra) = map h existing @ extra @ new"
        "\<forall>r \<in> set existing. listed_data revision steps ?g h r"
        "list_all2 (new_row revision new_id) (filter (\<lambda>s. in_id s \<notin> clientId ` set existing) steps) new"
      by blast
    have "listed_data revision (s # steps) g h r" if r: "r \<in> set existing" for r
    proof (cases "r = p")
      case True
      have same: "t = s" if "t \<in> set (s # steps)" "in_id t = clientId p" for t
        using that p(2) out by (auto simp: image_iff)
      have "h p = ?g p" using h(2) p out by (simp add: listed_data_def)
      then show ?thesis using True same p(2) by (auto simp: listed_data_def)
    next
      case False
      then have "clientId r \<noteq> in_id s" using same_row [OF dc r p(1)] p(2) by metis
      then show ?thesis using h(2) r False by (auto simp: listed_data_def)
    qed
    moreover have "in_id s \<in> clientId ` set existing" using p by (metis image_eqI)
    ultimately show ?thesis using h(1, 3) Some upd by (intro exI [of _ h] exI [of _ new]) simp
  qed
qed

definition omitted :: "step_input list \<Rightarrow> plan_step \<Rightarrow> bool" where
  "omitted steps r \<longleftrightarrow>
     \<not> (clientId r \<in> set (map in_id steps) \<or> step_status r = Step_done \<or> step_status r = Step_cancelled)"

lemma cancel_omitted_rows:
  assumes "distinct (map row_id existing)" and "set rest \<subseteq> set existing" and "distinct rest"
    and "\<And>r. r \<in> set existing \<Longrightarrow> row_id (g r) = row_id r"
    and "row_id ` set extra \<inter> row_id ` set existing = {}"
  shows "cancel_omitted revision steps rest (map g existing @ extra) =
    map (\<lambda>r. if r \<in> set rest \<and> omitted steps r then cancel_row revision (g r) else g r) existing @ extra"
  using assms(2-)
proof (induction rest arbitrary: g)
  case (Cons p rest)
  let ?g = "\<lambda>r. if r = p \<and> omitted steps p then cancel_row revision (g r) else g r"
  have p: "p \<in> set existing" "p \<notin> set rest" using Cons.prems(1, 2) by auto
  have upd: "(if clientId p \<in> set (map in_id steps) \<or> step_status p = Step_done \<or> step_status p = Step_cancelled
      then map g existing @ extra
      else update_where (row_id p) (cancel_row revision) (map g existing @ extra)) = map ?g existing @ extra"
    using update_where_map [OF assms(1) p(1) Cons.prems(3, 4), of "cancel_row revision"]
    by (auto simp: omitted_def cong: map_cong)
  have keep: "row_id (?g r) = row_id r" if "r \<in> set existing" for r
    using Cons.prems(3) that p(1) by (auto simp: cancel_row_def)
  have "cancel_omitted revision steps rest (map ?g existing @ extra) =
      map (\<lambda>r. if r \<in> set rest \<and> omitted steps r then cancel_row revision (?g r) else ?g r) existing @ extra"
    by (rule Cons.IH [OF _ _ keep Cons.prems(4)]) (use Cons.prems in auto)
  also have "\<dots> = map (\<lambda>r. if r \<in> set (p # rest) \<and> omitted steps r then cancel_row revision (g r) else g r)
      existing @ extra"
    using p(2) by auto
  finally show ?case by (simp only: cancel_omitted.simps upd)
qed simp

text \<open>The rows an update writes before statuses are derived: what became of each row, then the new ones.\<close>

definition edited :: "nat \<Rightarrow> step_input list \<Rightarrow> plan_step \<Rightarrow> plan_step \<Rightarrow> bool" where
  "edited revision steps r r' \<longleftrightarrow>
     (if clientId r \<in> set (map in_id steps)
      then \<exists>s k. s \<in> set steps \<and> in_id s = clientId r \<and> r' = step_data revision k s (step_status r) r
      else if step_status r = Step_done \<or> step_status r = Step_cancelled then r' = r
      else r' = cancel_row revision r)"

lemma edited_rows:
  assumes "unique_rows existing" and "distinct (map in_id steps)"
    and "\<And>x. x \<notin> clientId ` set existing \<Longrightarrow> new_id x \<notin> row_id ` set existing"
  obtains old new where
    "cancel_omitted revision steps existing (write_steps new_id revision existing 0 steps existing) = old @ new"
    "list_all2 (edited revision steps) existing old"
    "list_all2 (new_row revision new_id) (filter (\<lambda>s. in_id s \<notin> clientId ` set existing) steps) new"
proof -
  have dr: "distinct (map row_id existing)" using assms(1) by (simp add: unique_rows_def)
  obtain h new where h: "write_steps new_id revision existing 0 steps existing = map h existing @ new"
      "\<forall>r \<in> set existing. listed_data revision steps id h r"
      "list_all2 (new_row revision new_id) (filter (\<lambda>s. in_id s \<notin> clientId ` set existing) steps) new"
    using write_steps_rows [OF assms(1, 2), where new_id = new_id and g = id and extra = "[]" and index = 0
        and revision = revision] assms(3) by auto
  have keep: "row_id (h r) = row_id r" if "r \<in> set existing" for r
  proof (cases "clientId r \<in> set (map in_id steps)")
    case True
    then obtain s where s: "s \<in> set steps" "in_id s = clientId r" by auto
    have "listed_data revision steps id h r" using h(2) that by blast
    then obtain k where "h r = step_data revision k s (step_status r) (id r)"
      using s unfolding listed_data_def by blast
    then show ?thesis by simp
  next
    case False
    then show ?thesis using h(2) that by (simp add: listed_data_def)
  qed
  have "row_id b \<notin> row_id ` set existing" if "b \<in> set new" for b
    using all2_source [OF h(3) that] new_row_fields assms(3) by fastforce
  then have disj: "row_id ` set new \<inter> row_id ` set existing = {}" by blast
  let ?h = "\<lambda>r. if r \<in> set existing \<and> omitted steps r then cancel_row revision (h r) else h r"
  have eq: "cancel_omitted revision steps existing (write_steps new_id revision existing 0 steps existing) =
      map ?h existing @ new"
    unfolding h(1) by (rule cancel_omitted_rows [OF dr subset_refl _ keep disj]) (use dr in \<open>simp add: distinct_map\<close>)
  have "edited revision steps r (?h r)" if r: "r \<in> set existing" for r
  proof -
    have data: "listed_data revision steps id h r" using h(2) r by blast
    show ?thesis
    proof (cases "clientId r \<in> set (map in_id steps)")
      case True
      then obtain s where s: "s \<in> set steps" "in_id s = clientId r" by auto
      with data obtain k where "h r = step_data revision k s (step_status r) (id r)"
        unfolding listed_data_def by blast
      then show ?thesis using True s by (auto simp: edited_def omitted_def)
    next
      case False
      then show ?thesis using data r by (auto simp: edited_def listed_data_def omitted_def)
    qed
  qed
  then have "list_all2 (edited revision steps) existing (map ?h existing)"
    by (simp add: list.rel_map list.rel_refl_strong)
  then show thesis using that eq h(3) by blast
qed

lemma all2_target: "list_all2 P xs ys \<Longrightarrow> x \<in> set xs \<Longrightarrow> \<exists>y \<in> set ys. P x y"
  by (induction rule: list_all2_induct) auto

lemma all2_map_eq: "list_all2 P xs ys \<Longrightarrow> (\<And>x y. P x y \<Longrightarrow> f x = g y) \<Longrightarrow> map f xs = map g ys"
  by (induction rule: list_all2_induct) auto

lemma same_graph:
  assumes "distinct (map fst g)" and "distinct (map fst g')" and "set g = set g'"
  shows "graphHasCycle g = graphHasCycle g'"
proof -
  have "map_of (rev g) = map_of (rev g')"
    using assms by (simp add: map_of_rev_distinct map_of_inject_set)
  then have "prerequisites_of g = prerequisites_of g'" by (simp add: prerequisites_of_def fun_eq_iff)
  then show ?thesis using assms(3) by (simp add: graphHasCycle_iff plan_edges_def entry_ids_def)
qed

definition plan_shape_ok :: "plan_step list \<Rightarrow> bool" where
  "plan_shape_ok rows \<longleftrightarrow>
     unique_rows rows \<and> (\<forall>r \<in> set rows. set (prerequisiteIds r) \<subseteq> clientId ` set rows) \<and>
     \<not> graphHasCycle (plan_graph rows)"

lemma edited_fields:
  assumes "edited v steps r r'"
  shows "row_id r' = row_id r" "clientId r' = clientId r" "dispatchRunId r' = dispatchRunId r"
    "step_revision r' = step_revision r \<or> step_revision r' = v"
    "clientId r \<notin> set (map in_id steps) \<Longrightarrow> prerequisiteIds r' = prerequisiteIds r"
  using assms by (auto simp: edited_def cancel_row_def split: if_splits)

lemma edited_prerequisites:
  assumes "edited v steps r r'" and "distinct (map in_id steps)" and "s \<in> set steps" and "in_id s = clientId r"
  shows "prerequisiteIds r' = in_prerequisites s"
proof -
  have "clientId r \<in> set (map in_id steps)" using assms(3, 4) by (metis image_eqI list.set_map)
  then obtain t k where t: "t \<in> set steps" "in_id t = clientId r" "r' = step_data v k t (step_status r) r"
    using assms(1) by (auto simp: edited_def)
  moreover have "t = s" using assms(2-4) t(1, 2) by (metis distinct_map inj_onD)
  ultimately show ?thesis by simp
qed

lemma edited_graph:
  assumes "distinct (map in_id steps)"
    and "list_all2 (edited v steps) existing old"
    and "list_all2 (new_row v new_id) (filter (\<lambda>s. in_id s \<notin> clientId ` set existing) steps) new"
  shows "set (plan_graph (old @ new)) = set (merged_graph steps existing)" (is "?L = ?R")
proof
  show "?L \<subseteq> ?R"
  proof
    fix e assume "e \<in> ?L"
    then obtain b where e: "e = (clientId b, prerequisiteIds b)" and b: "b \<in> set old \<or> b \<in> set new"
      by (auto simp: plan_graph_def)
    show "e \<in> ?R"
    proof (cases "b \<in> set new")
      case True
      then obtain s where "s \<in> set steps" "new_row v new_id s b"
        using all2_source [OF assms(3)] by auto
      then show ?thesis using e new_row_fields [of v new_id s b] by (auto simp: merged_graph_def)
    next
      case False
      then obtain r where r: "r \<in> set existing" "edited v steps r b"
        using b all2_source [OF assms(2)] by blast
      show ?thesis
      proof (cases "clientId r \<in> set (map in_id steps)")
        case True
        then obtain s where s: "s \<in> set steps" "in_id s = clientId r" by auto
        have "(in_id s, in_prerequisites s) = e"
          using edited_prerequisites [OF r(2) assms(1) s] edited_fields(2) [OF r(2)] e s(2) by simp
        with s(1) show ?thesis by (auto simp: merged_graph_def)
      next
        case False
        then have "(clientId r, prerequisiteIds r) = e"
          using edited_fields(2, 5) [OF r(2)] e by simp
        with r(1) False show ?thesis by (auto simp: merged_graph_def plan_graph_def)
      qed
    qed
  qed
  show "?R \<subseteq> ?L"
  proof
    fix e assume "e \<in> ?R"
    then consider (listed) s where "s \<in> set steps" "e = (in_id s, in_prerequisites s)"
      | (kept) r where "r \<in> set existing" "clientId r \<notin> set (map in_id steps)" "e = (clientId r, prerequisiteIds r)"
      by (auto simp: merged_graph_def plan_graph_def)
    then show "e \<in> ?L"
    proof cases
      case listed
      show ?thesis
      proof (cases "in_id s \<in> clientId ` set existing")
        case True
        then obtain r where r: "r \<in> set existing" "in_id s = clientId r" by auto
        obtain b where "b \<in> set old" "edited v steps r b" using all2_target [OF assms(2) r(1)] by blast
        moreover from this have "e = (clientId b, prerequisiteIds b)"
          using edited_prerequisites [OF _ assms(1) listed(1) r(2)] edited_fields(2) listed(2) r(2) by metis
        ultimately show ?thesis by (auto simp: plan_graph_def)
      next
        case False
        then have "s \<in> set (filter (\<lambda>s. in_id s \<notin> clientId ` set existing) steps)" using listed(1) by simp
        then obtain b where "b \<in> set new" "new_row v new_id s b" using all2_target [OF assms(3)] by blast
        moreover from this have "e = (clientId b, prerequisiteIds b)"
          using listed(2) new_row_fields [of v new_id s b] by simp
        ultimately show ?thesis by (auto simp: plan_graph_def)
      qed
    next
      case kept
      obtain b where "b \<in> set old" "edited v steps r b" using all2_target [OF assms(2) kept(1)] by blast
      moreover from this have "e = (clientId b, prerequisiteIds b)"
        using kept edited_fields(2, 5) [of v steps r b] by simp
      ultimately show ?thesis by (auto simp: plan_graph_def)
    qed
  qed
qed

lemma fst_plan_graph [simp]: "map fst (plan_graph rows) = map clientId rows"
  by (simp add: plan_graph_def)

lemma plan_shape_alt:
  "plan_shape_ok rows \<longleftrightarrow>
     distinct (map row_id rows) \<and> distinct (map fst (plan_graph rows)) \<and>
     (\<forall>e \<in> set (plan_graph rows). set (snd e) \<subseteq> fst ` set (plan_graph rows)) \<and>
     \<not> graphHasCycle (plan_graph rows)"
  by (simp add: plan_shape_ok_def unique_rows_def plan_graph_def image_image comp_def conj_assoc)

lemma plan_shape_cong:
  "map row_id rows' = map row_id rows \<Longrightarrow> plan_graph rows' = plan_graph rows \<Longrightarrow>
     plan_shape_ok rows' = plan_shape_ok rows"
  by (simp only: plan_shape_alt)

lemma edited_shape_ok:
  assumes ok: "plan_shape_ok existing" and valid: "validatePlanShape steps existing = Inr ()"
    and ids: "\<And>x. x \<notin> clientId ` set existing \<Longrightarrow> new_id x \<notin> row_id ` set existing" "inj new_id"
    and old: "list_all2 (edited v steps) existing old"
    and new: "list_all2 (new_row v new_id) (filter (\<lambda>s. in_id s \<notin> clientId ` set existing) steps) new"
  shows "plan_shape_ok (old @ new)"
proof -
  let ?fresh = "filter (\<lambda>s. in_id s \<notin> clientId ` set existing) steps"
  have dist: "distinct (map in_id steps)"
    and known: "\<And>s x. s \<in> set steps \<Longrightarrow> x \<in> set (in_prerequisites s) \<Longrightarrow>
        x \<in> set (map in_id steps) \<union> set (map clientId existing)"
    and acyc: "\<not> graphHasCycle (merged_graph steps existing)"
    using valid by (auto simp: validatePlanShape_def)
  have dfresh: "distinct (map in_id ?fresh)" using dist by (simp add: distinct_map_filter)
  have rold: "map row_id old = map row_id existing" and cold: "map clientId old = map clientId existing"
    using all2_map_eq [OF old, of row_id row_id] all2_map_eq [OF old, of clientId clientId]
      edited_fields(1, 2) by metis+
  have rnew: "map row_id new = map new_id (map in_id ?fresh)" and cnew: "map clientId new = map in_id ?fresh"
    using all2_map_eq [OF new, of "new_id \<circ> in_id" row_id] all2_map_eq [OF new, of in_id clientId]
      new_row_fields by (metis comp_apply map_map)+
  have cset: "clientId ` set (old @ new) = set (map in_id steps) \<union> set (map clientId existing)"
  proof -
    have "clientId ` set (old @ new) = set (map clientId existing) \<union> set (map in_id ?fresh)"
      using cold cnew by (metis image_Un list.set_map set_append)
    then show ?thesis by auto
  qed
  have unique: "unique_rows (old @ new)"
  proof -
    have "distinct (map new_id (map in_id ?fresh))"
      using dfresh ids(2) by (metis distinct_map inj_on_subset subset_UNIV)
    moreover have "set (map row_id existing) \<inter> set (map new_id (map in_id ?fresh)) = {}"
      using ids(1) by (fastforce simp: image_iff)
    moreover have "set (map clientId existing) \<inter> set (map in_id ?fresh) = {}"
      by (fastforce simp: image_iff)
    ultimately show ?thesis
      using ok dfresh by (simp add: unique_rows_def plan_shape_ok_def rold rnew cold cnew del: map_map)
  qed
  have "set (prerequisiteIds b) \<subseteq> clientId ` set (old @ new)" if "b \<in> set (old @ new)" for b
  proof -
    have "(clientId b, prerequisiteIds b) \<in> set (merged_graph steps existing)"
      using that edited_graph [OF dist old new] by (force simp: plan_graph_def)
    then consider s where "s \<in> set steps" "prerequisiteIds b = in_prerequisites s"
      | r where "r \<in> set existing" "prerequisiteIds b = prerequisiteIds r"
      by (auto simp: merged_graph_def plan_graph_def)
    then show ?thesis
    proof cases
      case 1
      then show ?thesis using known unfolding cset by auto
    next
      case 2
      then show ?thesis using ok unfolding cset plan_shape_ok_def by auto
    qed
  qed
  moreover have "\<not> graphHasCycle (plan_graph (old @ new))"
  proof -
    have "distinct (map fst (plan_graph (old @ new)))" using unique by (simp add: unique_rows_def)
    moreover have "distinct (map fst (merged_graph steps existing))"
      using dist ok by (auto simp: merged_graph_def comp_def distinct_map_filter plan_shape_ok_def unique_rows_def)
    ultimately show ?thesis
      using same_graph edited_graph [OF dist old new] acyc by blast
  qed
  ultimately show ?thesis using unique by (simp add: plan_shape_ok_def)
qed

section \<open>Statuses after an edit\<close>

definition statuses_ok :: "plan_step list \<Rightarrow> bool" where
  "statuses_ok rows \<longleftrightarrow>
     (\<forall>r \<in> set rows. deriveStatus (step_status r) (status_map rows) (prerequisiteIds r) = step_status r)"

lemma recomputed_rows:
  assumes "plan_shape_ok rows"
  obtains rows' where "recomputePlanStepStatuses v rows = Some rows'"
    "list_all2 (evolves v) rows rows'" "plan_shape_ok rows'" "statuses_ok rows'"
proof -
  have dc: "distinct (map clientId rows)" using assms by (simp add: plan_shape_ok_def unique_rows_def)
  obtain rows' where rows': "recomputePlanStepStatuses v rows = Some rows'"
      and all2: "list_all2 (\<lambda>r r'. evolves v r r' \<and> step_status r' = settled_status rows r) rows rows'"
    using recompute_returns [OF dc, of v] assms unfolding plan_shape_ok_def by blast
  have evo: "list_all2 (evolves v) rows rows'" using all2 by (rule list_all2_mono) blast
  have same: "map clientId rows' = map clientId rows" "map row_id rows' = map row_id rows"
      "plan_graph rows' = plan_graph rows"
    using all2_map_eq [OF evo, of clientId clientId] all2_map_eq [OF evo, of row_id row_id]
      all2_map_eq [OF evo, of "\<lambda>r. (clientId r, prerequisiteIds r)" "\<lambda>r. (clientId r, prerequisiteIds r)"]
      evolves_fields by (auto simp: plan_graph_def)
  have dc': "distinct (map clientId rows')" using same(1) dc by simp
  have cset: "clientId ` set rows' = clientId ` set rows" using same(1) by (metis list.set_map)
  have "status_map rows' = settled_map rows"
  proof
    fix x
    show "status_map rows' x = settled_map rows x"
    proof (cases "x \<in> clientId ` set rows")
      case True
      then obtain r where r: "r \<in> set rows" "x = clientId r" by auto
      obtain r' where r': "r' \<in> set rows'" "evolves v r r'" "step_status r' = settled_status rows r"
        using all2_target [OF all2 r(1)] by blast
      then show ?thesis
        using status_map_distinct(1) [OF dc' r'(1)] settled_map_at [OF dc r(1)] evolves_fields(1) [OF r'(2)] r(2)
        by simp
    next
      case False
      then show ?thesis using status_map_distinct(2) [OF dc'] settled_map_None cset by metis
    qed
  qed
  then have "statuses_ok rows'"
    unfolding statuses_ok_def using all2_source [OF all2] settled_map_consistent [OF dc] by metis
  moreover have "plan_shape_ok rows'" using plan_shape_cong [OF same(2, 3)] assms by simp
  ultimately show thesis using that rows' evo by blast
qed

lemma update_where_shape:
  assumes "plan_shape_ok rows"
    and "\<And>r. row_id (f r) = row_id r \<and> clientId (f r) = clientId r \<and> prerequisiteIds (f r) = prerequisiteIds r"
  shows "plan_shape_ok (update_where x f rows)"
proof -
  have "map row_id (update_where x f rows) = map row_id rows"
      "plan_graph (update_where x f rows) = plan_graph rows"
    using assms(2) by (auto simp: update_where_def plan_graph_def)
  then show ?thesis using plan_shape_cong assms(1) by blast
qed

section \<open>What every transaction keeps\<close>

definition run_live :: "plan_db \<Rightarrow> js_string \<Rightarrow> bool" where
  "run_live db y \<longleftrightarrow> (\<exists>p. runs db y = Some p \<and> \<not> isTerminal (pr_status p))"

text \<open>
  Each run a step was handed to under revision \<open>v\<close> exists, and is the run the row names, or the row
  has moved to a later revision and the run is over.
\<close>

definition handed_ok :: "plan_db \<Rightarrow> bool" where
  "handed_ok db \<longleftrightarrow>
     (\<forall>x v y. handoffs db (admissionKey x v) = Some (Some y) \<longrightarrow>
        runs db y \<noteq> None \<and>
        (\<exists>r \<in> set (plan_rows db). row_id r = x \<and> v \<le> step_revision r \<and>
           (dispatchRunId r = Some y \<or> v < step_revision r \<and> \<not> run_live db y)))"

definition plan_inv :: "plan_db \<Rightarrow> bool" where
  "plan_inv db \<longleftrightarrow>
     plan_shape_ok (plan_rows db) \<and> statuses_ok (plan_rows db) \<and>
     (\<forall>r \<in> set (plan_rows db). step_revision r \<le> planRevision (goal db) \<and> dispatchRunId r \<noteq> Some []) \<and>
     handed_ok db"

definition carried :: "plan_db \<Rightarrow> plan_step \<Rightarrow> plan_step \<Rightarrow> bool" where
  "carried db r r' \<longleftrightarrow>
     row_id r' = row_id r \<and> step_revision r \<le> step_revision r' \<and>
     (dispatchRunId r' = dispatchRunId r \<or>
      step_revision r < step_revision r' \<and> (\<forall>y. dispatchRunId r = Some y \<longrightarrow> \<not> run_live db y))"

lemma carried_handed:
  assumes "handed_ok db"
    and "\<And>r. r \<in> set (plan_rows db) \<Longrightarrow> \<exists>r' \<in> set (plan_rows db'). carried db r r'"
    and "handoffs db' = handoffs db" and "runs db' = runs db"
  shows "handed_ok db'"
  unfolding handed_ok_def
proof (intro allI impI)
  fix x v y
  assume "handoffs db' (admissionKey x v) = Some (Some y)"
  then have "runs db y \<noteq> None" and "\<exists>r \<in> set (plan_rows db). row_id r = x \<and> v \<le> step_revision r \<and>
      (dispatchRunId r = Some y \<or> v < step_revision r \<and> \<not> run_live db y)"
    using assms(1, 3) unfolding handed_ok_def by auto
  then obtain r where r: "r \<in> set (plan_rows db)" "row_id r = x" "v \<le> step_revision r"
      "dispatchRunId r = Some y \<or> v < step_revision r \<and> \<not> run_live db y"
    by blast
  obtain r' where r': "r' \<in> set (plan_rows db')" "carried db r r'" using assms(2) [OF r(1)] by blast
  have "row_id r' = x \<and> v \<le> step_revision r' \<and>
      (dispatchRunId r' = Some y \<or> v < step_revision r' \<and> \<not> run_live db y)"
    using r(2-4) r'(2) unfolding carried_def by (metis order_le_less_trans order_less_le_trans order_trans)
  moreover have "run_live db' y = run_live db y" using assms(4) by (simp add: run_live_def)
  ultimately show "runs db' y \<noteq> None \<and> (\<exists>r \<in> set (plan_rows db'). row_id r = x \<and> v \<le> step_revision r \<and>
      (dispatchRunId r = Some y \<or> v < step_revision r \<and> \<not> run_live db' y))"
    using \<open>runs db y \<noteq> None\<close> assms(4) r'(1) by metis
qed

lemma evolves_carried:
  assumes "evolves v r r'" and "step_revision r \<le> v"
  shows "step_revision r \<le> step_revision r'" "step_revision r' \<le> v" "dispatchRunId r' = dispatchRunId r"
    "row_id r' = row_id r"
  using assms by (cases r; cases r'; auto simp: evolves_def)+

lemma carried_evolves: "carried db a b \<Longrightarrow> evolves v b c \<Longrightarrow> step_revision b \<le> v \<Longrightarrow> carried db a c"
  using evolves_carried [of v b c] unfolding carried_def by fastforce

lemma with_settled_rowsD:
  assumes "with_settled_rows v rows db = Inr db'" and "plan_shape_ok rows"
  obtains rows' where "db' = db\<lparr>plan_rows := rows'\<rparr>" "list_all2 (evolves v) rows rows'"
    "plan_shape_ok rows'" "statuses_ok rows'"
proof -
  obtain rows' where rows': "recomputePlanStepStatuses v rows = Some rows'"
      "list_all2 (evolves v) rows rows'" "plan_shape_ok rows'" "statuses_ok rows'"
    using recomputed_rows [OF assms(2)] .
  then have "db' = db\<lparr>plan_rows := rows'\<rparr>" using assms(1) by (simp add: with_settled_rows_def)
  then show thesis using that rows' by blast
qed

text \<open>An edit of the rows under the next revision, with the statuses derived anew.\<close>

lemma edit_keeps_inv:
  assumes inv: "plan_inv db" and settled: "with_settled_rows v rows base = Inr db1"
    and shape: "plan_shape_ok rows" and v: "v = planRevision (goal db) + 1"
    and rows: "\<And>b. b \<in> set rows \<Longrightarrow> step_revision b \<le> v \<and> dispatchRunId b \<noteq> Some []"
    and from_old: "\<And>r. r \<in> set (plan_rows db) \<Longrightarrow> \<exists>b \<in> set rows. carried db r b"
    and base: "handoffs base = handoffs db" "runs base = runs db"
    and final: "plan_rows db' = plan_rows db1" "handoffs db' = handoffs db1" "runs db' = runs db1"
      "planRevision (goal db') = v"
  shows "plan_inv db'"
proof -
  obtain rows' where db1: "db1 = base\<lparr>plan_rows := rows'\<rparr>" and evo: "list_all2 (evolves v) rows rows'"
      and ok: "plan_shape_ok rows'" "statuses_ok rows'"
    using with_settled_rowsD [OF settled shape] .
  have bound: "step_revision b \<le> v \<and> dispatchRunId b \<noteq> Some []" if "b \<in> set rows'" for b
  proof -
    from all2_source [OF evo that] obtain a where a: "a \<in> set rows" "evolves v a b" ..
    then show ?thesis using rows [OF a(1)] evolves_carried [OF a(2)] by simp
  qed
  have "\<exists>c \<in> set rows'. carried db r c" if "r \<in> set (plan_rows db)" for r
  proof -
    from from_old [OF that] obtain b where b: "b \<in> set rows" "carried db r b" ..
    from all2_target [OF evo b(1)] obtain c where "c \<in> set rows'" "evolves v b c" ..
    then show ?thesis using carried_evolves b rows by blast
  qed
  then have "handed_ok db'"
    using carried_handed [of db db'] inv final db1 base by (simp add: plan_inv_def)
  then show ?thesis using ok bound final db1 by (simp add: plan_inv_def)
qed

definition fresh_ids :: "plan_env \<Rightarrow> plan_db \<Rightarrow> bool" where
  "fresh_ids env db \<longleftrightarrow>
     inj (env_row env) \<and> runs db (env_wake env) = None \<and>
     (\<forall>x. x \<notin> clientId ` set (plan_rows db) \<longrightarrow> env_row env x \<notin> row_id ` set (plan_rows db))"

lemma edit_db_simps [simp]:
  "plan_rows (set_revision v db) = plan_rows db" "handoffs (set_revision v db) = handoffs db"
  "runs (set_revision v db) = runs db" "planRevision (goal (set_revision v db)) = v"
  "plan_rows (log_event e db) = plan_rows db" "handoffs (log_event e db) = handoffs db"
  "runs (log_event e db) = runs db" "goal (log_event e db) = goal db"
  by (simp_all add: set_revision_def log_event_def)

lemma commit_keeps_inv:
  assumes inv: "plan_inv db" and committed: "commitPlanUpdate new_id inp secrets db = Inr db'"
    and ids: "inj new_id" "\<And>x. x \<notin> clientId ` set (plan_rows db) \<Longrightarrow> new_id x \<notin> row_id ` set (plan_rows db)"
  shows "plan_inv db' \<and> runs db' = runs db"
proof -
  let ?steps = "ui_steps inp" and ?v = "planRevision (goal db) + 1" and ?E = "plan_rows db"
  obtain db1 where valid: "validatePlanShape ?steps ?E = Inr ()"
      and settled: "with_settled_rows ?v
        (cancel_omitted ?v ?steps ?E (write_steps new_id ?v ?E 0 ?steps ?E)) db = Inr db1"
      and db': "db' = log_event (Plan_updated ?v (length ?steps)) (set_revision ?v db1)"
    using committed by (auto simp: commitPlanUpdate_def Let_def simp del: One_nat_def)
  have E: "plan_shape_ok ?E" using inv by (simp add: plan_inv_def)
  have uniq: "unique_rows ?E" and dist: "distinct (map in_id ?steps)"
    using E valid by (auto simp: plan_shape_ok_def validatePlanShape_def)
  obtain old new where rows: "cancel_omitted ?v ?steps ?E (write_steps new_id ?v ?E 0 ?steps ?E) = old @ new"
      and old: "list_all2 (edited ?v ?steps) ?E old"
      and new: "list_all2 (new_row ?v new_id) (filter (\<lambda>s. in_id s \<notin> clientId ` set ?E) ?steps) new"
    using edited_rows [OF uniq dist ids(2)] .
  have shape: "plan_shape_ok (old @ new)" by (rule edited_shape_ok [OF E valid ids(2) ids(1) old new])
  have E_bound: "step_revision r \<le> planRevision (goal db) \<and> dispatchRunId r \<noteq> Some []" if "r \<in> set ?E" for r
    using inv that by (simp add: plan_inv_def)
  have bound: "step_revision b \<le> ?v \<and> dispatchRunId b \<noteq> Some []" if "b \<in> set (old @ new)" for b
  proof (cases "b \<in> set old")
    case True
    from all2_source [OF old True] obtain r where r: "r \<in> set ?E" "edited ?v ?steps r b" ..
    show ?thesis using edited_fields [OF r(2)] E_bound [OF r(1)] by auto
  next
    case False
    then have "b \<in> set new" using that by simp
    from all2_source [OF new this] obtain s where "new_row ?v new_id s b" ..
    then show ?thesis using new_row_fields by fastforce
  qed
  have from_old: "\<exists>b \<in> set (old @ new). carried db r b" if "r \<in> set ?E" for r
  proof -
    from all2_target [OF old that] obtain b where b: "b \<in> set old" "edited ?v ?steps r b" ..
    have "carried db r b"
      using edited_fields [OF b(2)] E_bound [OF that] by (auto simp: carried_def)
    then show ?thesis using b(1) by auto
  qed
  obtain rows' where db1: "db1 = db\<lparr>plan_rows := rows'\<rparr>"
    using with_settled_rowsD [OF settled [unfolded rows] shape] .
  have "plan_inv db'"
    by (rule edit_keeps_inv [OF inv settled [unfolded rows] shape refl bound from_old refl refl])
      (simp_all add: db')
  then show ?thesis using db1 db' by simp
qed

lemma wake_keeps_inv:
  assumes "plan_inv db" and "runs db w = None"
  shows "plan_inv (queueGoalPlanWake w v db)"
proof -
  have "handed_ok (queueGoalPlanWake w v db)"
    unfolding handed_ok_def
  proof (intro allI impI)
    fix x u y
    assume "handoffs (queueGoalPlanWake w v db) (admissionKey x u) = Some (Some y)"
    then have h: "handoffs db (admissionKey x u) = Some (Some y)"
      by (simp add: queueGoalPlanWake_def Let_def split: if_splits)
    then have "runs db y \<noteq> None" using assms(1) unfolding plan_inv_def handed_ok_def by blast
    then have same: "runs (queueGoalPlanWake w v db) y = runs db y" using assms(2)
      by (auto simp: queueGoalPlanWake_def Let_def)
    then have "run_live (queueGoalPlanWake w v db) y = run_live db y" by (simp add: run_live_def)
    moreover have "plan_rows (queueGoalPlanWake w v db) = plan_rows db"
      by (simp add: queueGoalPlanWake_def Let_def)
    ultimately show "runs (queueGoalPlanWake w v db) y \<noteq> None \<and>
        (\<exists>r \<in> set (plan_rows (queueGoalPlanWake w v db)). row_id r = x \<and> u \<le> step_revision r \<and>
         (dispatchRunId r = Some y \<or> u < step_revision r \<and> \<not> run_live (queueGoalPlanWake w v db) y))"
      using h assms(1) same unfolding plan_inv_def handed_ok_def by simp
  qed
  then show ?thesis using assms(1) by (simp add: plan_inv_def queueGoalPlanWake_def Let_def)
qed

lemma wake_owner_keeps_inv:
  "plan_inv db \<Longrightarrow> runs db (env_wake env) = None \<Longrightarrow> plan_inv (wake_owner_edit env who db)"
  by (simp add: wake_owner_edit_def wake_keeps_inv)

lemma update_keeps_inv:
  assumes "plan_inv db" and "updateGoalPlan env who inp db = Inr db'" and "fresh_ids env db"
  shows "plan_inv db'"
  using assms commit_keeps_inv [OF assms(1), of "env_row env"] wake_owner_keeps_inv [of _ env who]
  by (auto simp: updateGoalPlan_def fresh_ids_def)

lemma claimed_row:
  assumes "claimPlanStep x base db = Inr r"
  shows "r \<in> set (plan_rows db)" "goal_status (goal db) = Goal_running"
  using assms by (auto simp: claimPlanStep_def assertPlanRunning_def split: option.splits dest!: find_SomeD)

text \<open>A transaction that changes one row and derives the statuses anew.\<close>

lemma one_row_edit:
  assumes inv: "plan_inv db" and v: "v = planRevision (goal db) + 1"
    and f: "\<And>r. row_id (f r) = row_id r \<and> clientId (f r) = clientId r \<and>
        prerequisiteIds (f r) = prerequisiteIds r \<and> step_revision (f r) = v"
    and mark: "\<And>r. dispatchRunId (f r) = dispatchRunId r \<or> dispatchRunId (f r) = None \<and>
        (r = step \<longrightarrow> (\<forall>y. dispatchRunId r = Some y \<longrightarrow> \<not> run_live db y))"
    and step: "step \<in> set (plan_rows db)"
    and settled: "with_settled_rows v (update_where (row_id step) f (plan_rows db)) (set_revision v db) = Inr db1"
  shows "plan_inv (log_event e db1) \<and> runs db1 = runs db"
proof -
  let ?rows = "update_where (row_id step) f (plan_rows db)"
  have shape: "plan_shape_ok ?rows"
    using inv f by (intro update_where_shape) (simp_all add: plan_inv_def)
  have uniq: "r = step" if "r \<in> set (plan_rows db)" "row_id r = row_id step" for r
    using inv step that by (auto simp: plan_inv_def plan_shape_ok_def unique_rows_def distinct_map inj_on_def)
  have E_bound: "step_revision r \<le> planRevision (goal db) \<and> dispatchRunId r \<noteq> Some []"
    if "r \<in> set (plan_rows db)" for r
    using inv that by (simp add: plan_inv_def)
  have bound: "step_revision b \<le> v \<and> dispatchRunId b \<noteq> Some []" if "b \<in> set ?rows" for b
  proof -
    from that have "b \<in> (\<lambda>r. if row_id r = row_id step then f r else r) ` set (plan_rows db)"
      by (simp add: update_where_def)
    then obtain r where r: "r \<in> set (plan_rows db)" "b = (if row_id r = row_id step then f r else r)"
      by blast
    show ?thesis using E_bound [OF r(1)] f [of r] mark [of r] v r(2) by auto
  qed
  have from_old: "\<exists>b \<in> set ?rows. carried db r b" if r: "r \<in> set (plan_rows db)" for r
  proof (cases "row_id r = row_id step")
    case True
    then have "f r \<in> set ?rows" using r by (auto simp: update_where_def)
    moreover have "carried db r (f r)"
      using f [of r] mark [of r] uniq [OF r True] E_bound [OF r] v by (auto simp: carried_def)
    ultimately show ?thesis by blast
  next
    case False
    then have "r \<in> set ?rows" using r by (force simp: update_where_def)
    then show ?thesis by (auto simp: carried_def)
  qed
  obtain rows' where db1: "db1 = (set_revision v db)\<lparr>plan_rows := rows'\<rparr>"
    using with_settled_rowsD [OF settled shape] .
  have "plan_inv (log_event e db1)"
    by (rule edit_keeps_inv [OF inv settled shape v bound from_old]) (simp_all add: db1)
  then show ?thesis using db1 by simp
qed

lemma outcome_keeps_inv:
  assumes "plan_inv db" and "recordGoalPlanStepOutcome env readable who inp db = Inr db'" and "fresh_ids env db"
  shows "plan_inv db'"
proof -
  let ?v = "planRevision (goal db) + 1"
  obtain step db1 out e where step: "step \<in> set (plan_rows db)"
      and settled: "with_settled_rows ?v (update_where (row_id step) (finish_row ?v out) (plan_rows db))
        (set_revision ?v db) = Inr db1"
      and db': "db' = wake_owner_edit env who (log_event e db1)"
    using assms(2) claimed_row(1) by (fastforce simp: recordGoalPlanStepOutcome_def Let_def simp del: One_nat_def)
  have "plan_inv (log_event e db1) \<and> runs db1 = runs db"
    by (rule one_row_edit [OF assms(1) refl _ _ step settled]) (simp_all add: finish_row_def)
  then show ?thesis using wake_owner_keeps_inv assms(3) db' by (simp add: fresh_ids_def)
qed

lemma settle_keeps_inv:
  assumes "plan_inv db" and "settleGoalPlanStep env who inp db = Inr db'" and "fresh_ids env db"
  shows "plan_inv db'"
proof -
  let ?v = "planRevision (goal db) + 1"
  obtain step db1 e where step: "step \<in> set (plan_rows db)" and may: "may_settle (ai_action inp) db step = Inr ()"
      and settled: "with_settled_rows ?v (update_where (row_id step)
          (case ai_action inp of
             Cancel_step \<Rightarrow> cancel_row ?v
           | Reopen_step \<Rightarrow> reopen_row ?v
               (deriveStatus Step_pending (status_map (plan_rows db)) (prerequisiteIds step)))
          (plan_rows db)) (set_revision ?v db) = Inr db1"
      and db': "db' = wake_owner_edit env who (log_event e db1)"
    using assms(2) claimed_row(1) by (fastforce simp: settleGoalPlanStep_def Let_def simp del: One_nat_def)
  have over: "\<not> run_live db y" if "ai_action inp = Reopen_step" "dispatchRunId step = Some y" for y
  proof -
    have "y \<noteq> []" using assms(1) step that(2) by (auto simp: plan_inv_def)
    then show ?thesis using may that
      by (auto simp: may_settle_def falsy_def run_live_def split: option.splits)
  qed
  have "plan_inv (log_event e db1) \<and> runs db1 = runs db"
    by (rule one_row_edit [OF assms(1) refl _ _ step settled])
      (use over in \<open>auto simp: cancel_row_def reopen_row_def split: step_action.splits\<close>)
  then show ?thesis using wake_owner_keeps_inv assms(3) db' by (simp add: fresh_ids_def)
qed

section \<open>Handing a step out\<close>

lemma before_separator:
  assumes "c \<notin> set a" and "c \<notin> set a'" and "a @ c # b = a' @ c # b'"
  shows "a = a' \<and> b = b'"
proof -
  have "takeWhile (\<lambda>d. d \<noteq> c) (xs @ c # ys) = xs" if "c \<notin> set xs" for xs ys
    using that by (subst takeWhile_append2) auto
  then have "a = a'" using assms by metis
  then show ?thesis using assms(3) by simp
qed

lemma admissionKey_inject: "admissionKey x v = admissionKey x' v' \<longleftrightarrow> x = x' \<and> v = v'"
proof
  assume "admissionKey x v = admissionKey x' v'"
  then have "rev (x @ 58 # digits_of v) = rev (x' @ 58 # digits_of v')"
    by (simp add: admissionKey_def)
  then have eq: "rev (digits_of v) @ 58 # rev x = rev (digits_of v') @ 58 # rev x'" by simp
  have "(58 :: unit16) \<notin> set (rev (digits_of n))" for n
    using digits_of_digits [of 58 n] by (auto simp: is_digit_def)
  from before_separator [OF this this eq] show "x = x' \<and> v = v'" by simp
qed simp

definition mark_row :: "js_string \<Rightarrow> js_string \<Rightarrow> js_string \<Rightarrow> plan_step \<Rightarrow> plan_step" where
  "mark_row y d now r = r\<lparr>step_status := Step_active, dispatchRunId := Some y, dispatchDelegationId := Some d,
     step_dispatch := Some \<lparr>ho_runId = y, ho_delegationId = d, ho_dispatchedAt = now\<rparr>\<rparr>"

lemma filter_single: "distinct xs \<Longrightarrow> r \<in> set xs \<Longrightarrow> filter (\<lambda>q. q = r) xs = [r]"
  by (induction xs) (auto simp: filter_empty_conv)

lemma mark_unique:
  assumes "distinct (map row_id (plan_rows db))" and "r \<in> set (plan_rows db)" and "dispatchRunId r = None"
  shows "markGoalPlanStepDispatched (row_id r) y d now db =
    (True, db\<lparr>plan_rows := map (\<lambda>q. if q = r then mark_row y d now q else q) (plan_rows db)\<rparr>)"
proof -
  have iff: "row_id q = row_id r \<and> dispatchRunId q = None \<longleftrightarrow> q = r" if "q \<in> set (plan_rows db)" for q
    using assms that by (auto simp: distinct_map inj_on_def)
  have "filter (\<lambda>q. row_id q = row_id r \<and> dispatchRunId q = None) (plan_rows db) = filter (\<lambda>q. q = r) (plan_rows db)"
    using iff by (intro filter_cong) auto
  also have "\<dots> = [r]" using assms(1, 2) by (intro filter_single) (simp_all add: distinct_map)
  finally show ?thesis
    using iff by (simp add: markGoalPlanStepDispatched_def mark_row_def cong: map_cong)
qed

lemma mark_row_fields [simp]:
  "row_id (mark_row y d now r) = row_id r" "clientId (mark_row y d now r) = clientId r"
  "prerequisiteIds (mark_row y d now r) = prerequisiteIds r" "step_status (mark_row y d now r) = Step_active"
  "step_revision (mark_row y d now r) = step_revision r" "dispatchRunId (mark_row y d now r) = Some y"
  by (simp_all add: mark_row_def)

lemma deriveStatus_same_blocks:
  assumes "\<And>x. m x = Some Step_blocked \<or> m x = Some Step_cancelled \<longleftrightarrow> n x = Some Step_blocked \<or> n x = Some Step_cancelled"
  shows "deriveStatus s m ps = deriveStatus s n ps"
  using assms by (simp add: deriveStatus_def)

lemma marked_rows_ok:
  fixes y d now
  assumes "plan_shape_ok rows" and "statuses_ok rows" and "c \<in> set rows" and "step_status c = Step_pending"
  defines "rows' \<equiv> map (\<lambda>q. if q = c then mark_row y d now q else q) rows"
  shows "plan_shape_ok rows' \<and> statuses_ok rows'"
proof -
  have same: "map row_id rows' = map row_id rows" "map clientId rows' = map clientId rows"
      "plan_graph rows' = plan_graph rows"
    by (auto simp: rows'_def plan_graph_def)
  then have cset: "clientId ` set rows' = clientId ` set rows" by (metis list.set_map)
  have dc: "distinct (map clientId rows)" and dc': "distinct (map clientId rows')"
    using assms(1) same by (simp_all add: plan_shape_ok_def unique_rows_def)
  have blocks: "status_map rows' x = Some Step_blocked \<or> status_map rows' x = Some Step_cancelled \<longleftrightarrow>
      status_map rows x = Some Step_blocked \<or> status_map rows x = Some Step_cancelled" for x
  proof (cases "x \<in> clientId ` set rows")
    case True
    then obtain q where q: "q \<in> set rows" "x = clientId q" by auto
    let ?q = "if q = c then mark_row y d now q else q"
    have "?q \<in> set rows'" using q(1) by (auto simp: rows'_def)
    then show ?thesis
      using status_map_distinct(1) [OF dc q(1)] status_map_distinct(1) [OF dc', of ?q] q(2) assms(4)
      by (cases "q = c") auto
  next
    case False
    then show ?thesis using status_map_distinct(2) [OF dc] status_map_distinct(2) [OF dc'] cset by simp
  qed
  have "plan_shape_ok rows'"
    using plan_shape_cong [OF same(1, 3)] assms(1) by simp
  moreover have "deriveStatus (step_status r) (status_map rows') (prerequisiteIds r) = step_status r"
    if r: "r \<in> set rows'" for r
  proof -
    have "deriveStatus (step_status r) (status_map rows') (prerequisiteIds r) =
        deriveStatus (step_status r) (status_map rows) (prerequisiteIds r)"
      by (rule deriveStatus_same_blocks [OF blocks])
    also have "\<dots> = step_status r"
    proof (cases "step_status r = Step_active")
      case False
      then have "r \<in> set rows" using r by (auto simp: rows'_def split: if_splits)
      then show ?thesis using assms(2) by (simp add: statuses_ok_def)
    qed (simp add: deriveStatus_def)
    finally show ?thesis .
  qed
  ultimately show ?thesis by (simp add: statuses_ok_def)
qed

lemma ready_never_handed:
  assumes "plan_inv db" and "r \<in> set (plan_rows db)" and "dispatchRunId r = None"
  shows "handoffs db (admissionKey (row_id r) (step_revision r)) \<noteq> Some (Some y)"
proof
  assume "handoffs db (admissionKey (row_id r) (step_revision r)) = Some (Some y)"
  then obtain q where q: "q \<in> set (plan_rows db)" "row_id q = row_id r"
      "dispatchRunId q = Some y \<or> step_revision r < step_revision q"
    using assms(1) unfolding plan_inv_def handed_ok_def by blast
  moreover have "q = r"
    using assms(1, 2) q(1, 2) by (auto simp: plan_inv_def plan_shape_ok_def unique_rows_def distinct_map inj_on_def)
  ultimately show False using assms(3) by simp
qed

lemma hand_out_result:
  assumes inv: "plan_inv db" and r: "r \<in> set (plan_rows db)" "dispatchRunId r = None"
    and out: "hand_out env run r db = (result, db')"
  shows "db' = db \<and> (\<forall>y. result \<noteq> Dispatched y) \<or>
    (\<exists>d p e. result = Dispatched (de_runId env) \<and> pr_status p = Queued \<and>
      db' = log_event e (db\<lparr>
        handoffs := (handoffs db)(admissionKey (row_id r) (step_revision r) \<mapsto> Some (de_runId env)),
        runs := (runs db)(de_runId env \<mapsto> p), delegations := (delegations db)(de_runId env \<mapsto> d),
        plan_rows := map (\<lambda>q. if q = r then mark_row (de_runId env) d (de_now env) q else q) (plan_rows db)\<rparr>))"
proof (cases "handoffs db (admissionKey (row_id r) (step_revision r))")
  case None
  show ?thesis
  proof (cases "de_admit env (step_owner r) (admissionKey (row_id r) (step_revision r)) (goalPlanStepPrompt r)")
    case (Refused err)
    then show ?thesis using out None by (auto simp: hand_out_def Let_def)
  next
    case (Admitted d g t)
    have "distinct (map row_id (plan_rows db))"
      using inv by (simp add: plan_inv_def plan_shape_ok_def unique_rows_def)
    then have "markGoalPlanStepDispatched (row_id r) (de_runId env) d (de_now env) base =
        (True, base\<lparr>plan_rows := map (\<lambda>q. if q = r then mark_row (de_runId env) d (de_now env) q else q) (plan_rows base)\<rparr>)"
      if "plan_rows base = plan_rows db" for base
      using mark_unique [of base r] that r by simp
    then show ?thesis using out None Admitted
      by (intro disjI2 exI [of _ d] exI conjI) (auto simp: hand_out_def Let_def)
  qed
next
  case (Some recorded)
  then have "recorded = None" using ready_never_handed [OF inv r] by (cases recorded) auto
  then show ?thesis using out Some by (auto simp: hand_out_def Let_def)
qed

lemma dispatch_keeps_inv:
  assumes inv: "plan_inv db" and out: "dispatchStep env run step db = (result, db')"
    and fresh: "runs db (de_runId env) = None" "de_runId env \<noteq> []"
  shows "plan_inv db'"
proof (cases "db' = db")
  case False
  let ?y = "de_runId env"
  obtain r where r: "r \<in> set (plan_rows db)" "still_ready db step r" and hand: "hand_out env run r db = (result, db')"
    using out False by (auto simp: dispatchStep_def Let_def split: if_splits option.splits dest!: find_SomeD)
  have ready: "dispatchRunId r = None" "step_status r = Step_pending" using r(2) by (simp_all add: still_ready_def)
  obtain d p e where db': "db' = log_event e (db\<lparr>
        handoffs := (handoffs db)(admissionKey (row_id r) (step_revision r) \<mapsto> Some ?y),
        runs := (runs db)(?y \<mapsto> p), delegations := (delegations db)(?y \<mapsto> d),
        plan_rows := map (\<lambda>q. if q = r then mark_row ?y d (de_now env) q else q) (plan_rows db)\<rparr>)"
    using hand_out_result [OF inv r(1) ready(1) hand] False by auto
  have rows: "plan_shape_ok (plan_rows db') \<and> statuses_ok (plan_rows db')"
    using marked_rows_ok [OF _ _ r(1) ready(2), of ?y d "de_now env"] inv by (simp add: db' plan_inv_def)
  have row': "(if q = r then mark_row ?y d (de_now env) q else q) \<in> set (plan_rows db')"
    if "q \<in> set (plan_rows db)" for q
    using that by (auto simp: db')
  have "handed_ok db'"
    unfolding handed_ok_def
  proof (intro allI impI)
    fix x v y
    assume h: "handoffs db' (admissionKey x v) = Some (Some y)"
    show "runs db' y \<noteq> None \<and> (\<exists>q \<in> set (plan_rows db'). row_id q = x \<and> v \<le> step_revision q \<and>
        (dispatchRunId q = Some y \<or> v < step_revision q \<and> \<not> run_live db' y))"
    proof (cases "x = row_id r \<and> v = step_revision r")
      case True
      then have "y = ?y" using h by (simp add: db' admissionKey_inject)
      then show ?thesis using True row' [OF r(1)] by (auto simp: db' intro: bexI [of _ "mark_row ?y d (de_now env) r"])
    next
      case False
      then have "handoffs db (admissionKey x v) = Some (Some y)"
        using h by (auto simp: db' admissionKey_inject split: if_splits)
      then have known: "runs db y \<noteq> None" and "\<exists>q \<in> set (plan_rows db). row_id q = x \<and> v \<le> step_revision q \<and>
          (dispatchRunId q = Some y \<or> v < step_revision q \<and> \<not> run_live db y)"
        using inv unfolding plan_inv_def handed_ok_def by auto
      then obtain q where q: "q \<in> set (plan_rows db)" "row_id q = x" "v \<le> step_revision q"
          "dispatchRunId q = Some y \<or> v < step_revision q \<and> \<not> run_live db y"
        by blast
      have other: "y \<noteq> ?y" using known fresh(1) by auto
      then have live: "run_live db' y = run_live db y" by (simp add: db' run_live_def)
      let ?q = "if q = r then mark_row ?y d (de_now env) q else q"
      have "row_id ?q = x \<and> v \<le> step_revision ?q \<and>
          (dispatchRunId ?q = Some y \<or> v < step_revision ?q \<and> \<not> run_live db' y)"
        using q(2-4) ready(1) live by auto
      then show ?thesis using row' [OF q(1)] known other by (auto simp: db')
    qed
  qed
  moreover have "step_revision b \<le> planRevision (goal db') \<and> dispatchRunId b \<noteq> Some []"
    if "b \<in> set (plan_rows db')" for b
    using that inv fresh(2) by (auto simp: db' plan_inv_def)
  ultimately show ?thesis using rows by (simp add: plan_inv_def)
qed (use inv in simp)

section \<open>Reachable plans\<close>

text \<open>
  The transactions on a plan, in any order and by anyone, and what changes around it: runs move on
  until they are over, new runs appear, the goal changes its status, members and records change.
\<close>

inductive plan_move :: "plan_db \<Rightarrow> plan_db \<Rightarrow> bool" where
  update: "updateGoalPlan env who inp db = Inr db' \<Longrightarrow> fresh_ids env db \<Longrightarrow> plan_move db db'"
| outcome: "recordGoalPlanStepOutcome env readable who oinp db = Inr db' \<Longrightarrow> fresh_ids env db \<Longrightarrow>
    plan_move db db'"
| settle: "settleGoalPlanStep env who ainp db = Inr db' \<Longrightarrow> fresh_ids env db \<Longrightarrow> plan_move db db'"
| dispatch: "dispatchStep denv run step db = (result, db') \<Longrightarrow> runs db (de_runId denv) = None \<Longrightarrow>
    de_runId denv \<noteq> [] \<Longrightarrow> plan_move db db'"
| run_moves: "runs db y = Some p \<Longrightarrow> \<not> isTerminal (pr_status p) \<Longrightarrow>
    plan_move db (db\<lparr>runs := (runs db)(y \<mapsto> p\<lparr>pr_status := s\<rparr>)\<rparr>)"
| run_starts: "runs db y = None \<Longrightarrow> plan_move db (db\<lparr>runs := (runs db)(y \<mapsto> p)\<rparr>)"
| around: "plan_move db (db\<lparr>goal := (goal db)\<lparr>goal_status := gs\<rparr>, group_row := gr, artifacts := ar,
    evidence_rows := er\<rparr>)"

definition plan_start :: "plan_db \<Rightarrow> bool" where
  "plan_start db \<longleftrightarrow> plan_rows db = [] \<and> (\<forall>x v. handoffs db (admissionKey x v) = None)"

inductive plan_reachable :: "plan_db \<Rightarrow> bool" where
  start: "plan_start db \<Longrightarrow> plan_reachable db"
| move: "plan_reachable db \<Longrightarrow> plan_move db db' \<Longrightarrow> plan_reachable db'"

lemma runs_change_keeps_inv:
  assumes "plan_inv db" and "\<And>y. runs db y \<noteq> None \<Longrightarrow> m y \<noteq> None"
    and "\<And>y. runs db y \<noteq> None \<Longrightarrow> run_live (db\<lparr>runs := m\<rparr>) y \<Longrightarrow> run_live db y"
  shows "plan_inv (db\<lparr>runs := m\<rparr>)"
  using assms unfolding plan_inv_def handed_ok_def by (simp del: not_None_eq) blast

lemma plan_move_keeps_inv: "plan_move db db' \<Longrightarrow> plan_inv db \<Longrightarrow> plan_inv db'"
proof (induction rule: plan_move.induct)
  case (run_moves db y p s)
  then show ?case by (intro runs_change_keeps_inv) (auto simp: run_live_def split: if_splits)
next
  case (run_starts db y p)
  then show ?case by (intro runs_change_keeps_inv) (auto simp: run_live_def split: if_splits)
next
  case (around db gs gr ar er)
  then show ?case by (simp add: plan_inv_def handed_ok_def run_live_def)
qed (auto intro: update_keeps_inv outcome_keeps_inv settle_keeps_inv dispatch_keeps_inv)

lemma plan_reachable_inv: "plan_reachable db \<Longrightarrow> plan_inv db"
proof (induction rule: plan_reachable.induct)
  case (start db)
  then show ?case
    by (simp add: plan_start_def plan_inv_def plan_shape_ok_def unique_rows_def statuses_ok_def
        handed_ok_def graphHasCycle_def plan_graph_def visit_all.simps)
qed (rule plan_move_keeps_inv)

lemma statuses_ok_settled:
  assumes "plan_shape_ok rows" and "statuses_ok rows" and "r \<in> set rows"
  shows "step_status r = settled_status rows r"
proof -
  have dc: "distinct (map clientId rows)" and "\<not> graphHasCycle (plan_graph rows)"
    using assms(1) by (simp_all add: plan_shape_ok_def unique_rows_def)
  moreover have "recomputePlanStepStatuses v rows = Some rows" for v
    using assms(2) settle_round_fixed [of rows "status_map rows" v]
    by (simp add: recomputePlanStepStatuses_def settle_loop.simps statuses_ok_def)
  ultimately have "list_all2 (\<lambda>r r'. evolves 0 r r' \<and> step_status r' = settled_status rows r) rows rows"
    using recompute_returns [OF dc, of 0] by auto
  then show ?thesis using assms(3) by (auto simp: list_all2_conv_all_nth in_set_conv_nth)
qed

lemma and_then_Inl_iff: "and_then r f = Inl e \<longleftrightarrow> r = Inl e \<or> (\<exists>x. r = Inr x \<and> f x = Inl e)"
  by (cases r) simp_all

lemma no_hang:
  "r \<noteq> Inl Never_settles \<Longrightarrow> (\<And>x. r = Inr x \<Longrightarrow> f x \<noteq> Inl Never_settles) \<Longrightarrow>
     and_then r f \<noteq> Inl Never_settles"
  by (cases r) simp_all

lemma check_all_Inl: "check_all f xs = Inl e \<Longrightarrow> \<exists>x \<in> set xs. f x = Inl e"
  by (induction xs) (auto simp: and_then_Inl_iff)

lemma with_settled_rows_returns:
  assumes "plan_shape_ok rows"
  shows "with_settled_rows v rows db \<noteq> Inl Never_settles"
proof -
  obtain rows' where "recomputePlanStepStatuses v rows = Some rows'" using recomputed_rows [OF assms] .
  then show ?thesis by (simp add: with_settled_rows_def)
qed

lemma check_all_no_hang:
  "(\<And>x. f x \<noteq> Inl Never_settles) \<Longrightarrow> check_all f xs \<noteq> Inl Never_settles"
  by (auto dest: check_all_Inl)

lemma parse_steps_no_hang: "parse_steps ss \<noteq> Inl Never_settles"
  by (induction ss) (auto simp: and_then_Inl_iff parse_step_def trimmed_def split: if_splits)

lemma load_goal_no_hang: "load_goal who db \<noteq> Inl Never_settles"
  by (cases who) auto

lemma claimPlanStep_no_hang: "claimPlanStep x base db \<noteq> Inl Never_settles"
  by (auto simp: claimPlanStep_def assertPlanRunning_def based_on_def and_then_Inl_iff split: option.splits)

lemma validate_link_no_hang: "validate_link readable db l \<noteq> Inl Never_settles"
  by (auto simp: validate_link_def Let_def and_then_Inl_iff split: support_link.splits option.splits)

lemma may_settle_no_hang: "may_settle act db r \<noteq> Inl Never_settles"
  by (auto simp: may_settle_def and_then_Inl_iff split: step_action.splits option.splits if_splits)

lemmas leaf_no_hang =
  parse_steps_no_hang load_goal_no_hang claimPlanStep_no_hang may_settle_no_hang
  check_all_no_hang [OF validate_link_no_hang]

lemma commit_returns:
  assumes inv: "plan_inv db"
    and ids: "inj new_id" "\<And>x. x \<notin> clientId ` set (plan_rows db) \<Longrightarrow> new_id x \<notin> row_id ` set (plan_rows db)"
  shows "commitPlanUpdate new_id inp secrets db \<noteq> Inl Never_settles"
proof
  let ?steps = "ui_steps inp" and ?v = "planRevision (goal db) + 1" and ?E = "plan_rows db"
  assume "commitPlanUpdate new_id inp secrets db = Inl Never_settles"
  then have valid: "validatePlanShape ?steps ?E = Inr ()"
      and never: "with_settled_rows ?v
        (cancel_omitted ?v ?steps ?E (write_steps new_id ?v ?E 0 ?steps ?E)) db = Inl Never_settles"
    by (auto simp: commitPlanUpdate_def Let_def and_then_Inl_iff assertPlanRunning_def based_on_def
        validatePlanOwners_def validatePlanShape_def dest!: check_all_Inl simp del: One_nat_def)
  have E: "plan_shape_ok ?E" using inv by (simp add: plan_inv_def)
  have uniq: "unique_rows ?E" and dist: "distinct (map in_id ?steps)"
    using E valid by (auto simp: plan_shape_ok_def validatePlanShape_def)
  obtain old new where rows: "cancel_omitted ?v ?steps ?E (write_steps new_id ?v ?E 0 ?steps ?E) = old @ new"
      and old: "list_all2 (edited ?v ?steps) ?E old"
      and new: "list_all2 (new_row ?v new_id) (filter (\<lambda>s. in_id s \<notin> clientId ` set ?E) ?steps) new"
    using edited_rows [OF uniq dist ids(2)] .
  from edited_shape_ok [OF E valid ids(2) ids(1) old new] have "plan_shape_ok (old @ new)" .
  with never show False unfolding rows using with_settled_rows_returns by blast
qed

text \<open>
  C37. In every reachable plan the loop over statuses ends, whatever transaction runs: an update, an
  outcome, a cancellation or a reopening is refused or stored, and never hangs.
\<close>

theorem plan_loops_end:
  assumes "plan_reachable db" and "fresh_ids env db"
  shows "updateGoalPlan env who inp db \<noteq> Inl Never_settles \<and>
    recordGoalPlanStepOutcome env readable who oinp db \<noteq> Inl Never_settles \<and>
    settleGoalPlanStep env who ainp db \<noteq> Inl Never_settles"
proof (intro conjI)
  have inv: "plan_inv db" by (rule plan_reachable_inv [OF assms(1)])
  then have shape: "plan_shape_ok (plan_rows db)" by (simp add: plan_inv_def)
  have "commitPlanUpdate (env_row env) i secrets db \<noteq> Inl Never_settles" for i secrets
    using commit_returns [OF inv] assms(2) by (simp add: fresh_ids_def)
  then show "updateGoalPlan env who inp db \<noteq> Inl Never_settles"
    unfolding updateGoalPlan_def
    by (intro no_hang) (simp_all add: leaf_no_hang)
  have "with_settled_rows v (update_where x (finish_row w out) (plan_rows db)) base \<noteq> Inl Never_settles"
    for v x w out base
    by (intro with_settled_rows_returns update_where_shape [OF shape]) (simp add: finish_row_def)
  then show "recordGoalPlanStepOutcome env readable who oinp db \<noteq> Inl Never_settles"
    unfolding recordGoalPlanStepOutcome_def Let_def validateGoalConditionSupport_def
    by (intro no_hang) (simp_all add: leaf_no_hang)
  have "with_settled_rows v (update_where x (case act of Cancel_step \<Rightarrow> cancel_row w | Reopen_step \<Rightarrow> reopen_row w s)
      (plan_rows db)) base \<noteq> Inl Never_settles" for v x w s act base
    by (intro with_settled_rows_returns update_where_shape [OF shape])
      (simp add: cancel_row_def reopen_row_def split: step_action.split)
  then show "settleGoalPlanStep env who ainp db \<noteq> Inl Never_settles"
    unfolding settleGoalPlanStep_def Let_def
    by (intro no_hang) (simp_all add: leaf_no_hang)
qed

text \<open>
  C3. In every reachable plan, rows and step ids are unique, every prerequisite is a step, no step is
  its own prerequisite over any chain, and a step that is not settled is blocked exactly when a chain of
  outstanding prerequisites leads to a cancelled one.
\<close>

theorem plan_stays_consistent:
  assumes "plan_reachable db"
  shows "distinct (map row_id (plan_rows db)) \<and> distinct (map clientId (plan_rows db)) \<and>
    acyclic (plan_edges (plan_graph (plan_rows db))) \<and>
    (\<forall>r \<in> set (plan_rows db). set (prerequisiteIds r) \<subseteq> clientId ` set (plan_rows db) \<and>
       (step_status r = Step_blocked \<longleftrightarrow> stuck (plan_rows db) (clientId r)))"
proof -
  have shape: "plan_shape_ok (plan_rows db)" and statuses: "statuses_ok (plan_rows db)"
    using plan_reachable_inv [OF assms] by (simp_all add: plan_inv_def)
  have "step_status r = Step_blocked \<longleftrightarrow> stuck (plan_rows db) (clientId r)" if r: "r \<in> set (plan_rows db)" for r
  proof -
    have "outstanding (step_status r)" if stuck: "stuck (plan_rows db) (clientId r)"
    proof -
      from stuck obtain q where q: "q \<in> set (plan_rows db)" "clientId r = clientId q" "outstanding (step_status q)"
        by cases auto
      then have "r = q" using same_row [OF _ r q(1)] shape by (simp add: plan_shape_ok_def unique_rows_def)
      then show ?thesis using q(3) by simp
    qed
    then have "settled_status (plan_rows db) r = Step_blocked \<longleftrightarrow> stuck (plan_rows db) (clientId r)"
      by (auto simp: settled_status_def outstanding_def)
    then show ?thesis by (simp only: statuses_ok_settled [OF shape statuses r, symmetric])
  qed
  then show ?thesis using shape by (simp add: plan_shape_ok_def unique_rows_def graphHasCycle_iff)
qed

text \<open>
  C2. A step is never worked on twice at the same time: of two different runs it was handed to, under
  whatever revisions, at most one is not over.
\<close>

theorem one_live_run_per_step:
  assumes "plan_reachable db"
    and "handoffs db (admissionKey x v) = Some (Some y)" and "handoffs db (admissionKey x w) = Some (Some z)"
    and "y \<noteq> z"
  shows "\<exists>u \<in> {y, z}. \<exists>p. runs db u = Some p \<and> isTerminal (pr_status p)"
proof -
  have inv: "plan_inv db" by (rule plan_reachable_inv [OF assms(1)])
  from inv assms(2) have "\<exists>r \<in> set (plan_rows db). row_id r = x \<and> (dispatchRunId r = Some y \<or> \<not> run_live db y)"
      and y: "runs db y \<noteq> None"
    unfolding plan_inv_def handed_ok_def by blast+
  moreover from inv assms(3)
  have "\<exists>r \<in> set (plan_rows db). row_id r = x \<and> (dispatchRunId r = Some z \<or> \<not> run_live db z)"
      and z: "runs db z \<noteq> None"
    unfolding plan_inv_def handed_ok_def by blast+
  moreover have "r = q" if "r \<in> set (plan_rows db)" "q \<in> set (plan_rows db)" "row_id r = row_id q" for r q
    using inv that by (auto simp: plan_inv_def plan_shape_ok_def unique_rows_def distinct_map inj_on_def)
  ultimately have "\<not> run_live db y \<or> \<not> run_live db z" using assms(4) by (metis option.inject)
  then show ?thesis using y z by (auto simp: run_live_def)
qed

section \<open>A sample plan\<close>

text \<open>Planned, handed out, failed, reopened and handed out again.\<close>

definition sample_db :: plan_db where
  "sample_db = \<lparr>goal = \<lparr>goal_id = js ''g'', goal_space = js ''s'', goal_user = js ''u'', goal_group = js ''r'',
       goal_thread = js ''t'', goal_coordinator = js ''c'', goal_rootTask = js ''o'',
       goal_status = Goal_running, planRevision = 3\<rparr>,
     plan_rows = [],
     group_row = \<lparr>pg_space = js ''s'', pg_user = js ''u'', pg_archived = False,
       pg_coordinator = Some (js ''c''), pg_thread = Some (js ''t''),
       pg_members = [\<lparr>gm_botId = js ''m'', gm_name = js ''M'', gm_archived = False\<rparr>]\<rparr>,
     runs = Map.empty, artifacts = Map.empty, evidence_rows = Map.empty, handoffs = Map.empty,
     delegations = Map.empty, plan_events = []\<rparr>"

definition sample_owner :: plan_authority where
  "sample_owner = By_owner \<lparr>pa_space = js ''s'', pa_user = js ''u'', pa_deploymentOwner = True\<rparr> (js ''g'')"

definition sample_env :: "string \<Rightarrow> plan_env" where
  "sample_env w = \<lparr>env_now = js ''n'', env_wake = js w, env_row = (\<lambda>x. js ''r'' @ x)\<rparr>"

definition sample_step :: "string \<Rightarrow> string list \<Rightarrow> step_input" where
  "sample_step x ps = \<lparr>in_id = js x, in_title = js ''W'', in_owner = js ''m'', in_ownerIsUser = False,
     in_condition = js ''D'', in_prerequisites = map js ps\<rparr>"

definition sample_dispatch_env :: "string \<Rightarrow> dispatch_env" where
  "sample_dispatch_env y = \<lparr>de_sourceRunning = True, de_admit = (\<lambda>_ _ _. Admitted (js ''d'') None None),
     de_runId = js y, de_now = js ''n''\<rparr>"

definition sample_caller :: plan_caller where
  "sample_caller = \<lparr>pc_id = js ''c'', pc_space = js ''s'', pc_user = js ''u'', pc_thread = js ''t'', pc_bot = js ''c''\<rparr>"

definition sample_row :: "string \<Rightarrow> nat \<Rightarrow> string list \<Rightarrow> nat \<Rightarrow> step_status \<Rightarrow> string option \<Rightarrow> plan_step" where
  "sample_row x i ps v status y = \<lparr>row_id = js ''r'' @ js x, clientId = js x, step_revision = v, step_position = i,
     step_title = js ''W'', step_owner = js ''m'', ownerIsUser = False, step_condition = js ''D'',
     step_status = status, prerequisiteIds = map js ps, step_outcome = None, dispatchRunId = map_option js y,
     dispatchDelegationId = map_option (\<lambda>_. js ''d'') y,
     step_dispatch = map_option (\<lambda>y. \<lparr>ho_runId = js y, ho_delegationId = js ''d'', ho_dispatchedAt = js ''n''\<rparr>) y\<rparr>"

definition sample_run :: "run_status \<Rightarrow> js_string option \<Rightarrow> js_string option \<Rightarrow> plan_run" where
  "sample_run status g t = \<lparr>pr_status = status, pr_space = js ''s'', pr_user = js ''u'', pr_goal = g, pr_rootTask = t\<rparr>"

definition sample_state :: "nat \<Rightarrow> plan_step list \<Rightarrow> (js_string \<times> plan_run) list \<Rightarrow> (nat \<times> string) list \<Rightarrow>
    plan_event list \<Rightarrow> plan_db" where
  "sample_state v rows rs hs events = sample_db\<lparr>goal := (goal sample_db)\<lparr>planRevision := v\<rparr>, plan_rows := rows,
     runs := foldl (\<lambda>m (y, p). m(y \<mapsto> p)) Map.empty rs,
     handoffs := foldl (\<lambda>m (u, y). m(admissionKey (js ''ra'') u \<mapsto> Some (js y))) Map.empty hs,
     delegations := foldl (\<lambda>m (u, y). m(js y \<mapsto> js ''d'')) Map.empty hs, plan_events := events\<rparr>"

definition sample_plan :: plan_db where
  "sample_plan = sample_state 4 [sample_row ''a'' 0 [] 4 Step_pending None, sample_row ''b'' 1 [''a''] 4 Step_pending None]
     [] [] [Plan_updated 4 2]"

definition sample_handed :: plan_db where
  "sample_handed = sample_state 4 [sample_row ''a'' 0 [] 4 Step_active (Some ''y''), sample_row ''b'' 1 [''a''] 4 Step_pending None]
     [(js ''y'', sample_run Queued None None)] [(4, ''y'')]
     [Plan_updated 4 2, Goal_assigned (js ''d'') (js ''m'') (js ''a'') (admissionKey (js ''ra'') 4)]"

lemma sample_dispatch: "dispatchStep (sample_dispatch_env ''y'') sample_caller (hd (plan_rows sample_plan)) sample_plan =
   (Dispatched (js ''y''), sample_handed)"
  by (simp add: dispatchStep_def hand_out_def markGoalPlanStepDispatched_def sample_dispatch_env_def sample_caller_def
     sample_plan_def sample_handed_def sample_state_def sample_db_def sample_row_def sample_run_def still_ready_def active_members_def
     prerequisites_done_def log_event_def Let_def flip: js_append)

lemma sample_update: "updateGoalPlan (sample_env ''w'') sample_owner
     \<lparr>ui_baseRevision = 3, ui_steps = [sample_step ''a'' [], sample_step ''b'' [''a'']]\<rparr> sample_db = Inr sample_plan"
proof -
  let ?steps = "[sample_step ''a'' [], sample_step ''b'' [''a'']]"
  let ?new = "env_row (sample_env ''w'')"
  let ?rows = "cancel_omitted 4 ?steps (plan_rows sample_db)
      (write_steps ?new 4 (plan_rows sample_db) 0 ?steps (plan_rows sample_db))"
  let ?db1 = "sample_db\<lparr>plan_rows := plan_rows sample_plan\<rparr>"
  have parsed: "(input_goal_ok sample_owner \<and> 0 < (3 :: int) \<and> length ?steps \<le> 50) = True"
    and steps: "parse_steps ?steps = Inr ?steps"
    and shape: "validatePlanShape ?steps (plan_rows sample_db) = Inr ()"
    and kept: "check_all (\<lambda>s. check (keeps_definition None (plan_rows sample_db) s) (Conflict Step_settled)) ?steps = Inr ()"
    by code_simp+
  have loaded: "load_goal sample_owner sample_db = Inr ()"
    and secrets: "authority_secrets sample_owner = None"
    and nxt: "planRevision (goal sample_db) + 1 = 4"
    and running: "assertPlanRunning sample_db = Inr ()"
    and based: "based_on 3 sample_db = Inr ()" "based_on 3 ?db1 = Inr ()"
    and owners: "validatePlanOwners sample_db ?steps = Inr ()"
    by (simp_all add: sample_owner_def sample_db_def assertPlanRunning_def based_on_def validatePlanOwners_def
        sample_step_def active_members_def)
  have "recomputePlanStepStatuses 4 ?rows = Some (plan_rows sample_plan)" by code_simp
  then have settled: "with_settled_rows 4 ?rows sample_db = Inr ?db1"
    by (simp only: with_settled_rows_def option.case)
  have stored: "wake_owner_edit (sample_env ''w'') sample_owner
      (log_event (Plan_updated 4 (length ?steps)) (set_revision 4 ?db1)) = sample_plan"
    by (auto simp: wake_owner_edit_def queueGoalPlanWake_def set_revision_def log_event_def sample_db_def
        sample_plan_def sample_state_def active_members_def)
  have "commitPlanUpdate ?new \<lparr>ui_baseRevision = 3, ui_steps = ?steps\<rparr> None sample_db =
      Inr (log_event (Plan_updated 4 (length ?steps)) (set_revision 4 ?db1))"
    by (simp only: commitPlanUpdate_def Let_def update_input.simps nxt running based owners shape kept settled
        and_then_simps)
  then show ?thesis
    by (simp only: updateGoalPlan_def update_input.simps parsed steps loaded secrets check_simps and_then_simps stored)
qed

definition sample_failed :: plan_db where
  "sample_failed = sample_state 4 (plan_rows sample_handed) [(js ''y'', sample_run Failed None None)] [(4, ''y'')]
     (plan_events sample_handed)"

definition sample_reopened :: plan_db where
  "sample_reopened = sample_state 5 [sample_row ''a'' 0 [] 5 Step_pending None, sample_row ''b'' 1 [''a''] 4 Step_pending None]
     [(js ''y'', sample_run Failed None None)] [(4, ''y'')]
     (plan_events sample_handed @ [Plan_step_event (js ''a'') Reopen_step 5])"

definition sample_again :: plan_db where
  "sample_again = sample_state 5 [sample_row ''a'' 0 [] 5 Step_active (Some ''z''), sample_row ''b'' 1 [''a''] 4 Step_pending None]
     [(js ''y'', sample_run Failed None None), (js ''z'', sample_run Queued None None)] [(4, ''y''), (5, ''z'')]
     (plan_events sample_reopened @ [Goal_assigned (js ''d'') (js ''m'') (js ''a'') (admissionKey (js ''ra'') 5)])"

lemma sample_reopen: "settleGoalPlanStep (sample_env ''w'') sample_owner
     \<lparr>ai_stepId = js ''a'', ai_baseRevision = 4, ai_action = Reopen_step\<rparr> sample_failed = Inr sample_reopened"
proof -
  let ?step = "sample_row ''a'' 0 [] 4 Step_active (Some ''y'')"
  let ?rows = "update_where (row_id ?step) (reopen_row 5 (deriveStatus Step_pending
      (status_map (plan_rows sample_failed)) (prerequisiteIds ?step))) (plan_rows sample_failed)"
  let ?db1 = "(set_revision 5 sample_failed)\<lparr>plan_rows := plan_rows sample_reopened\<rparr>"
  have parsed: "(input_goal_ok sample_owner \<and> valid_step_id (js ''a'') \<and> 0 < (4 :: int)) = True" by code_simp
  have loaded: "load_goal sample_owner sample_failed = Inr ()"
    by (simp add: sample_owner_def sample_failed_def sample_state_def sample_db_def)
  have claimed: "claimPlanStep (js ''a'') 4 sample_failed = Inr ?step"
    by (simp add: claimPlanStep_def assertPlanRunning_def based_on_def sample_failed_def sample_handed_def sample_state_def
        sample_db_def sample_row_def)
  have may: "may_settle Reopen_step sample_failed ?step = Inr ()"
    by (simp add: may_settle_def falsy_def sample_failed_def sample_state_def sample_row_def sample_run_def
        isTerminal_def terminal_statuses_def)
  have nxt: "planRevision (goal sample_failed) + 1 = 5" by (simp add: sample_failed_def sample_state_def)
  have "recomputePlanStepStatuses 5 ?rows = Some (plan_rows sample_reopened)" by code_simp
  then have settled: "with_settled_rows 5 ?rows (set_revision 5 sample_failed) = Inr ?db1"
    by (simp only: with_settled_rows_def option.case)
  have stored: "wake_owner_edit (sample_env ''w'') sample_owner
      (log_event (Plan_step_event (clientId ?step) Reopen_step 5) ?db1) = sample_reopened"
    by (auto simp: wake_owner_edit_def queueGoalPlanWake_def set_revision_def log_event_def sample_db_def
        sample_failed_def sample_reopened_def sample_state_def active_members_def sample_row_def)
  show ?thesis
    by (simp only: settleGoalPlanStep_def Let_def action_input.simps parsed loaded claimed may nxt
        check_simps and_then_simps step_action.case settled stored)
qed

lemma sample_dispatch_again: "dispatchStep (sample_dispatch_env ''z'') sample_caller (hd (plan_rows sample_reopened)) sample_reopened =
   (Dispatched (js ''z''), sample_again)"
  by (simp add: dispatchStep_def hand_out_def markGoalPlanStepDispatched_def sample_dispatch_env_def sample_caller_def
     sample_reopened_def sample_again_def sample_state_def sample_db_def sample_row_def sample_run_def still_ready_def active_members_def
     prerequisites_done_def log_event_def Let_def admissionKey_inject flip: js_append)

lemma sample_fresh:
  assumes "map row_id (plan_rows db) = map (\<lambda>x. js ''r'' @ x) (map clientId (plan_rows db))"
    and "runs db (js ''w'') = None"
  shows "fresh_ids (sample_env ''w'') db"
proof -
  have "row_id ` set (plan_rows db) = (\<lambda>x. js ''r'' @ x) ` clientId ` set (plan_rows db)"
    using assms(1) by (metis list.set_map)
  then show ?thesis using assms(2) by (auto simp: fresh_ids_def sample_env_def inj_def)
qed

lemmas sample_defs =
  sample_db_def sample_state_def sample_plan_def sample_handed_def sample_failed_def sample_reopened_def
  sample_again_def sample_row_def sample_run_def sample_dispatch_env_def

lemma sample_reachable: "plan_reachable sample_plan" "plan_reachable sample_again"
proof -
  have 0: "plan_reachable sample_db"
    by (rule plan_reachable.start) (simp add: plan_start_def sample_db_def)
  show 1: "plan_reachable sample_plan"
    by (rule plan_reachable.move [OF 0 plan_move.update [OF sample_update sample_fresh]]) (simp_all add: sample_db_def)
  have 2: "plan_reachable sample_handed"
    by (rule plan_reachable.move [OF 1 plan_move.dispatch [OF sample_dispatch]]) (simp_all add: sample_defs)
  have "sample_failed = sample_handed\<lparr>runs := (runs sample_handed)(js ''y'' \<mapsto>
      (sample_run Queued None None)\<lparr>pr_status := Failed\<rparr>)\<rparr>"
    by (simp add: sample_defs)
  then have 3: "plan_reachable sample_failed"
    using plan_reachable.move [OF 2 plan_move.run_moves [of sample_handed "js ''y''" "sample_run Queued None None" Failed]]
    by (simp add: sample_defs isTerminal_def terminal_statuses_def)
  have 4: "plan_reachable sample_reopened"
    by (rule plan_reachable.move [OF 3 plan_move.settle [OF sample_reopen sample_fresh]])
      (simp_all add: sample_defs flip: js_append)
  show "plan_reachable sample_again"
    by (rule plan_reachable.move [OF 4 plan_move.dispatch [OF sample_dispatch_again]]) (simp_all add: sample_defs)
qed

theorem one_live_run_per_step_witness:
  "\<exists>u \<in> {js ''y'', js ''z''}. \<exists>p. runs sample_again u = Some p \<and> isTerminal (pr_status p)"
proof -
  have "handoffs sample_again (admissionKey (js ''ra'') 4) = Some (Some (js ''y''))"
    and "handoffs sample_again (admissionKey (js ''ra'') 5) = Some (Some (js ''z''))"
    and "js ''y'' \<noteq> js ''z''"
    by (simp_all add: sample_defs admissionKey_inject)
  then show ?thesis by (rule one_live_run_per_step [OF sample_reachable(2)])
qed

theorem plan_stays_consistent_witness:
  "acyclic (plan_edges (plan_graph (plan_rows sample_plan))) \<and> length (plan_rows sample_plan) = 2"
  using plan_stays_consistent [OF sample_reachable(1)] by (simp add: sample_defs)

theorem plan_loops_end_witness:
  "updateGoalPlan (sample_env ''w'') sample_owner \<lparr>ui_baseRevision = 5, ui_steps = []\<rparr> sample_again
     \<noteq> Inl Never_settles"
proof -
  have "fresh_ids (sample_env ''w'') sample_again" by (rule sample_fresh) (simp_all add: sample_defs flip: js_append)
  from plan_loops_end [OF sample_reachable(2) this] show ?thesis by blast
qed

end
