(* ===== verification/Command_Blocks.thy ===== *)
theory Command_Blocks
  imports Run_State "HOL-Library.AList"
begin

text \<open>
  The cards of shell commands in a thread (\<open>packages/core/src/command-blocks.ts\<close>, shapes of
  \<open>packages/contracts/src/command-blocks.ts\<close>) and the rows the database keeps of them
  (\<open>packages/db/src/command-blocks.ts\<close>), with the transaction that appends an event of
  \<open>packages/db/src/events.ts\<close>. A thread keeps its cards in three places: as rows, in the projection of its
  log, and among the messages a client has loaded. A \<open>Map\<close> with string keys is an association list in insertion
  order. Payloads are typed, \<open>None\<close> where one does not parse, and taken as \<open>sanitizeJsonValue\<close> leaves
  them. \<open>Date.parse\<close> is a parameter
  that gives milliseconds, or \<open>None\<close> for \<open>NaN\<close>; durations are rationals.
\<close>

section \<open>Blocks, events and links\<close>

datatype command_outcome = Cmd_waiting | Cmd_running | Cmd_completed | Cmd_cancelled | Cmd_unknown

record command_block =
  commandId :: js_string
  cb_runId :: js_string
  attemptId :: "js_string option"
  cb_executionId :: js_string
  cb_command :: "js_string option"
  cb_cwd :: "js_string option"
  cb_computerId :: "js_string option"
  cb_computer :: "js_string option"
  startedAt :: "js_string option"
  durationMs :: "rat option"
  exitCode :: "int option"
  cb_outcome :: command_outcome
  cb_stdout :: "js_string option"
  cb_stderr :: "js_string option"
  cb_error :: "js_string option"
  refusalId :: "js_string option"
  cb_redacted :: bool
  cb_truncated :: bool
  replayOf :: "js_string option"
  rerunDisabledReason :: "js_string option"
  cb_fence :: "nat option"
  resumedFrom :: "js_string list option"

record tool_link =
  link_from :: js_string
  link_to :: js_string
  fromCommandId :: "js_string option"
  toCommandId :: "js_string option"

text \<open>\<open>ToolResumedPayloadSchema.safeParse\<close>: non-empty ids, and both command ids or neither.\<close>

definition parse_link :: "tool_link \<Rightarrow> tool_link option" where
  "parse_link l =
     (if link_from l \<noteq> [] \<and> link_to l \<noteq> [] \<and> fromCommandId l \<noteq> Some [] \<and> toCommandId l \<noteq> Some [] \<and>
         (fromCommandId l = None \<longleftrightarrow> toCommandId l = None)
      then Some l else None)"

datatype command_kind = Cmd_intent | Cmd_started | Cmd_finished

datatype command_event_body =
    Command_recorded command_kind "command_block option"
  | Call_resumed "tool_link option"
  | Run_ended
  | Tool_event js_string "js_string option"
  | Unrelated_event

record command_event =
  ce_id :: js_string
  ce_seq :: nat
  ce_runId :: "js_string option"
  ce_threadId :: js_string
  ce_botId :: "js_string option"
  ce_createdAt :: js_string
  ce_body :: command_event_body

definition parsed_link :: "tool_link option \<Rightarrow> tool_link option" where
  "parsed_link payload = (case payload of None \<Rightarrow> None | Some l \<Rightarrow> parse_link l)"

section \<open>One card\<close>

definition settleCommandBlock :: "command_block \<Rightarrow> bool \<Rightarrow> command_block" where
  "settleCommandBlock b live =
     (if live \<or> cb_outcome b \<noteq> Cmd_running \<and> cb_outcome b \<noteq> Cmd_waiting then b
      else b\<lparr>cb_outcome := Cmd_unknown\<rparr>)"

record command_run =
  cr_status :: run_status
  leaseFence :: nat
  leaseExpiresAt :: "int option"
  run_attempts :: "(js_string \<times> nat) list"

definition commandRecordingIsLive :: "int \<Rightarrow> command_block \<Rightarrow> command_run option \<Rightarrow> bool" where
  "commandRecordingIsLive now b run_opt =
     (case run_opt of
        None \<Rightarrow> False
      | Some r \<Rightarrow>
          if \<not> (\<exists>a \<in> set (run_attempts r). Some (fst a) = attemptId b \<and> snd a = leaseFence r) then False
          else cb_outcome b = Cmd_waiting \<and> cr_status r = Waiting_input \<or>
            (cr_status r = Running \<or> cr_status r = Leased) \<and>
            (case leaseExpiresAt r of None \<Rightarrow> False | Some t \<Rightarrow> t > now))"

definition block_fence :: "command_block \<Rightarrow> nat" where
  "block_fence b = (case cb_fence b of None \<Rightarrow> 0 | Some n \<Rightarrow> n)"

definition replacesCommandBlock :: "command_block option \<Rightarrow> command_block \<Rightarrow> bool" where
  "replacesCommandBlock shown nxt =
     (case shown of
        None \<Rightarrow> True
      | Some b \<Rightarrow> commandId b \<noteq> commandId nxt \<or> block_fence b \<le> block_fence nxt)"

definition resumedCommandMessageId :: "js_string \<Rightarrow> js_string" where
  "resumedCommandMessageId c = js ''command:resumed:'' @ c"

record command_joins =
  resumedAway :: bool
  joined :: bool

definition commandJoins :: "tool_link option list \<Rightarrow> js_string \<Rightarrow> command_joins" where
  "commandJoins links c =
     fold (\<lambda>payload j.
         case parsed_link payload of
           None \<Rightarrow> j
         | Some l \<Rightarrow> \<lparr>resumedAway = resumedAway j \<or> fromCommandId l = Some c,
                     joined = joined j \<or> toCommandId l = Some c\<rparr>)
       links \<lparr>resumedAway = False, joined = False\<rparr>"

definition commandCardId :: "js_string \<Rightarrow> command_joins \<Rightarrow> js_string option" where
  "commandCardId c j =
     (if resumedAway j then None
      else Some (if joined j then resumedCommandMessageId c else js ''command:'' @ c))"

record resumed_ids =
  ids_from :: js_string
  ids_to :: js_string
  ids_fromCommandId :: js_string

definition resumedCardIds :: "tool_link \<Rightarrow> (js_string \<Rightarrow> command_joins) \<Rightarrow> resumed_ids option" where
  "resumedCardIds l joinsBefore =
     (if falsy (fromCommandId l) \<or> falsy (toCommandId l) then None
      else let c = the (fromCommandId l) in
        case commandCardId c (joinsBefore c) of
          None \<Rightarrow> None
        | Some f \<Rightarrow> Some \<lparr>ids_from = f, ids_to = resumedCommandMessageId (the (toCommandId l)),
            ids_fromCommandId = c\<rparr>)"

definition resumeCommandCard :: "command_block \<Rightarrow> js_string \<Rightarrow> command_block" where
  "resumeCommandCard b c =
     b\<lparr>resumedFrom := Some (uniq ((case resumedFrom b of None \<Rightarrow> [] | Some cs \<Rightarrow> cs) @ [c]))\<rparr>"

definition start_of :: "(js_string \<Rightarrow> int option) \<Rightarrow> command_block \<Rightarrow> int option" where
  "start_of date_parse b = (if falsy (startedAt b) then None else date_parse (the (startedAt b)))"

definition mergeResumedCommand ::
    "(js_string \<Rightarrow> int option) \<Rightarrow> command_block \<Rightarrow> command_block \<Rightarrow> command_block" where
  "mergeResumedCommand date_parse earlier later =
     (let both = (case resumedFrom earlier of None \<Rightarrow> later | Some cs \<Rightarrow> later\<lparr>resumedFrom := Some cs\<rparr>) in
      case start_of date_parse earlier of
        None \<Rightarrow> both
      | Some f \<Rightarrow>
          (case start_of date_parse later of
             None \<Rightarrow> both\<lparr>startedAt := startedAt earlier\<rparr>
           | Some s \<Rightarrow>
               if s \<le> f then both
               else both\<lparr>startedAt := startedAt earlier,
                 durationMs := map_option (\<lambda>d. of_int s + d - of_int f) (durationMs later)\<rparr>))"

definition nextCommandCard ::
    "(js_string \<Rightarrow> int option) \<Rightarrow> js_string \<Rightarrow> command_block option \<Rightarrow> command_block \<Rightarrow> command_block option" where
  "nextCommandCard date_parse cid shown nxt =
     (if \<not> replacesCommandBlock shown nxt then None
      else case shown of
        Some b \<Rightarrow> if cid = resumedCommandMessageId (commandId nxt)
          then Some (mergeResumedCommand date_parse b nxt) else Some nxt
      | None \<Rightarrow> Some nxt)"

section \<open>The projection of a log\<close>

type_synonym cards = "(js_string \<times> command_block) list"

record cards_state =
  cards :: cards
  legacy :: cards
  finishedRuns :: "js_string list"
  recordedExecutions :: "js_string list"
  run_links :: "js_string \<Rightarrow> tool_link list"
  seen :: "js_string list"

definition no_cards :: cards_state where
  "no_cards = \<lparr>cards = [], legacy = [], finishedRuns = [], recordedExecutions = [], run_links = (\<lambda>_. []),
     seen = []\<rparr>"

definition execution_key :: "js_string \<Rightarrow> js_string \<Rightarrow> js_string" where
  "execution_key r x = r @ 58 # x"

definition legacy_block :: "js_string \<Rightarrow> js_string \<Rightarrow> command_block" where
  "legacy_block r x =
     \<lparr>commandId = js ''legacy:'' @ execution_key r x, cb_runId = r, attemptId = None, cb_executionId = x,
      cb_command = None, cb_cwd = None, cb_computerId = None, cb_computer = None, startedAt = None,
      durationMs = None, exitCode = None, cb_outcome = Cmd_unknown, cb_stdout = None, cb_stderr = None,
      cb_error = None, refusalId = None, cb_redacted = False, cb_truncated = False, replayOf = None,
      rerunDisabledReason = Some (js ''The original command was not recorded.''), cb_fence = None,
      resumedFrom = None\<rparr>"

text \<open>The cards after a link: the killed call's card, in its place, under the resumed call's id.\<close>

definition hand_card_over :: "resumed_ids \<Rightarrow> cards \<Rightarrow> cards" where
  "hand_card_over ids cs =
     (if map_of cs (ids_from ids) = None \<or> map_of cs (ids_to ids) \<noteq> None then cs
      else map (\<lambda>(i, b). if i = ids_from ids
        then (ids_to ids, resumeCommandCard b (ids_fromCommandId ids)) else (i, b)) cs)"

definition take_link :: "js_string \<Rightarrow> tool_link \<Rightarrow> cards_state \<Rightarrow> cards_state" where
  "take_link r l s =
     (let prior = run_links s r;
          s' = s\<lparr>run_links := (run_links s)(r := prior @ [l]),
            legacy := AList.delete (execution_key r (link_from l)) (legacy s)\<rparr>
      in case resumedCardIds l (commandJoins (map Some prior)) of
           None \<Rightarrow> s'
         | Some ids \<Rightarrow> s'\<lparr>cards := hand_card_over ids (cards s)\<rparr>)"

definition take_block :: "(js_string \<Rightarrow> int option) \<Rightarrow> command_block \<Rightarrow> cards_state \<Rightarrow> cards_state" where
  "take_block date_parse b s =
     (let s' = s\<lparr>recordedExecutions := execution_key (cb_runId b) (cb_executionId b) # recordedExecutions s\<rparr>
      in case commandCardId (commandId b) (commandJoins (map Some (run_links s (cb_runId b))) (commandId b)) of
           None \<Rightarrow> s'
         | Some cid \<Rightarrow>
             (case nextCommandCard date_parse cid (map_of (cards s) cid) b of
                None \<Rightarrow> s'
              | Some nxt \<Rightarrow> s'\<lparr>cards := AList.update cid nxt (cards s)\<rparr>))"

definition take_tool :: "js_string \<Rightarrow> js_string \<Rightarrow> cards_state \<Rightarrow> cards_state" where
  "take_tool r x s = s\<lparr>legacy := AList.update (execution_key r x) (legacy_block r x) (legacy s)\<rparr>"

definition project_command_event :: "(js_string \<Rightarrow> int option) \<Rightarrow> command_event \<Rightarrow> cards_state \<Rightarrow> cards_state" where
  "project_command_event date_parse e s =
     (if ce_id e \<in> set (seen s) then s
      else let s = s\<lparr>seen := ce_id e # seen s\<rparr> in
        case (ce_body e, ce_runId e) of
          (Run_ended, Some r) \<Rightarrow> if r = [] then s else s\<lparr>finishedRuns := r # finishedRuns s\<rparr>
        | (Call_resumed payload, Some r) \<Rightarrow>
            (case parsed_link payload of
               Some l \<Rightarrow> if r = [] then s else take_link r l s
             | None \<Rightarrow> s)
        | (Command_recorded kind (Some b), r) \<Rightarrow> if Some (cb_runId b) \<noteq> r then s else take_block date_parse b s
        | (Tool_event name (Some x), Some r) \<Rightarrow> if r = [] \<or> name \<noteq> js ''shell'' then s else take_tool r x s
        | _ \<Rightarrow> s)"

definition project_command_events :: "(js_string \<Rightarrow> int option) \<Rightarrow> command_event list \<Rightarrow> cards_state" where
  "project_command_events date_parse events =
     fold (project_command_event date_parse) (sort_key ce_seq events) no_cards"

definition unrecorded_calls :: "cards_state \<Rightarrow> command_block list" where
  "unrecorded_calls s = map snd (filter (\<lambda>(k, b). k \<notin> set (recordedExecutions s)) (legacy s))"

definition projectCommandBlocks ::
    "(js_string \<Rightarrow> int option) \<Rightarrow> js_string list \<Rightarrow> command_event list \<Rightarrow> command_block list" where
  "projectCommandBlocks date_parse live events =
     (let s = project_command_events date_parse events in
      map (\<lambda>b. settleCommandBlock b (cb_runId b \<in> set live \<and> cb_runId b \<notin> set (finishedRuns s)))
        (map snd (cards s) @ unrecorded_calls s))"

section \<open>The rows of the database\<close>

record command_row =
  row_card :: js_string
  row_seq :: nat
  row_botId :: "js_string option"
  row_runId :: "js_string option"
  row_command :: command_block

text \<open>One thread: its events in the order they were stored, and its card rows by message number.\<close>

record command_log =
  log_thread :: js_string
  nextEventSeq :: nat
  nextMessageSeq :: nat
  stored :: "command_event list"
  card_rows :: "command_row list"

definition card_row :: "js_string \<Rightarrow> command_row list \<Rightarrow> command_row option" where
  "card_row cid rows = List.find (\<lambda>r. row_card r = cid) rows"

definition update_card_row :: "js_string \<Rightarrow> (command_row \<Rightarrow> command_row) \<Rightarrow> command_row list \<Rightarrow> command_row list" where
  "update_card_row cid f rows = map (\<lambda>r. if row_card r = cid then f r else r) rows"

definition link_payload :: "command_event \<Rightarrow> tool_link option option" where
  "link_payload e = (case ce_body e of Call_resumed p \<Rightarrow> Some p | _ \<Rightarrow> None)"

definition names_command :: "js_string \<Rightarrow> tool_link option \<Rightarrow> bool" where
  "names_command c payload =
     (case payload of None \<Rightarrow> False | Some l \<Rightarrow> fromCommandId l = Some c \<or> toCommandId l = Some c)"

definition resumeLinks :: "command_event list \<Rightarrow> command_event \<Rightarrow> js_string \<Rightarrow> js_string option \<Rightarrow> tool_link option list" where
  "resumeLinks events e c except =
     (if falsy (ce_runId e) then []
      else filter (names_command c) (List.map_filter link_payload
        (filter (\<lambda>f. ce_threadId f = ce_threadId e \<and> ce_runId f = ce_runId e \<and>
           (falsy except \<or> Some (ce_id f) \<noteq> except)) events)))"

definition materializeResumedCall :: "command_event \<Rightarrow> tool_link option \<Rightarrow> command_log \<Rightarrow> command_log" where
  "materializeResumedCall e payload st =
     (case parsed_link payload of
        None \<Rightarrow> st
      | Some l \<Rightarrow>
          if falsy (fromCommandId l) then st
          else let prior = resumeLinks (stored st) e (the (fromCommandId l)) (Some (ce_id e)) in
            case resumedCardIds l (commandJoins prior) of
              None \<Rightarrow> st
            | Some ids \<Rightarrow>
                if card_row (ids_to ids) (card_rows st) \<noteq> None \<or> card_row (ids_from ids) (card_rows st) = None then st
                else st\<lparr>card_rows := update_card_row (ids_from ids)
                  (\<lambda>r. r\<lparr>row_card := ids_to ids,
                     row_command := resumeCommandCard (row_command r) (ids_fromCommandId ids)\<rparr>) (card_rows st)\<rparr>)"

definition materializeCommandEvent ::
    "(js_string \<Rightarrow> int option) \<Rightarrow> command_event \<Rightarrow> command_log \<Rightarrow> command_log" where
  "materializeCommandEvent date_parse e st =
     (case ce_body e of
        Call_resumed payload \<Rightarrow> materializeResumedCall e payload st
      | Command_recorded kind (Some b) \<Rightarrow>
          (case commandCardId (commandId b)
                  (commandJoins (resumeLinks (stored st) e (commandId b) None) (commandId b)) of
             None \<Rightarrow> st
           | Some cid \<Rightarrow>
               let row = card_row cid (card_rows st) in
               (case nextCommandCard date_parse cid (map_option row_command row) b of
                  None \<Rightarrow> st
                | Some c \<Rightarrow>
                    if row \<noteq> None then st\<lparr>card_rows := update_card_row cid (\<lambda>r. r\<lparr>row_command := c\<rparr>) (card_rows st)\<rparr>
                    else st\<lparr>nextMessageSeq := nextMessageSeq st + 1,
                      card_rows := card_rows st @
                        [\<lparr>row_card = cid, row_seq = nextMessageSeq st, row_botId = ce_botId e,
                          row_runId = ce_runId e, row_command = c\<rparr>]\<rparr>))
      | _ \<Rightarrow> st)"

text \<open>
  \<open>appendEventInTransaction\<close> for one thread. The id and the time the database draws and whether the
  run may still write are arguments; what other events do beside being stored is left out.
\<close>

record append_input =
  ap_runId :: "js_string option"
  ap_botId :: "js_string option"
  ap_body :: command_event_body

datatype append_error = Bad_command_payload | Command_run_mismatch | Run_cannot_write

definition same_delivery :: "append_input \<Rightarrow> command_kind \<Rightarrow> command_block \<Rightarrow> command_event \<Rightarrow> bool" where
  "same_delivery inp kind b e =
     (ce_runId e = ap_runId inp \<and>
      (case ce_body e of
         Command_recorded k (Some old) \<Rightarrow>
           k = kind \<and> commandId old = commandId b \<and> (attemptId b = None \<or> attemptId old = attemptId b)
       | _ \<Rightarrow> False))"

definition redelivered :: "append_input \<Rightarrow> command_log \<Rightarrow> (append_error, command_event option) res" where
  "redelivered inp st =
     (case ap_body inp of
        Command_recorded kind None \<Rightarrow> Inl Bad_command_payload
      | Command_recorded kind (Some b) \<Rightarrow>
          if Some (cb_runId b) \<noteq> ap_runId inp then Inl Command_run_mismatch
          else Inr (List.find (same_delivery inp kind b) (stored st))
      | _ \<Rightarrow> Inr None)"

definition appendEventInTransaction ::
    "(js_string \<Rightarrow> int option) \<Rightarrow> js_string \<Rightarrow> js_string \<Rightarrow> bool \<Rightarrow> append_input \<Rightarrow> command_log \<Rightarrow>
     (append_error, command_event \<times> command_log) res" where
  "appendEventInTransaction date_parse id0 now may_write inp st =
     (let seq = nextEventSeq st; st = st\<lparr>nextEventSeq := seq + 1\<rparr> in
      and_then (redelivered inp st) (\<lambda>existing.
      case existing of
        Some e \<Rightarrow> Inr (e, st)
      | None \<Rightarrow>
          if \<not> may_write then Inl Run_cannot_write
          else let e = \<lparr>ce_id = id0, ce_seq = seq, ce_runId = ap_runId inp, ce_threadId = log_thread st,
                 ce_botId = ap_botId inp, ce_createdAt = now, ce_body = ap_body inp\<rparr>
            in Inr (e, materializeCommandEvent date_parse e (st\<lparr>stored := stored st @ [e]\<rparr>))))"

section \<open>The cards a client shows\<close>

datatype card_block = Command_card command_block | Other_block

record card_message =
  cm_id :: js_string
  cm_threadId :: js_string
  cm_botId :: "js_string option"
  cm_seq :: nat
  cm_runId :: "js_string option"
  cm_createdAt :: js_string
  cm_blocks :: "card_block list"

record command_view =
  cv_messages :: "card_message list"
  cv_links :: "tool_link list"

definition resumed_from :: "command_block \<Rightarrow> js_string list" where
  "resumed_from b = (case resumedFrom b of None \<Rightarrow> [] | Some cs \<Rightarrow> cs)"

definition names_resumed :: "js_string \<Rightarrow> card_block \<Rightarrow> bool" where
  "names_resumed c blk = (case blk of Command_card b \<Rightarrow> c \<in> set (resumed_from b) | Other_block \<Rightarrow> False)"

definition messageJoins :: "card_message list \<Rightarrow> js_string \<Rightarrow> command_joins" where
  "messageJoins ms c =
     \<lparr>resumedAway = (\<exists>m \<in> set ms. \<exists>blk \<in> set (cm_blocks m). names_resumed c blk),
      joined = (\<exists>m \<in> set ms. cm_id m = resumedCommandMessageId c)\<rparr>"

definition implied_links :: "card_block \<Rightarrow> tool_link list" where
  "implied_links blk =
     (case blk of
        Other_block \<Rightarrow> []
      | Command_card b \<Rightarrow> map (\<lambda>c. \<lparr>link_from = c, link_to = commandId b, fromCommandId = Some c,
          toCommandId = Some (commandId b)\<rparr>) (resumed_from b))"

definition impliedCommandLinks :: "card_message list \<Rightarrow> tool_link list" where
  "impliedCommandLinks ms = concat (map (\<lambda>m. concat (map implied_links (cm_blocks m))) ms)"

definition shown_id :: "js_string option \<Rightarrow> js_string" where
  "shown_id c = (case c of None \<Rightarrow> js ''undefined'' | Some c \<Rightarrow> c)"

fun first_links :: "js_string list \<Rightarrow> tool_link list \<Rightarrow> tool_link list" where
  "first_links seen_keys [] = []"
| "first_links seen_keys (l # ls) =
     (let key = shown_id (fromCommandId l) @ 58 # shown_id (toCommandId l) in
      if key \<in> set seen_keys then first_links seen_keys ls else l # first_links (key # seen_keys) ls)"

definition mergeCommandLinks :: "tool_link list \<Rightarrow> card_message list \<Rightarrow> tool_link list" where
  "mergeCommandLinks previous ms = first_links [] (previous @ impliedCommandLinks ms)"

definition readerJoins :: "card_message list \<Rightarrow> tool_link option list \<Rightarrow> js_string \<Rightarrow> command_joins" where
  "readerJoins ms links c =
     \<lparr>resumedAway = (resumedAway (messageJoins ms c) \<or> resumedAway (commandJoins links c)),
      joined = (joined (messageJoins ms c) \<or> joined (commandJoins links c))\<rparr>"

definition map_command :: "(command_block \<Rightarrow> command_block) \<Rightarrow> card_block \<Rightarrow> card_block" where
  "map_command f blk = (case blk of Command_card b \<Rightarrow> Command_card (f b) | Other_block \<Rightarrow> Other_block)"

definition end_run_cards :: "js_string option \<Rightarrow> card_message list \<Rightarrow> card_message list" where
  "end_run_cards r ms =
     map (\<lambda>m. if r = None \<or> cm_runId m \<noteq> r then m
       else m\<lparr>cm_blocks := map (map_command (\<lambda>b. settleCommandBlock b False)) (cm_blocks m)\<rparr>) ms"

definition hand_message_over :: "resumed_ids \<Rightarrow> card_message list \<Rightarrow> card_message list" where
  "hand_message_over ids ms =
     map (\<lambda>m. if cm_id m = ids_from ids
       then m\<lparr>cm_id := ids_to ids,
         cm_blocks := map (map_command (\<lambda>b. resumeCommandCard b (ids_fromCommandId ids))) (cm_blocks m)\<rparr>
       else m) ms"

definition resume_message :: "tool_link \<Rightarrow> command_view \<Rightarrow> command_view" where
  "resume_message l v =
     (let next_links = cv_links v @ [l] in
      case resumedCardIds l (readerJoins (cv_messages v) (map Some (cv_links v))) of
        None \<Rightarrow> v\<lparr>cv_links := next_links\<rparr>
      | Some ids \<Rightarrow>
          if \<exists>m \<in> set (cv_messages v). cm_id m = ids_to ids then v\<lparr>cv_links := next_links\<rparr>
          else \<lparr>cv_messages = hand_message_over ids (cv_messages v), cv_links = next_links\<rparr>)"

definition shown_command :: "card_message option \<Rightarrow> command_block option" where
  "shown_command previous =
     (case previous of
        None \<Rightarrow> None
      | Some m \<Rightarrow> (case cm_blocks m of Command_card b # rest \<Rightarrow> Some b | _ \<Rightarrow> None))"

definition put_message :: "card_message option \<Rightarrow> card_message \<Rightarrow> card_message list \<Rightarrow> card_message list" where
  "put_message previous nxt ms =
     (if previous \<noteq> None then map (\<lambda>m. if cm_id m = cm_id nxt then nxt else m) ms else ms @ [nxt])"

definition show_command ::
    "(js_string \<Rightarrow> int option) \<Rightarrow> (js_string \<Rightarrow> js_string) \<Rightarrow> command_event \<Rightarrow> command_block \<Rightarrow>
     command_view \<Rightarrow> command_view" where
  "show_command date_parse to_iso e projected v =
     (case commandCardId (commandId projected)
             (readerJoins (cv_messages v) (map Some (cv_links v)) (commandId projected)) of
        None \<Rightarrow> v
      | Some cid \<Rightarrow>
          let previous = List.find (\<lambda>m. cm_id m = cid) (cv_messages v) in
          (case nextCommandCard date_parse cid (shown_command previous) projected of
             None \<Rightarrow> v
           | Some b \<Rightarrow>
               let nxt = \<lparr>cm_id = cid, cm_threadId = ce_threadId e, cm_botId = ce_botId e,
                     cm_seq = (case previous of Some m \<Rightarrow> cm_seq m | None \<Rightarrow> ce_seq e),
                     cm_runId = Some (cb_runId b),
                     cm_createdAt = (case previous of Some m \<Rightarrow> cm_createdAt m | None \<Rightarrow> to_iso (ce_createdAt e)),
                     cm_blocks = [Command_card b]\<rparr>
               in v\<lparr>cv_messages := put_message previous nxt (cv_messages v)\<rparr>))"

definition reduceCommandMessages ::
    "(js_string \<Rightarrow> int option) \<Rightarrow> (js_string \<Rightarrow> js_string) \<Rightarrow> command_event \<Rightarrow> command_view \<Rightarrow> command_view" where
  "reduceCommandMessages date_parse to_iso e v =
     (case ce_body e of
        Run_ended \<Rightarrow> v\<lparr>cv_messages := end_run_cards (ce_runId e) (cv_messages v)\<rparr>
      | Call_resumed payload \<Rightarrow> (case parsed_link payload of None \<Rightarrow> v | Some l \<Rightarrow> resume_message l v)
      | Command_recorded kind payload \<Rightarrow>
          (case projectCommandBlocks date_parse (if falsy (ce_runId e) then [] else [the (ce_runId e)]) [e] of
             [] \<Rightarrow> v
           | projected # rest \<Rightarrow> show_command date_parse to_iso e projected v)
      | _ \<Rightarrow> v)"

section \<open>Reloaded history\<close>

definition hydrateCommandMessages ::
    "int \<Rightarrow> (js_string \<Rightarrow> command_run option) \<Rightarrow> card_message list \<Rightarrow> card_message list" where
  "hydrateCommandMessages now runs_by_id ms =
     map (\<lambda>m. m\<lparr>cm_blocks := map (map_command (\<lambda>b.
       settleCommandBlock b (commandRecordingIsLive now b (runs_by_id (cb_runId b))))) (cm_blocks m)\<rparr>) ms"

end
