(* ===== verification/Command_Rows.thy ===== *)
theory Command_Rows
  imports Command_Blocks
begin

text \<open>
  The rows of the command cards against the projection of the log: where links place a command, one event
  at a time, and then any sequence of appends; and the independence of the projection from the order of
  deliveries.
\<close>

section \<open>Where links place a command\<close>

lemma commandJoins_iff:
  "resumedAway (commandJoins links c) \<longleftrightarrow>
     (\<exists>p \<in> set links. \<exists>l. parsed_link p = Some l \<and> fromCommandId l = Some c)"
  "joined (commandJoins links c) \<longleftrightarrow>
     (\<exists>p \<in> set links. \<exists>l. parsed_link p = Some l \<and> toCommandId l = Some c)"
proof -
  have g: "resumedAway (fold (\<lambda>payload j. case parsed_link payload of None \<Rightarrow> j
         | Some l \<Rightarrow> \<lparr>resumedAway = resumedAway j \<or> fromCommandId l = Some c,
                     joined = joined j \<or> toCommandId l = Some c\<rparr>) links j) \<longleftrightarrow>
      resumedAway j \<or> (\<exists>p \<in> set links. \<exists>l. parsed_link p = Some l \<and> fromCommandId l = Some c)"
    "joined (fold (\<lambda>payload j. case parsed_link payload of None \<Rightarrow> j
         | Some l \<Rightarrow> \<lparr>resumedAway = resumedAway j \<or> fromCommandId l = Some c,
                     joined = joined j \<or> toCommandId l = Some c\<rparr>) links j) \<longleftrightarrow>
      joined j \<or> (\<exists>p \<in> set links. \<exists>l. parsed_link p = Some l \<and> toCommandId l = Some c)" for j
    by (induction links arbitrary: j) (auto split: option.splits)
  show "resumedAway (commandJoins links c) \<longleftrightarrow>
      (\<exists>p \<in> set links. \<exists>l. parsed_link p = Some l \<and> fromCommandId l = Some c)"
    "joined (commandJoins links c) \<longleftrightarrow>
      (\<exists>p \<in> set links. \<exists>l. parsed_link p = Some l \<and> toCommandId l = Some c)"
    by (simp_all add: commandJoins_def g)
qed

lemma parse_link_SomeD: "parse_link l = Some l' \<Longrightarrow> l' = l \<and> parse_link l = Some l"
  by (auto simp: parse_link_def split: if_splits)

lemma parsed_link_SomeD: "parsed_link p = Some l \<Longrightarrow> p = Some l \<and> parse_link l = Some l"
  by (auto simp: parsed_link_def split: option.splits dest: parse_link_SomeD)

lemma parsed_linkI: "parse_link l = Some l \<Longrightarrow> parsed_link (Some l) = Some l"
  by (simp add: parsed_link_def)

lemma joins_eqI:
  fixes j k :: command_joins
  assumes "resumedAway j = resumedAway k" and "joined j = joined k"
  shows "j = k"
  using assms by (cases j, cases k) simp

lemma commandJoins_by_parsed:
  "resumedAway (commandJoins links c) \<longleftrightarrow>
     (\<exists>l. (Some l \<in> set links \<and> parse_link l = Some l) \<and> fromCommandId l = Some c)"
  "joined (commandJoins links c) \<longleftrightarrow>
     (\<exists>l. (Some l \<in> set links \<and> parse_link l = Some l) \<and> toCommandId l = Some c)"
  unfolding commandJoins_iff by (auto dest!: parsed_link_SomeD intro: parsed_linkI)

text \<open>The links among some events, as the code that reads them sees them.\<close>

definition event_link :: "command_event \<Rightarrow> tool_link option" where
  "event_link e = (case link_payload e of Some p \<Rightarrow> parsed_link p | None \<Rightarrow> None)"

definition run_links_of :: "command_event list \<Rightarrow> js_string \<Rightarrow> tool_link list" where
  "run_links_of es r = List.map_filter event_link (filter (\<lambda>e. ce_runId e = Some r) es)"

lemma event_link_iff: "event_link e = Some l \<longleftrightarrow> link_payload e = Some (Some l) \<and> parse_link l = Some l"
  by (auto simp: event_link_def parsed_linkI split: option.splits dest: parsed_link_SomeD)

lemma set_map_filter': "set (List.map_filter f xs) = {y. \<exists>x \<in> set xs. f x = Some y}"
  by (induction xs) (auto simp: List.map_filter_simps split: option.splits)

lemma set_run_links_of:
  "l \<in> set (run_links_of es r) \<longleftrightarrow> (\<exists>e \<in> set es. ce_runId e = Some r \<and> event_link e = Some l)"
  by (auto simp: run_links_of_def set_map_filter')

lemma run_links_of_snoc:
  "run_links_of (es @ [e]) r =
     run_links_of es r @ (case event_link e of Some l \<Rightarrow> if ce_runId e = Some r then [l] else [] | None \<Rightarrow> [])"
  by (simp add: run_links_of_def List.map_filter_def split: option.splits)

lemma parsed_run_links: "l \<in> set (run_links_of es r) \<Longrightarrow> parse_link l = Some l"
  by (auto simp: set_run_links_of event_link_iff)

lemma joins_of_run_links:
  "resumedAway (commandJoins (map Some (run_links_of es r)) c) \<longleftrightarrow>
     (\<exists>l \<in> set (run_links_of es r). fromCommandId l = Some c)"
  "joined (commandJoins (map Some (run_links_of es r)) c) \<longleftrightarrow>
     (\<exists>l \<in> set (run_links_of es r). toCommandId l = Some c)"
  by (auto simp: commandJoins_iff dest!: parsed_link_SomeD intro: parsed_linkI parsed_run_links)

text \<open>
  The query for the links of a run that name a command places it as all links of the run do.
\<close>

lemma resumeLinks_joins:
  assumes run: "ce_runId e = Some r" and "r \<noteq> []"
    and "\<forall>f \<in> set es. ce_threadId f = ce_threadId e"
    and "\<forall>f \<in> set es. falsy except \<or> Some (ce_id f) \<noteq> except \<or> link_payload f = None"
  shows "commandJoins (resumeLinks es e c except) c = commandJoins (map Some (run_links_of es r)) c"
    (is "commandJoins ?links c = _")
proof (rule joins_eqI)
  have mem: "Some l \<in> set ?links \<and> parse_link l = Some l \<longleftrightarrow>
      l \<in> set (run_links_of es r) \<and> (fromCommandId l = Some c \<or> toCommandId l = Some c)" for l
  proof -
    have "Some l \<in> set ?links \<longleftrightarrow> (\<exists>f \<in> set es. ce_runId f = Some r \<and> link_payload f = Some (Some l)) \<and>
        (fromCommandId l = Some c \<or> toCommandId l = Some c)"
      using assms by (auto simp: resumeLinks_def set_map_filter' names_command_def falsy_def)
    then show ?thesis by (auto simp: set_run_links_of event_link_iff)
  qed
  then show "resumedAway (commandJoins ?links c) = resumedAway (commandJoins (map Some (run_links_of es r)) c)"
    and "joined (commandJoins ?links c) = joined (commandJoins (map Some (run_links_of es r)) c)"
    unfolding joins_of_run_links commandJoins_by_parsed by auto
qed

lemma resumeLinks_other:
  "resumeLinks (es @ [e]) e c (Some (ce_id e)) = resumeLinks es e c (Some (ce_id e))"
  if "ce_id e \<noteq> []"
  using that by (simp add: resumeLinks_def falsy_def List.map_filter_def)

section \<open>Rows against the projection\<close>

definition row_cards :: "command_row list \<Rightarrow> cards" where
  "row_cards rows = map (\<lambda>r. (row_card r, row_command r)) rows"

lemma map_of_row_cards: "map_of (row_cards rows) c = map_option row_command (card_row c rows)"
  by (induction rows) (auto simp: row_cards_def card_row_def)

lemma card_row_None_iff: "card_row c rows = None \<longleftrightarrow> c \<notin> row_card ` set rows"
  by (induction rows) (auto simp: card_row_def)

lemma keys_row_cards: "map fst (row_cards rows) = map row_card rows"
  by (simp add: row_cards_def o_def)

lemma update_new: "map_of cs c = None \<Longrightarrow> AList.update c b cs = cs @ [(c, b)]"
  by (induction cs) (auto split: if_splits)

lemma update_old:
  "map_of cs c \<noteq> None \<Longrightarrow> distinct (map fst cs) \<Longrightarrow>
     AList.update c b cs = map (\<lambda>(i, x). if i = c then (c, b) else (i, x)) cs"
proof (induction cs)
  case (Cons p cs)
  show ?case
  proof (cases "fst p = c")
    case True
    with Cons.prems have "c \<notin> fst ` set cs" by auto
    then have "map (\<lambda>(i, x). if i = c then (c, b) else (i, x)) cs = cs"
      by (induction cs) auto
    with True show ?thesis by (cases p) simp
  next
    case False
    with Cons show ?thesis by (cases p) simp
  qed
qed simp

lemma row_cards_update:
  assumes "card_row c rows \<noteq> None" and "distinct (map row_card rows)"
  shows "row_cards (update_card_row c (\<lambda>r. r\<lparr>row_command := b\<rparr>) rows) = AList.update c b (row_cards rows)"
proof -
  have "map_of (row_cards rows) c \<noteq> None" "distinct (map fst (row_cards rows))"
    using assms by (simp_all add: map_of_row_cards keys_row_cards)
  note update_old [OF this, of b]
  then show ?thesis by (simp add: row_cards_def update_card_row_def o_def)
qed

lemma row_cards_snoc:
  "card_row (row_card r) rows = None \<Longrightarrow>
     row_cards (rows @ [r]) = AList.update (row_card r) (row_command r) (row_cards rows)"
  by (simp add: update_new map_of_row_cards) (simp add: row_cards_def)

lemma row_cards_handed:
  assumes "card_row (ids_to ids) rows = None" and "card_row (ids_from ids) rows \<noteq> None"
  shows "row_cards (update_card_row (ids_from ids) (\<lambda>r. r\<lparr>row_card := ids_to ids,
      row_command := resumeCommandCard (row_command r) (ids_fromCommandId ids)\<rparr>) rows) =
    hand_card_over ids (row_cards rows)"
proof -
  have "map_of (row_cards rows) (ids_to ids) = None" "map_of (row_cards rows) (ids_from ids) \<noteq> None"
    using assms by (simp_all add: map_of_row_cards)
  then have "hand_card_over ids (row_cards rows) = map (\<lambda>(i, b). if i = ids_from ids
      then (ids_to ids, resumeCommandCard b (ids_fromCommandId ids)) else (i, b)) (row_cards rows)"
    by (auto simp only: hand_card_over_def split: if_splits)
  then show ?thesis by (simp add: row_cards_def update_card_row_def o_def)
qed

lemma hand_card_over_same:
  "card_row (ids_to ids) rows \<noteq> None \<or> card_row (ids_from ids) rows = None \<Longrightarrow>
     hand_card_over ids (row_cards rows) = row_cards rows"
  by (auto simp: hand_card_over_def map_of_row_cards)

lemma row_seq_update_row:
  "(\<And>r. row_seq (f r) = row_seq r) \<Longrightarrow> map row_seq (update_card_row c f rows) = map row_seq rows"
  by (induction rows) (auto simp: update_card_row_def)

lemma row_card_rename:
  assumes "distinct (map row_card rows)" and "t \<notin> row_card ` set rows" and "\<And>r. row_card (f r) = t"
  shows "distinct (map row_card (update_card_row c f rows))"
  using assms(1,2)
proof (induction rows)
  case (Cons a rows)
  have sub: "row_card ` set (update_card_row c f rows) \<subseteq> insert t (row_card ` set rows)"
    using assms(3) by (auto simp: update_card_row_def)
  have same: "update_card_row c f rows = rows" if "c \<notin> row_card ` set rows"
    using that by (induction rows) (auto simp: update_card_row_def)
  have step: "update_card_row c f (a # rows) = (if row_card a = c then f a else a) # update_card_row c f rows"
    by (simp add: update_card_row_def)
  show ?case
  proof (cases "row_card a = c")
    case True
    with Cons.prems same show ?thesis unfolding step by (simp add: assms(3))
  next
    case False
    with Cons sub show ?thesis unfolding step by auto
  qed
qed (simp add: update_card_row_def)

lemma row_card_update_row:
  "(\<And>r. row_card (f r) = row_card r) \<Longrightarrow> map row_card (update_card_row c f rows) = map row_card rows"
  by (induction rows) (auto simp: update_card_row_def)

definition event_ok :: "command_event \<Rightarrow> bool" where
  "event_ok e =
     (case ce_body e of
        Command_recorded k p \<Rightarrow> (case p of None \<Rightarrow> False | Some b \<Rightarrow> ce_runId e = Some (cb_runId b))
      | Call_resumed p \<Rightarrow> parsed_link p = None \<or> \<not> falsy (ce_runId e)
      | _ \<Rightarrow> True)"

definition log_ok :: "command_log \<Rightarrow> bool" where
  "log_ok st =
     ((\<forall>e \<in> set (stored st). ce_threadId e = log_thread st \<and> ce_seq e < nextEventSeq st \<and> ce_id e \<noteq> [] \<and>
         event_ok e) \<and>
      sorted (map ce_seq (stored st)) \<and> distinct (map ce_seq (stored st)) \<and> distinct (map ce_id (stored st)))"

abbreviation raw_cards :: "(js_string \<Rightarrow> int option) \<Rightarrow> command_event list \<Rightarrow> cards_state" where
  "raw_cards date_parse es \<equiv> fold (project_command_event date_parse) es no_cards"

lemma project_seen: "seen (project_command_event dp e s) = (if ce_id e \<in> set (seen s) then seen s else ce_id e # seen s)"
  by (auto simp: project_command_event_def take_link_def take_block_def take_tool_def Let_def
      split: command_event_body.splits option.splits)

lemma seen_raw: "set (seen (raw_cards dp es)) = ce_id ` set es"
  by (induction es rule: rev_induct) (auto simp: project_seen no_cards_def)

lemma project_links:
  assumes "ce_id e \<notin> set (seen s)" and "event_ok e"
  shows "run_links (project_command_event dp e s) r =
    run_links s r @ (case event_link e of Some l \<Rightarrow> if ce_runId e = Some r then [l] else [] | None \<Rightarrow> [])"
  using assms
  by (auto simp: project_command_event_def take_link_def take_block_def take_tool_def Let_def
      event_link_def link_payload_def event_ok_def falsy_def
      split: command_event_body.splits option.splits)

lemma raw_links:
  assumes "\<forall>e \<in> set es. event_ok e" and "distinct (map ce_id es)"
  shows "run_links (raw_cards dp es) = run_links_of es"
  using assms
proof (induction es rule: rev_induct)
  case Nil
  then show ?case by (simp add: no_cards_def run_links_of_def List.map_filter_simps fun_eq_iff)
next
  case (snoc e es)
  then have "ce_id e \<notin> set (seen (raw_cards dp es))" by (auto simp: seen_raw)
  with snoc show ?case by (simp add: fun_eq_iff project_links run_links_of_snoc)
qed

lemma run_links_of_Nil: "\<forall>e \<in> set es. event_ok e \<Longrightarrow> run_links_of es [] = []"
proof -
  assume ok: "\<forall>e \<in> set es. event_ok e"
  have "l \<notin> set (run_links_of es [])" for l
  proof
    assume "l \<in> set (run_links_of es [])"
    then obtain e where "e \<in> set es" "ce_runId e = Some []" "event_link e = Some l"
      by (auto simp: set_run_links_of)
    with ok show False
      by (auto simp: event_ok_def event_link_def link_payload_def falsy_def split: command_event_body.splits)
  qed
  then show ?thesis by (metis list.set_intros(1) neq_Nil_conv)
qed

lemma stored_joins:
  assumes "\<forall>f \<in> set es. ce_threadId f = ce_threadId e" and "\<forall>f \<in> set es. event_ok f"
    and "ce_runId e = Some r" and "falsy except \<or> (\<forall>f \<in> set es. Some (ce_id f) \<noteq> except)"
  shows "commandJoins (resumeLinks es e c except) c = commandJoins (map Some (run_links_of es r)) c"
proof (cases "r = []")
  case True
  with assms show ?thesis by (simp add: resumeLinks_def run_links_of_Nil falsy_def)
next
  case False
  with assms show ?thesis by (intro resumeLinks_joins) auto
qed

lemma stored_materialize [simp]:
  "stored (materializeCommandEvent dp e st) = stored st"
  "log_thread (materializeCommandEvent dp e st) = log_thread st"
  "nextEventSeq (materializeCommandEvent dp e st) = nextEventSeq st"
  by (auto simp: materializeCommandEvent_def materializeResumedCall_def Let_def
      split: command_event_body.splits option.splits)

definition rows_ok :: "command_log \<Rightarrow> bool" where
  "rows_ok st =
     (distinct (map row_card (card_rows st)) \<and> sorted_wrt (<) (map row_seq (card_rows st)) \<and>
      (\<forall>r \<in> set (card_rows st). row_seq r < nextMessageSeq st))"

lemma row_seqs_same:
  assumes "map row_seq rows = map row_seq rows'"
  shows "(\<forall>r \<in> set rows. row_seq r < n) = (\<forall>r \<in> set rows'. row_seq r < (n :: nat))"
proof -
  have "row_seq ` set rows = row_seq ` set rows'"
    using assms by (metis list.set_map)
  then show ?thesis by (metis (no_types, lifting) imageE imageI)
qed

lemma rows_ok_resumed:
  assumes "rows_ok st"
  shows "rows_ok (materializeResumedCall e p st)"
proof (cases "card_rows (materializeResumedCall e p st) = card_rows st")
  case True
  with assms show ?thesis
    by (auto simp: rows_ok_def materializeResumedCall_def Let_def split: option.splits)
next
  case False
  then obtain l ids where "parsed_link p = Some l" and "\<not> falsy (fromCommandId l)"
    and "resumedCardIds l (commandJoins (resumeLinks (stored st) e (the (fromCommandId l)) (Some (ce_id e)))) =
      Some ids"
    and none: "card_row (ids_to ids) (card_rows st) = None" and "card_row (ids_from ids) (card_rows st) \<noteq> None"
    by (auto simp: materializeResumedCall_def Let_def split: option.splits if_splits)
  then have eq: "materializeResumedCall e p st = st\<lparr>card_rows := update_card_row (ids_from ids)
      (\<lambda>r. r\<lparr>row_card := ids_to ids, row_command := resumeCommandCard (row_command r) (ids_fromCommandId ids)\<rparr>)
      (card_rows st)\<rparr>" (is "_ = st\<lparr>card_rows := ?rows\<rparr>")
    by (auto simp: materializeResumedCall_def Let_def)
  have seqs: "map row_seq ?rows = map row_seq (card_rows st)"
    by (rule row_seq_update_row) simp
  have "distinct (map row_card ?rows)"
    using assms none by (intro row_card_rename [where t = "ids_to ids"]) (auto simp: rows_ok_def card_row_None_iff)
  then show ?thesis
    using assms row_seqs_same [OF seqs] unfolding eq by (simp add: rows_ok_def seqs)
qed

lemma rows_ok_materialize:
  assumes "rows_ok st"
  shows "rows_ok (materializeCommandEvent dp e st)"
proof (cases "ce_body e")
  case (Call_resumed p)
  with assms show ?thesis by (simp add: materializeCommandEvent_def rows_ok_resumed)
next
  case (Command_recorded k p)
  show ?thesis
  proof (cases "card_rows (materializeCommandEvent dp e st) = card_rows st")
    case True
    with assms Command_recorded show ?thesis
      by (auto simp: rows_ok_def materializeCommandEvent_def Let_def split: option.splits)
  next
    case False
    then obtain cid c where
      "card_row cid (card_rows st) = None \<and> materializeCommandEvent dp e st =
         st\<lparr>nextMessageSeq := nextMessageSeq st + 1, card_rows := card_rows st @
           [\<lparr>row_card = cid, row_seq = nextMessageSeq st, row_botId = ce_botId e, row_runId = ce_runId e,
             row_command = c\<rparr>]\<rparr> \<or>
       materializeCommandEvent dp e st =
         st\<lparr>card_rows := update_card_row cid (\<lambda>r. r\<lparr>row_command := c\<rparr>) (card_rows st)\<rparr>"
      using Command_recorded
      by (auto simp: materializeCommandEvent_def Let_def split: option.splits if_splits)
    then show ?thesis
    proof
      assume "card_row cid (card_rows st) = None \<and> materializeCommandEvent dp e st =
         st\<lparr>nextMessageSeq := nextMessageSeq st + 1, card_rows := card_rows st @
           [\<lparr>row_card = cid, row_seq = nextMessageSeq st, row_botId = ce_botId e, row_runId = ce_runId e,
             row_command = c\<rparr>]\<rparr>"
      with assms show ?thesis
        by (auto simp: rows_ok_def sorted_wrt_append card_row_None_iff intro: less_SucI)
    next
      assume eq: "materializeCommandEvent dp e st =
         st\<lparr>card_rows := update_card_row cid (\<lambda>r. r\<lparr>row_command := c\<rparr>) (card_rows st)\<rparr>"
      have seqs: "map row_seq (update_card_row cid (\<lambda>r. r\<lparr>row_command := c\<rparr>) (card_rows st)) = map row_seq (card_rows st)"
        by (rule row_seq_update_row) simp
      have cards: "map row_card (update_card_row cid (\<lambda>r. r\<lparr>row_command := c\<rparr>) (card_rows st)) = map row_card (card_rows st)"
        by (rule row_card_update_row) simp
      show ?thesis
        using assms row_seqs_same [OF seqs] unfolding eq by (simp add: rows_ok_def seqs cards)
    qed
  qed
qed (use assms in \<open>simp_all add: materializeCommandEvent_def\<close>)

text \<open>One event moves the rows as it moves the cards of the projection.\<close>

lemma command_moves_rows:
  assumes ok: "\<forall>f \<in> set es. event_ok f" and thr: "\<forall>f \<in> set es. ce_threadId f = ce_threadId e"
    and body: "ce_body e = Command_recorded k (Some b)" and run: "ce_runId e = Some (cb_runId b)"
    and fresh: "ce_id e \<notin> set (seen s)" and links: "run_links s = run_links_of es"
    and cards: "cards s = row_cards (card_rows st)" and st: "stored st = es @ [e]"
    and rows: "distinct (map row_card (card_rows st))"
  shows "cards (project_command_event dp e s) = row_cards (card_rows (materializeCommandEvent dp e st))"
proof -
  have joins: "commandJoins (resumeLinks (stored st) e (commandId b) None) (commandId b) =
      commandJoins (map Some (run_links s (cb_runId b))) (commandId b)" (is "?j = _")
  proof -
    have "event_ok e" using body run by (simp add: event_ok_def)
    with ok thr have "?j = commandJoins (map Some (run_links_of (es @ [e]) (cb_runId b))) (commandId b)"
      unfolding st by (intro stored_joins) (auto simp: run falsy_def)
    moreover have "event_link e = None" using body by (simp add: event_link_def link_payload_def)
    ultimately show ?thesis by (simp add: run_links_of_snoc links)
  qed
  show ?thesis
  proof (cases "commandCardId (commandId b) ?j")
    case None
    with body run fresh cards joins show ?thesis
      by (simp add: project_command_event_def take_block_def Let_def materializeCommandEvent_def)
  next
    case (Some cid)
    have shown: "map_of (cards s) cid = map_option row_command (card_row cid (card_rows st))"
      by (simp add: cards map_of_row_cards)
    show ?thesis
    proof (cases "nextCommandCard dp cid (map_of (cards s) cid) b")
      case None
      with Some body run fresh cards joins shown show ?thesis
        by (simp add: project_command_event_def take_block_def Let_def materializeCommandEvent_def)
    next
      case replaced: (Some c)
      have "cards (project_command_event dp e s) = AList.update cid c (cards s)"
        using Some body run fresh joins shown replaced
        by (simp add: project_command_event_def take_block_def Let_def)
      also have "\<dots> = row_cards (card_rows (materializeCommandEvent dp e st))"
        using Some body joins shown replaced rows
        by (auto simp: materializeCommandEvent_def Let_def cards row_cards_update row_cards_snoc)
      finally show ?thesis .
    qed
  qed
qed

lemma link_moves_rows:
  assumes ok: "\<forall>f \<in> set es. event_ok f" and thr: "\<forall>f \<in> set es. ce_threadId f = ce_threadId e"
    and body: "ce_body e = Call_resumed p" and ok_e: "event_ok e" and "ce_id e \<noteq> []"
    and other: "\<forall>f \<in> set es. ce_id f \<noteq> ce_id e"
    and fresh: "ce_id e \<notin> set (seen s)" and links: "run_links s = run_links_of es"
    and cards: "cards s = row_cards (card_rows st)" and st: "stored st = es @ [e]"
  shows "cards (project_command_event dp e s) = row_cards (card_rows (materializeCommandEvent dp e st))"
proof (cases "parsed_link p")
  case None
  with body fresh cards show ?thesis
    by (auto simp: project_command_event_def Let_def materializeCommandEvent_def materializeResumedCall_def
        split: option.splits)
next
  case (Some l)
  with ok_e body obtain r where run: "ce_runId e = Some r" and r: "r \<noteq> []"
    by (auto simp: event_ok_def falsy_def split: option.splits)
  let ?j = "\<lambda>c. commandJoins (resumeLinks (stored st) e c (Some (ce_id e))) c"
  have joins: "?j c = commandJoins (map Some (run_links s r)) c" for c
    using assms run unfolding st resumeLinks_other [OF \<open>ce_id e \<noteq> []\<close>] links
    by (intro stored_joins) auto
  have ids: "resumedCardIds l (commandJoins (resumeLinks (stored st) e (the (fromCommandId l)) (Some (ce_id e)))) =
      resumedCardIds l (commandJoins (map Some (run_links s r)))"
    by (simp add: resumedCardIds_def joins Let_def)
  have none: "resumedCardIds l f = None" if "falsy (fromCommandId l)" for f
    using that by (simp add: resumedCardIds_def)
  have proj: "project_command_event dp e s = take_link r l (s\<lparr>seen := ce_id e # seen s\<rparr>)"
    using body Some run r fresh by (simp add: project_command_event_def)
  show ?thesis
  proof (cases "resumedCardIds l (commandJoins (map Some (run_links s r)))")
    case None
    then show ?thesis
      using body Some cards ids
      by (simp add: proj take_link_def Let_def materializeCommandEvent_def materializeResumedCall_def)
  next
    case ids_some: (Some i)
    then have "\<not> falsy (fromCommandId l)" using none by force
    then show ?thesis
      using body Some cards ids ids_some
      by (simp add: proj take_link_def Let_def materializeCommandEvent_def materializeResumedCall_def
          row_cards_handed hand_card_over_same)
  qed
qed

definition rows_match :: "(js_string \<Rightarrow> int option) \<Rightarrow> command_log \<Rightarrow> bool" where
  "rows_match dp st = (log_ok st \<and> rows_ok st \<and> cards (raw_cards dp (stored st)) = row_cards (card_rows st))"

lemma event_moves_rows:
  assumes "log_ok st0" and "event_ok e" and "ce_threadId e = log_thread st0" and "ce_id e \<noteq> []"
    and "ce_id e \<notin> ce_id ` set (stored st0)"
    and "cards (raw_cards dp (stored st0)) = row_cards (card_rows st)" and "stored st = stored st0 @ [e]"
    and "distinct (map row_card (card_rows st))"
  shows "cards (raw_cards dp (stored st)) = row_cards (card_rows (materializeCommandEvent dp e st))"
proof -
  let ?s = "raw_cards dp (stored st0)"
  have ok: "\<forall>f \<in> set (stored st0). event_ok f" "\<forall>f \<in> set (stored st0). ce_threadId f = ce_threadId e"
    "\<forall>f \<in> set (stored st0). ce_id f \<noteq> ce_id e" "distinct (map ce_id (stored st0))"
    using assms(1,3,5) by (auto simp: log_ok_def image_iff)
  have fresh: "ce_id e \<notin> set (seen ?s)" using assms(5) by (simp add: seen_raw)
  note links = raw_links [OF ok(1) ok(4), of dp]
  have "cards (project_command_event dp e ?s) = row_cards (card_rows (materializeCommandEvent dp e st))"
  proof (cases "ce_body e")
    case (Command_recorded k p)
    with \<open>event_ok e\<close> obtain b where "p = Some b" "ce_runId e = Some (cb_runId b)"
      by (auto simp: event_ok_def split: option.splits)
    with Command_recorded show ?thesis
      using command_moves_rows [OF ok(1,2) _ _ fresh links assms(6,7,8)] by blast
  next
    case (Call_resumed p)
    then show ?thesis
      by (rule link_moves_rows [OF ok(1,2) _ assms(2,4) ok(3) fresh links assms(6,7)])
  qed (use fresh assms(6) in \<open>auto simp: project_command_event_def materializeCommandEvent_def take_tool_def Let_def
      split: option.splits\<close>)
  then show ?thesis by (simp add: assms(7))
qed

text \<open>A sequence of appends to a thread, with what the database draws; a refused one leaves no trace.\<close>

record append_call =
  call_id :: js_string
  call_now :: js_string
  call_may_write :: bool
  call_input :: append_input

definition append_one :: "(js_string \<Rightarrow> int option) \<Rightarrow> append_call \<Rightarrow> command_log \<Rightarrow> command_log" where
  "append_one dp c st =
     (case appendEventInTransaction dp (call_id c) (call_now c) (call_may_write c) (call_input c) st of
        Inl e \<Rightarrow> st | Inr (e, st') \<Rightarrow> st')"

definition append_calls :: "(js_string \<Rightarrow> int option) \<Rightarrow> append_call list \<Rightarrow> command_log \<Rightarrow> command_log" where
  "append_calls dp calls st = fold (append_one dp) calls st"

definition empty_log :: "js_string \<Rightarrow> nat \<Rightarrow> nat \<Rightarrow> command_log" where
  "empty_log thread n m =
     \<lparr>log_thread = thread, nextEventSeq = n, nextMessageSeq = m, stored = [], card_rows = []\<rparr>"

text \<open>The executor appends a resumption for the run it holds.\<close>

definition resumed_in_run :: "append_input \<Rightarrow> bool" where
  "resumed_in_run inp =
     (case ap_body inp of Call_resumed p \<Rightarrow> parsed_link p = None \<or> \<not> falsy (ap_runId inp) | _ \<Rightarrow> True)"

lemma appended_ok:
  assumes "redelivered inp st = Inr None" and "resumed_in_run inp"
  shows "event_ok \<lparr>ce_id = i, ce_seq = q, ce_runId = ap_runId inp, ce_threadId = t, ce_botId = a,
    ce_createdAt = n, ce_body = ap_body inp\<rparr>"
  using assms
  by (auto simp: redelivered_def resumed_in_run_def event_ok_def
      split: command_event_body.splits option.splits if_splits)

lemma append_one_cases:
  obtains "append_one dp c st = st"
  | "append_one dp c st = st\<lparr>nextEventSeq := nextEventSeq st + 1\<rparr>"
  | e where "append_one dp c st = materializeCommandEvent dp e
        (st\<lparr>nextEventSeq := nextEventSeq st + 1, stored := stored st @ [e]\<rparr>)"
      and "ce_id e = call_id c" and "ce_seq e = nextEventSeq st" and "ce_threadId e = log_thread st"
      and "resumed_in_run (call_input c) \<Longrightarrow> event_ok e"
proof -
  let ?inp = "call_input c" and ?st = "st\<lparr>nextEventSeq := nextEventSeq st + 1\<rparr>"
  consider er where "redelivered ?inp ?st = Inl er" | old where "redelivered ?inp ?st = Inr (Some old)"
    | "redelivered ?inp ?st = Inr None"
    by (metis option.exhaust sum.exhaust)
  then show thesis
  proof cases
    case 3
    then show ?thesis
    proof (cases "call_may_write c")
      case True
      with 3 show ?thesis
        by (intro that(3) [of "\<lparr>ce_id = call_id c, ce_seq = nextEventSeq st, ce_runId = ap_runId ?inp,
            ce_threadId = log_thread st, ce_botId = ap_botId ?inp, ce_createdAt = call_now c,
            ce_body = ap_body ?inp\<rparr>"])
          (auto simp: append_one_def appendEventInTransaction_def Let_def appended_ok [OF 3])
    next
      case False
      with 3 show ?thesis
        by (intro that(1)) (simp add: append_one_def appendEventInTransaction_def Let_def)
    qed
  qed (simp_all add: that append_one_def appendEventInTransaction_def Let_def)
qed

lemma append_one_keeps:
  assumes "rows_match dp st" and "call_id c \<notin> ce_id ` set (stored st)" and "call_id c \<noteq> []"
    and "resumed_in_run (call_input c)"
  shows "rows_match dp (append_one dp c st) \<and>
    ce_id ` set (stored (append_one dp c st)) \<subseteq> insert (call_id c) (ce_id ` set (stored st))"
proof (rule append_one_cases [of dp c st])
  assume "append_one dp c st = st"
  with assms show ?thesis by auto
next
  assume eq: "append_one dp c st = st\<lparr>nextEventSeq := nextEventSeq st + 1\<rparr>"
  show ?thesis
    using assms unfolding eq by (auto simp: rows_match_def log_ok_def rows_ok_def)
next
  fix e
  let ?st = "st\<lparr>nextEventSeq := nextEventSeq st + 1, stored := stored st @ [e]\<rparr>"
  assume eq: "append_one dp c st = materializeCommandEvent dp e ?st"
    and e: "ce_id e = call_id c" "ce_seq e = nextEventSeq st" "ce_threadId e = log_thread st"
      "resumed_in_run (call_input c) \<Longrightarrow> event_ok e"
  have "log_ok (materializeCommandEvent dp e ?st)"
    using assms e by (auto simp: rows_match_def log_ok_def sorted_append intro: less_imp_le less_SucI)
  moreover have "rows_ok (materializeCommandEvent dp e ?st)"
    using assms by (intro rows_ok_materialize) (simp add: rows_match_def rows_ok_def)
  moreover have "cards (raw_cards dp (stored ?st)) = row_cards (card_rows (materializeCommandEvent dp e ?st))"
    by (rule event_moves_rows [where ?st0.0 = st]) (use assms e in \<open>auto simp: rows_match_def rows_ok_def\<close>)
  ultimately show ?thesis
    using e(1) unfolding eq by (auto simp: rows_match_def)
qed

lemma append_all_match:
  assumes "rows_match dp st" and "distinct (map call_id calls)" and "[] \<notin> call_id ` set calls"
    and "call_id ` set calls \<inter> ce_id ` set (stored st) = {}" and "\<forall>c \<in> set calls. resumed_in_run (call_input c)"
  shows "rows_match dp (append_calls dp calls st)"
  using assms
proof (induction calls arbitrary: st)
  case (Cons c calls)
  have one: "rows_match dp (append_one dp c st) \<and>
      ce_id ` set (stored (append_one dp c st)) \<subseteq> insert (call_id c) (ce_id ` set (stored st))"
    by (rule append_one_keeps) (use Cons.prems in auto)
  have "call_id ` set calls \<inter> insert (call_id c) (ce_id ` set (stored st)) = {}"
    using Cons.prems by auto
  with one have "call_id ` set calls \<inter> ce_id ` set (stored (append_one dp c st)) = {}" by blast
  with one Cons.prems have "rows_match dp (append_calls dp calls (append_one dp c st))"
    by (intro Cons.IH) simp_all
  then show ?case by (simp add: append_calls_def)
qed (simp add: append_calls_def)

lemma empty_log_match: "rows_match dp (empty_log thread n m)"
  by (simp add: rows_match_def empty_log_def log_ok_def rows_ok_def no_cards_def row_cards_def)

section \<open>What the projection shows\<close>

definition run_over :: "command_event list \<Rightarrow> js_string \<Rightarrow> bool" where
  "run_over es r = (r \<noteq> [] \<and> (\<exists>e \<in> set es. ce_body e = Run_ended \<and> ce_runId e = Some r))"

definition shown_block :: "js_string list \<Rightarrow> command_event list \<Rightarrow> command_block \<Rightarrow> command_block" where
  "shown_block live es b = settleCommandBlock b (cb_runId b \<in> set live \<and> \<not> run_over es (cb_runId b))"

lemma finished_step:
  assumes "ce_id e \<notin> set (seen s)"
  shows "r \<in> set (finishedRuns (project_command_event dp e s)) \<longleftrightarrow>
    r \<in> set (finishedRuns s) \<or> ce_body e = Run_ended \<and> ce_runId e = Some r \<and> r \<noteq> []"
  using assms
  by (auto simp: project_command_event_def take_link_def take_block_def take_tool_def Let_def
      split: command_event_body.splits option.splits)

lemma finished_raw:
  "distinct (map ce_id es) \<Longrightarrow> r \<in> set (finishedRuns (raw_cards dp es)) \<longleftrightarrow> run_over es r"
proof (induction es rule: rev_induct)
  case (snoc e es)
  then have "ce_id e \<notin> set (seen (raw_cards dp es))" by (auto simp: seen_raw)
  with snoc show ?case by (auto simp: finished_step run_over_def)
qed (simp add: no_cards_def run_over_def)

definition gap :: "command_block \<Rightarrow> bool" where
  "gap b = (take 7 (commandId b) = js ''legacy:'' \<and> cb_command b = None \<and> cb_outcome b = Cmd_unknown)"

lemma set_update_subset: "set (AList.update k v xs) \<subseteq> insert (k, v) (set xs)"
  by (induction xs) auto

lemma gap_legacy_block: "gap (legacy_block r x)"
  by (simp add: gap_def legacy_block_def js_def)

lemma legacy_step:
  assumes "\<forall>p \<in> set (legacy s). gap (snd p)"
  shows "\<forall>p \<in> set (legacy (project_command_event dp e s)). gap (snd p)"
proof -
  have del: "set (AList.delete k xs) \<subseteq> set xs" for k and xs :: cards
    by (simp add: AList.delete_eq) 
  show ?thesis
    using assms del set_update_subset gap_legacy_block
    by (auto 0 3 simp: project_command_event_def take_link_def take_block_def take_tool_def Let_def
        split: command_event_body.splits option.splits dest!: subsetD [OF del] subsetD [OF set_update_subset])
qed

lemma legacy_raw: "\<forall>p \<in> set (legacy (raw_cards dp es)). gap (snd p)"
proof (induction es rule: rev_induct)
  case (snoc e es)
  then show ?case using legacy_step by simp
qed (simp add: no_cards_def)

lemma projected_blocks:
  assumes "sorted (map ce_seq es)" and "distinct (map ce_id es)"
  shows "\<exists>gaps. projectCommandBlocks dp live es = map (shown_block live es) (map snd (cards (raw_cards dp es))) @ gaps
    \<and> (\<forall>b \<in> set gaps. gap b)"
proof -
  let ?s = "raw_cards dp es"
  have sort: "sort_key ce_seq es = es"
    using assms(1) by (simp add: sort_key_id_if_sorted)
  have settled: "settleCommandBlock b (cb_runId b \<in> set live \<and> cb_runId b \<notin> set (finishedRuns ?s)) =
      shown_block live es b" for b
    by (simp add: shown_block_def finished_raw [OF assms(2)])
  have "gap b \<Longrightarrow> gap (shown_block live es b)" for b
    by (simp add: gap_def shown_block_def settleCommandBlock_def)
  then have "\<forall>b \<in> set (map (shown_block live es) (unrecorded_calls ?s)). gap b"
    using legacy_raw [of dp es] by (auto simp: unrecorded_calls_def)
  moreover have "projectCommandBlocks dp live es =
      map (shown_block live es) (map snd (cards ?s)) @ map (shown_block live es) (unrecorded_calls ?s)"
    by (simp add: projectCommandBlocks_def project_command_events_def sort settled Let_def)
  ultimately show ?thesis by blast
qed


section \<open>The order and number of deliveries\<close>

lemma project_seen_again: "ce_id e \<in> set (seen s) \<Longrightarrow> project_command_event dp e s = s"
  by (simp add: project_command_event_def)

lemma project_first_deliveries:
  "\<forall>e \<in> set old. ce_id e \<in> set (seen s) \<Longrightarrow>
     fold (project_command_event dp) es s = fold (project_command_event dp) (uniq_from old es) s"
proof (induction es arbitrary: old s)
  case (Cons e es)
  show ?case
  proof (cases "e \<in> set old")
    case True
    with Cons show ?thesis by (simp add: project_seen_again)
  next
    case False
    have "\<forall>f \<in> set (e # old). ce_id f \<in> set (seen (project_command_event dp e s))"
      using Cons.prems by (auto simp: project_seen)
    from Cons.IH [OF this] False show ?thesis by simp
  qed
qed simp

lemma sorted_uniq_from:
  fixes f :: "'a \<Rightarrow> nat"
  shows "sorted (map f xs) \<Longrightarrow> sorted (map f (uniq_from old xs))"
  by (induction xs arbitrary: old) (auto simp: set_uniq_from)

lemma same_events_same_log:
  assumes "set es = set es'" and inj: "inj_on ce_seq (set es)"
  shows "uniq (sort_key ce_seq es) = uniq (sort_key ce_seq es')"
proof -
  let ?u = "uniq (sort_key ce_seq es)" and ?u' = "uniq (sort_key ce_seq es')"
  have "sorted (map ce_seq ?u)" "sorted (map ce_seq ?u')"
    by (simp_all add: uniq_def sorted_uniq_from)
  moreover have "distinct (map ce_seq ?u)" "distinct (map ce_seq ?u')"
    using assms by (simp_all add: distinct_map)
  ultimately have "map ce_seq ?u = map ce_seq ?u'"
    using assms(1) by (intro sorted_distinct_set_unique) simp_all
  then show ?thesis
    using assms by (simp add: inj_on_map_eq_map)
qed

text \<open>C40. What the projection shows depends only on the set of events it is given: events delivered in
  another order, or again, change nothing, provided that each has its own sequence number.\<close>

theorem deliveries_do_not_matter:
  assumes "set es = set es'" and "inj_on ce_seq (set es)"
  shows "projectCommandBlocks dp live es = projectCommandBlocks dp live es'"
proof -
  have "project_command_events dp xs = fold (project_command_event dp) (uniq (sort_key ce_seq xs)) no_cards" for xs
    unfolding project_command_events_def uniq_def by (rule project_first_deliveries) simp
  with same_events_same_log [OF assms] show ?thesis
    by (simp add: projectCommandBlocks_def)
qed

section \<open>A call killed and resumed\<close>

definition sample_date :: "js_string \<Rightarrow> int option" where
  "sample_date t = (if t = js ''1'' then Some 1000 else if t = js ''2'' then Some 3000 else None)"

definition sample_command :: "string \<Rightarrow> nat \<Rightarrow> string \<Rightarrow> rat option \<Rightarrow> command_outcome \<Rightarrow> command_block" where
  "sample_command c fence0 start d oc =
     \<lparr>commandId = js c, cb_runId = js ''r'', attemptId = Some (js ''a'' @ [of_nat fence0]), cb_executionId = js ''x'' @ js c,
      cb_command = Some (js ''ls''), cb_cwd = None, cb_computerId = None, cb_computer = None,
      startedAt = Some (js start), durationMs = d, exitCode = None, cb_outcome = oc, cb_stdout = None,
      cb_stderr = None, cb_error = None, refusalId = None, cb_redacted = False, cb_truncated = False,
      replayOf = None, rerunDisabledReason = None, cb_fence = Some fence0, resumedFrom = None\<rparr>"

definition sample_link :: tool_link where
  "sample_link = \<lparr>link_from = js ''xk'', link_to = js ''xn'', fromCommandId = Some (js ''k''),
     toCommandId = Some (js ''n'')\<rparr>"

text \<open>Started, killed and taken over by a second call; a late event of the first; the end, delivered twice.\<close>

definition sample_appends :: "append_call list" where
  "sample_appends = map (\<lambda>(i, body). \<lparr>call_id = js i, call_now = js ''t'', call_may_write = True,
     call_input = \<lparr>ap_runId = Some (js ''r''), ap_botId = None, ap_body = body\<rparr>\<rparr>)
     [(''1'', Command_recorded Cmd_started (Some (sample_command ''k'' 1 ''1'' None Cmd_running))),
      (''2'', Call_resumed (Some sample_link)),
      (''3'', Command_recorded Cmd_finished (Some (sample_command ''k'' 1 ''1'' (Some 5) Cmd_completed))),
      (''4'', Command_recorded Cmd_started (Some (sample_command ''n'' 2 ''2'' None Cmd_running))),
      (''5'', Command_recorded Cmd_finished (Some (sample_command ''n'' 2 ''2'' (Some 7) Cmd_completed))),
      (''6'', Command_recorded Cmd_finished (Some (sample_command ''n'' 2 ''2'' (Some 7) Cmd_completed))),
      (''7'', Run_ended)]"

definition sample_log :: command_log where
  "sample_log = append_calls sample_date sample_appends (empty_log (js ''th'') 0 4)"

lemma sample_cards:
  "map (\<lambda>r. (row_card r, row_seq r, durationMs (row_command r), resumedFrom (row_command r))) (card_rows sample_log) =
     [(js ''command:resumed:n'', 4, Some 2007, Some [js ''k''])]"
  by code_simp


theorem deliveries_do_not_matter_witness:
  "projectCommandBlocks sample_date [] (stored sample_log) =
     projectCommandBlocks sample_date [] (rev (stored sample_log) @ stored sample_log)"
proof (rule deliveries_do_not_matter)
  have "distinct (map ce_seq (stored sample_log))" by code_simp
  then show "inj_on ce_seq (set (stored sample_log))" by (simp add: distinct_map)
qed simp

end
