(* ===== verification/Command_View.thy ===== *)
theory Command_View
  imports Command_Rows
begin

text \<open>
  The cards a client shows, reduced event by event, against the projection of the log.
\<close>

section \<open>What a client shows\<close>

text \<open>
  A log whose command ids are hashes of their run: a command and the links that name it are of one run,
  no id reads like the id of a resumed card, producers leave \<open>resumedFrom\<close> to the cards, and nothing of
  a run is logged after its end.
\<close>

definition resumed_prefix :: js_string where
  "resumed_prefix = js ''resumed:''"

definition link_commands :: "tool_link \<Rightarrow> js_string list" where
  "link_commands l = (case fromCommandId l of None \<Rightarrow> [] | Some c \<Rightarrow> [c]) @
     (case toCommandId l of None \<Rightarrow> [] | Some c \<Rightarrow> [c])"

lemma set_link_commands [simp]: "c \<in> set (link_commands l) \<longleftrightarrow> fromCommandId l = Some c \<or> toCommandId l = Some c"
  by (auto simp: link_commands_def split: option.splits)

definition owned_event :: "(js_string \<Rightarrow> js_string) \<Rightarrow> command_event \<Rightarrow> bool" where
  "owned_event owner e =
     (event_ok e \<and> ce_runId e \<noteq> Some [] \<and>
      (case ce_body e of
         Command_recorded k (Some b) \<Rightarrow>
           owner (commandId b) = cb_runId b \<and> resumedFrom b = None \<and>
           take 8 (commandId b) \<noteq> resumed_prefix
       | Call_resumed p \<Rightarrow>
           (case parsed_link p of
              None \<Rightarrow> True
            | Some l \<Rightarrow> (\<forall>c \<in> set (link_commands l). ce_runId e = Some (owner c)))
       | _ \<Rightarrow> True))"

definition ends_last :: "command_event list \<Rightarrow> bool" where
  "ends_last es = sorted_wrt (\<lambda>e f. ce_body e = Run_ended \<longrightarrow> ce_runId f \<noteq> ce_runId e) es"

definition log_links :: "command_event list \<Rightarrow> tool_link list" where
  "log_links es = List.map_filter event_link es"

lemma set_log_links: "l \<in> set (log_links es) \<longleftrightarrow> (\<exists>e \<in> set es. event_link e = Some l)"
  by (auto simp: log_links_def set_map_filter')

lemma log_links_joins:
  "resumedAway (commandJoins (map Some (log_links es)) c) \<longleftrightarrow> (\<exists>l \<in> set (log_links es). fromCommandId l = Some c)"
  "joined (commandJoins (map Some (log_links es)) c) \<longleftrightarrow> (\<exists>l \<in> set (log_links es). toCommandId l = Some c)"
proof -
  have parse: "parse_link l = Some l" if "l \<in> set (log_links es)" for l
    using that by (auto simp: set_log_links event_link_iff)
  show "resumedAway (commandJoins (map Some (log_links es)) c) \<longleftrightarrow> (\<exists>l \<in> set (log_links es). fromCommandId l = Some c)"
    "joined (commandJoins (map Some (log_links es)) c) \<longleftrightarrow> (\<exists>l \<in> set (log_links es). toCommandId l = Some c)"
    by (auto simp: commandJoins_iff dest!: parsed_link_SomeD intro: parsed_linkI parse)
qed

lemma owned_joins:
  assumes "\<forall>e \<in> set es. owned_event owner e"
  shows "commandJoins (map Some (log_links es)) c = commandJoins (map Some (run_links_of es (owner c))) c"
proof -
  have own: "ce_runId e = Some (owner c)"
    if "e \<in> set es" "event_link e = Some l" "fromCommandId l = Some c \<or> toCommandId l = Some c" for e l
    using that assms by (fastforce simp: owned_event_def event_link_def link_payload_def
        split: command_event_body.splits option.splits)
  have same: "(\<exists>l \<in> set (log_links es). P l) \<longleftrightarrow> (\<exists>l \<in> set (run_links_of es (owner c)). P l)"
    if "\<And>l. P l \<Longrightarrow> fromCommandId l = Some c \<or> toCommandId l = Some c" for P
    unfolding set_log_links set_run_links_of Bex_def using own that by blast
  show ?thesis
    by (rule joins_eqI) (simp_all add: log_links_joins joins_of_run_links same)
qed

text \<open>A message shows a card, settled when its run is over.\<close>

definition shows_card :: "js_string list \<Rightarrow> js_string \<times> command_block \<Rightarrow> card_message \<Rightarrow> bool" where
  "shows_card over p m =
     (cm_id m = fst p \<and> cm_runId m = Some (cb_runId (snd p)) \<and>
      cm_blocks m = [Command_card (settleCommandBlock (snd p) (cb_runId (snd p) \<notin> set over))])"

text \<open>What is loaded before: no message that is, or could be taken for, a card.\<close>

definition plain_message :: "card_message \<Rightarrow> bool" where
  "plain_message m = (take 8 (cm_id m) \<noteq> js ''command:'' \<and> (\<forall>blk \<in> set (cm_blocks m). blk = Other_block))"

definition card_names :: "command_event list \<Rightarrow> cards \<Rightarrow> bool" where
  "card_names es cs =
     (\<forall>(i, b) \<in> set cs. take 8 i = js ''command:'' \<and>
        (\<forall>c. i = resumedCommandMessageId c \<longrightarrow> (\<exists>l \<in> set (log_links es). toCommandId l = Some c)) \<and>
        (\<forall>c \<in> set (resumed_from b). \<exists>l \<in> set (log_links es). fromCommandId l = Some c))"

definition view_matches ::
    "(js_string \<Rightarrow> int option) \<Rightarrow> card_message list \<Rightarrow> command_event list \<Rightarrow> command_view \<Rightarrow> bool" where
  "view_matches dp ms0 es v =
     (let s = raw_cards dp es in
      (\<exists>cms. cv_messages v = ms0 @ cms \<and> list_all2 (shows_card (finishedRuns s)) (cards s) cms) \<and>
      cv_links v = log_links es \<and> card_names es (cards s) \<and> distinct (map fst (cards s)))"

lemma shown_member:
  assumes "list_all2 (shows_card over) cs cms" and "m \<in> set cms"
  obtains i b where "(i, b) \<in> set cs" and "shows_card over (i, b) m"
proof -
  have "\<exists>p \<in> set cs. shows_card over p m"
    using assms by (induction rule: list_all2_induct) auto
  then obtain p where "p \<in> set cs" "shows_card over p m" by blast
  then show thesis by (intro that [of "fst p" "snd p"]) simp_all
qed

lemma resumed_from_settled [simp]: "resumed_from (settleCommandBlock b x) = resumed_from b"
  by (simp add: settleCommandBlock_def resumed_from_def)

lemma take_card_ids [simp]:
  "take 8 (resumedCommandMessageId c) = js ''command:''"
  "take 8 (js ''command:'' @ c) = js ''command:''"
  by (simp_all add: resumedCommandMessageId_def js_def)

lemma reader_joins:
  assumes owned: "\<forall>e \<in> set es. owned_event owner e" and plain: "\<forall>m \<in> set ms0. plain_message m"
    and cms: "list_all2 (shows_card over) cs cms" and names: "card_names es cs"
  shows "readerJoins (ms0 @ cms) (map Some (log_links es)) c = commandJoins (map Some (run_links_of es (owner c))) c"
proof -
  have away: "\<exists>l \<in> set (log_links es). fromCommandId l = Some c" if "resumedAway (messageJoins (ms0 @ cms) c)"
  proof -
    from that obtain m blk where m: "m \<in> set ms0 \<union> set cms" "blk \<in> set (cm_blocks m)" "names_resumed c blk"
      by (auto simp: messageJoins_def)
    then have "m \<in> set cms"
      using plain by (fastforce simp: plain_message_def names_resumed_def split: card_block.splits)
    then obtain i b where "(i, b) \<in> set cs" "shows_card over (i, b) m" by (rule shown_member [OF cms])
    with m names show ?thesis
      by (fastforce simp: card_names_def shows_card_def names_resumed_def)
  qed
  have join: "\<exists>l \<in> set (log_links es). toCommandId l = Some c" if "joined (messageJoins (ms0 @ cms) c)"
  proof -
    from that obtain m where m: "m \<in> set ms0 \<union> set cms" "cm_id m = resumedCommandMessageId c"
      by (auto simp: messageJoins_def)
    then have "m \<in> set cms" using plain by (auto simp: plain_message_def)
    then obtain i b where "(i, b) \<in> set cs" "shows_card over (i, b) m" by (rule shown_member [OF cms])
    with m names show ?thesis
      by (fastforce simp: card_names_def shows_card_def)
  qed
  show ?thesis
    unfolding owned_joins [OF owned, symmetric]
    by (rule joins_eqI) (use away join in \<open>auto simp: readerJoins_def log_links_joins\<close>)
qed

lemma settle_twice [simp]:
  "settleCommandBlock (settleCommandBlock b x) False = settleCommandBlock b False"
  by (simp add: settleCommandBlock_def)

lemma end_run_shows:
  assumes "list_all2 (shows_card over) cs cms"
  shows "list_all2 (shows_card (r # over)) cs (end_run_cards (Some r) cms)"
  using assms unfolding end_run_cards_def list_all2_map2
  by (rule list_all2_mono) (auto simp: shows_card_def map_command_def)

lemma end_run_plain: "\<forall>m \<in> set ms. plain_message m \<Longrightarrow> end_run_cards r ms = ms"
proof -
  assume plain: "\<forall>m \<in> set ms. plain_message m"
  have "map (map_command f) (cm_blocks m) = cm_blocks m" if "plain_message m" for f m
    using that by (intro map_idI) (auto simp: plain_message_def map_command_def)
  with plain show ?thesis unfolding end_run_cards_def by (intro map_idI) auto
qed

lemma hand_over_shows:
  assumes "list_all2 (shows_card over) cs cms" and "map_of cs (ids_to ids) = None"
  shows "list_all2 (shows_card over) (hand_card_over ids cs) (hand_message_over ids cms)"
proof -
  have "hand_card_over ids cs = map (\<lambda>(i, b). if i = ids_from ids
      then (ids_to ids, resumeCommandCard b (ids_fromCommandId ids)) else (i, b)) cs"
  proof (cases "map_of cs (ids_from ids) = None")
    case True
    then have "\<forall>(i, b) \<in> set cs. i \<noteq> ids_from ids" by (force simp: map_of_eq_None_iff)
    then have "map (\<lambda>(i, b). if i = ids_from ids
      then (ids_to ids, resumeCommandCard b (ids_fromCommandId ids)) else (i, b)) cs = cs"
      by (intro map_idI) auto
    with True show ?thesis by (simp add: hand_card_over_def)
  next
    case False
    with assms(2) show ?thesis by (auto simp only: hand_card_over_def split: if_splits)
  qed
  moreover have "settleCommandBlock (resumeCommandCard b c) x = resumeCommandCard (settleCommandBlock b x) c" for b c x
    by (simp add: settleCommandBlock_def resumeCommandCard_def)
  ultimately show ?thesis
    using assms(1) unfolding list_all2_map1 list_all2_map2
    by (auto simp: hand_message_over_def list_all2_map1 list_all2_map2 shows_card_def map_command_def resumeCommandCard_def
        elim!: list_all2_mono split: if_splits)
qed

lemma log_links_snoc:
  "log_links (es @ [e]) = log_links es @ (case event_link e of Some l \<Rightarrow> [l] | None \<Rightarrow> [])"
  by (simp add: log_links_def List.map_filter_def split: option.splits)

lemma card_names_more: "card_names es cs \<Longrightarrow> card_names (es @ [e]) cs"
  by (fastforce simp: card_names_def log_links_snoc)

lemma keys_hand_over:
  assumes "distinct (map fst cs)"
  shows "distinct (map fst (hand_card_over ids cs))"
proof -
  have key: "fst ` set (map (\<lambda>(i, b). if i = f then (t, g b) else (i, b)) xs) \<subseteq> insert t (fst ` set xs)"
    for f t g and xs :: cards
    by (force split: if_splits)
  have id: "map (\<lambda>(i, b). if i = f then (t, g b) else (i, b)) xs = xs" if "f \<notin> fst ` set xs"
    for f t g and xs :: cards
    using that by (intro map_idI) force
  have "distinct (map fst (map (\<lambda>(i, b). if i = f then (t, g b) else (i, b)) cs))" if "t \<notin> fst ` set cs" for f t g
    using assms that
  proof (induction cs)
    case (Cons p cs)
    obtain i b where p: "p = (i, b)" by (cases p)
    show ?case
    proof (cases "i = f")
      case True
      with Cons.prems have "f \<notin> fst ` set cs" by (auto simp: p)
      with Cons.prems True show ?thesis by (simp add: p id)
    next
      case False
      have "i \<notin> insert t (fst ` set cs)" using Cons.prems by (auto simp: p)
      then have "i \<notin> fst ` set (map (\<lambda>(i, b). if i = f then (t, g b) else (i, b)) cs)"
        using key [of f t g cs] by blast
      with Cons False show ?thesis by (simp add: p image_image)
    qed
  qed simp
  then show ?thesis using assms by (auto simp: hand_card_over_def map_of_eq_None_iff)
qed

lemma hand_over_names:
  assumes "card_names es cs" and "Some (ids_fromCommandId ids) = fromCommandId l"
    and "ids_to ids = resumedCommandMessageId (the (toCommandId l))" and "toCommandId l \<noteq> None"
    and "event_link e = Some l"
  shows "card_names (es @ [e]) (hand_card_over ids cs)"
proof -
  have inj: "resumedCommandMessageId c = resumedCommandMessageId d \<longleftrightarrow> c = d" for c d
    by (simp add: resumedCommandMessageId_def)
  have links: "log_links (es @ [e]) = log_links es @ [l]" by (simp add: log_links_snoc assms(5))
  have mem: "(i, b) \<in> set cs \<or> i = ids_to ids \<and> (\<exists>j b'. (j, b') \<in> set cs \<and> b = resumeCommandCard b' (ids_fromCommandId ids))"
    if "(i, b) \<in> set (hand_card_over ids cs)" for i b
    using that by (auto simp: hand_card_over_def split: if_splits) blast
  have new: "set (resumed_from (resumeCommandCard b c)) = insert c (set (resumed_from b))" for b c
    by (auto simp: resumed_from_def resumeCommandCard_def split: option.splits)
  show ?thesis
    unfolding card_names_def links
  proof (rule ballI, clarify)
    fix i b
    assume "(i, b) \<in> set (hand_card_over ids cs)"
    from mem [OF this] consider (old) "(i, b) \<in> set cs"
      | (handed) j b' where "i = ids_to ids" "(j, b') \<in> set cs" "b = resumeCommandCard b' (ids_fromCommandId ids)"
      by blast
    then show "take 8 i = js ''command:'' \<and>
        (\<forall>c. i = resumedCommandMessageId c \<longrightarrow> (\<exists>l \<in> set (log_links es @ [l]). toCommandId l = Some c)) \<and>
        (\<forall>c \<in> set (resumed_from b). \<exists>l \<in> set (log_links es @ [l]). fromCommandId l = Some c)"
    proof cases
      case old
      with assms(1) show ?thesis unfolding card_names_def by fastforce
    next
      case handed
      have "\<forall>c \<in> set (resumed_from b'). \<exists>l \<in> set (log_links es). fromCommandId l = Some c"
        using handed(2) assms(1) unfolding card_names_def by blast
      with handed(1,3) assms(2-4) show ?thesis by (auto simp: new inj)
    qed
  qed
qed

lemma resumed_ids_of:
  assumes "resumedCardIds l j = Some ids"
  shows "Some (ids_fromCommandId ids) = fromCommandId l"
    and "ids_to ids = resumedCommandMessageId (the (toCommandId l))" and "toCommandId l \<noteq> None"
    and "take 8 (ids_from ids) = js ''command:''" and "take 8 (ids_to ids) = js ''command:''"
  using assms
  by (auto simp: resumedCardIds_def Let_def commandCardId_def falsy_def split: option.splits if_splits)

lemma resumed_ids_cong:
  "(\<And>c. fromCommandId l = Some c \<Longrightarrow> j c = k c) \<Longrightarrow> resumedCardIds l j = resumedCardIds l k"
  by (cases "fromCommandId l") (simp_all add: resumedCardIds_def falsy_def Let_def)

lemma map_of_shown:
  assumes "list_all2 (shows_card over) cs cms"
  shows "map_of cs i = None \<longleftrightarrow> (\<forall>m \<in> set cms. cm_id m \<noteq> i)"
  using assms by (induction rule: list_all2_induct) (auto simp: shows_card_def)

lemma reader_of_view:
  assumes owned: "\<forall>f \<in> set es. owned_event owner f" and plain: "\<forall>m \<in> set ms0. plain_message m"
    and m: "view_matches dp ms0 es v" and ids: "distinct (map ce_id es)"
  shows "readerJoins (cv_messages v) (map Some (cv_links v)) c =
    commandJoins (map Some (run_links (raw_cards dp es) (owner c))) c"
proof -
  have "run_links (raw_cards dp es) = run_links_of es"
    by (rule raw_links) (use owned ids in \<open>simp_all add: owned_event_def\<close>)
  with m show ?thesis
    using reader_joins [OF owned plain] unfolding view_matches_def Let_def by auto
qed

text \<open>An event that moves no card leaves the messages.\<close>

lemma view_unchanged:
  assumes "view_matches dp ms0 es v" and "cards (raw_cards dp (es @ [e])) = cards (raw_cards dp es)"
    and "finishedRuns (raw_cards dp (es @ [e])) = finishedRuns (raw_cards dp es)"
    and "cv_messages v' = cv_messages v" and "cv_links v' = log_links (es @ [e])"
  shows "view_matches dp ms0 (es @ [e]) v'"
  using assms card_names_more unfolding view_matches_def Let_def by auto

lemma resumed_messages:
  assumes plain: "\<forall>m \<in> set ms0. plain_message m" and cms: "list_all2 (shows_card over) cs cms"
    and pre: "take 8 (ids_from i) = js ''command:''" "take 8 (ids_to i) = js ''command:''"
  shows "\<exists>cms'. (if \<exists>m \<in> set (ms0 @ cms). cm_id m = ids_to i then ms0 @ cms else hand_message_over i (ms0 @ cms)) =
      ms0 @ cms' \<and> list_all2 (shows_card over) (hand_card_over i cs) cms'"
proof -
  have foreign: "\<forall>m \<in> set ms0. cm_id m \<noteq> ids_to i \<and> cm_id m \<noteq> ids_from i"
    using plain pre by (auto simp: plain_message_def)
  show ?thesis
  proof (cases "map_of cs (ids_to i) = None")
    case True
    have "hand_message_over i ms0 = ms0"
      using foreign unfolding hand_message_over_def by (intro map_idI) auto
    then have "hand_message_over i (ms0 @ cms) = ms0 @ hand_message_over i cms"
      by (simp add: hand_message_over_def)
    with True foreign show ?thesis
      using hand_over_shows [OF cms True] map_of_shown [OF cms, of "ids_to i"] by auto
  next
    case False
    with cms show ?thesis by (auto simp: hand_card_over_def map_of_shown [OF cms])
  qed
qed

lemma resume_matches:
  assumes owned: "\<forall>f \<in> set es. owned_event owner f" "owned_event owner e"
    and plain: "\<forall>m \<in> set ms0. plain_message m"
    and m: "view_matches dp ms0 es v" and fresh: "ce_id e \<notin> ce_id ` set es" and ids: "distinct (map ce_id es)"
    and body: "ce_body e = Call_resumed p" and l: "parsed_link p = Some l"
  shows "view_matches dp ms0 (es @ [e]) (resume_message l v)"
proof -
  let ?s = "raw_cards dp es"
  obtain r where run: "ce_runId e = Some r" "r \<noteq> []"
    using owned(2) body l by (auto simp: owned_event_def event_ok_def falsy_def split: option.splits)
  have link: "event_link e = Some l" using body l by (simp add: event_link_def link_payload_def)
  have step: "raw_cards dp (es @ [e]) = take_link r l (?s\<lparr>seen := ce_id e # seen ?s\<rparr>)"
    using body l run fresh by (simp add: project_command_event_def seen_raw)
  have lk: "cv_links (resume_message l v) = log_links (es @ [e])"
    using m by (simp add: resume_message_def view_matches_def Let_def log_links_snoc link split: option.split)
  have "readerJoins (cv_messages v) (map Some (cv_links v)) c = commandJoins (map Some (run_links ?s r)) c"
    if "fromCommandId l = Some c" for c
  proof -
    have "owner c = r" using owned(2) body l run that by (auto simp: owned_event_def)
    then show ?thesis using reader_of_view [OF owned(1) plain m ids, of c] by simp
  qed
  note same = resumed_ids_cong [OF this]
  show ?thesis
  proof (cases "resumedCardIds l (commandJoins (map Some (run_links ?s r)))")
    case None
    show ?thesis
      by (rule view_unchanged [OF m _ _ _ lk], unfold step)
        (use None in \<open>simp_all add: take_link_def resume_message_def same Let_def\<close>)
  next
    case (Some i)
    note i = resumed_ids_of [OF this]
    have cards: "cards (raw_cards dp (es @ [e])) = hand_card_over i (cards ?s)"
      and fin: "finishedRuns (raw_cards dp (es @ [e])) = finishedRuns ?s"
      unfolding step using Some by (simp_all add: take_link_def Let_def)
    have msgs: "cv_messages (resume_message l v) = (if \<exists>m \<in> set (cv_messages v). cm_id m = ids_to i
        then cv_messages v else hand_message_over i (cv_messages v))"
      using Some by (simp add: resume_message_def same Let_def)
    show ?thesis
      using m resumed_messages [OF plain _ i(4,5)] hand_over_names [OF _ i(1-3) link] keys_hand_over lk
      unfolding view_matches_def Let_def cards fin msgs by metis
  qed
qed

lemma settle_same [simp]:
  "commandId (settleCommandBlock b x) = commandId b" "cb_fence (settleCommandBlock b x) = cb_fence b"
  "startedAt (settleCommandBlock b x) = startedAt b" "resumedFrom (settleCommandBlock b x) = resumedFrom b"
  "cb_runId (settleCommandBlock b x) = cb_runId b" "settleCommandBlock b True = b"
  by (simp_all add: settleCommandBlock_def)

lemma merge_settled [simp]:
  "start_of dp (settleCommandBlock b x) = start_of dp b"
  "mergeResumedCommand dp (settleCommandBlock b x) c = mergeResumedCommand dp b c"
proof -
  show start: "start_of dp (settleCommandBlock b x) = start_of dp b" by (simp add: start_of_def)
  show "mergeResumedCommand dp (settleCommandBlock b x) c = mergeResumedCommand dp b c"
    unfolding mergeResumedCommand_def start settle_same ..
qed

lemma next_card_settled:
  "nextCommandCard dp cid (map_option (\<lambda>b. settleCommandBlock b (P b)) shown) b = nextCommandCard dp cid shown b"
  by (cases shown) (simp_all add: nextCommandCard_def replacesCommandBlock_def block_fence_def)

lemma next_card_run: "nextCommandCard dp cid shown b = Some c \<Longrightarrow> cb_runId c = cb_runId b"
  by (auto simp: nextCommandCard_def mergeResumedCommand_def Let_def split: if_splits option.splits)

lemma next_card_resumed:
  "nextCommandCard dp cid shown b = Some c \<Longrightarrow> resumedFrom b = None \<Longrightarrow>
     set (resumed_from c) \<subseteq> (case shown of None \<Rightarrow> {} | Some s \<Rightarrow> set (resumed_from s))"
  by (auto simp: nextCommandCard_def mergeResumedCommand_def Let_def resumed_from_def
      split: if_splits option.splits)

lemma find_shown:
  assumes "list_all2 (shows_card over) cs cms"
  shows "shown_command (List.find (\<lambda>m. cm_id m = i) cms) =
      map_option (\<lambda>b. settleCommandBlock b (cb_runId b \<notin> set over)) (map_of cs i)"
    and "List.find (\<lambda>m. cm_id m = i) cms = None \<longleftrightarrow> map_of cs i = None"
  using assms by (induction rule: list_all2_induct) (auto simp: shows_card_def shown_command_def)

lemma find_append_plain:
  "\<forall>m \<in> set ms0. \<not> P m \<Longrightarrow> List.find P (ms0 @ cms) = List.find P cms"
  by (induction ms0) auto

lemma project_one:
  assumes "ce_body e = Command_recorded k (Some b)" and "ce_runId e = Some (cb_runId b)"
    and "cb_runId b \<noteq> []" and "take 8 (commandId b) \<noteq> resumed_prefix"
  shows "projectCommandBlocks dp (if falsy (ce_runId e) then [] else [the (ce_runId e)]) [e] = [b]"
  using assms
  by (simp add: projectCommandBlocks_def project_command_events_def project_command_event_def no_cards_def
      take_block_def Let_def commandJoins_def commandCardId_def nextCommandCard_def replacesCommandBlock_def
      falsy_def unrecorded_calls_def)

lemma command_card_names:
  assumes "card_names es cs" and "commandCardId (commandId b) (commandJoins (map Some (run_links_of es r)) (commandId b)) = Some cid"
    and "take 8 (commandId b) \<noteq> resumed_prefix"
    and "set (resumed_from c) \<subseteq> (case map_of cs cid of None \<Rightarrow> {} | Some s \<Rightarrow> set (resumed_from s))"
  shows "card_names es (AList.update cid c cs)"
proof -
  let ?j = "commandJoins (map Some (run_links_of es r)) (commandId b)"
  have cid: "cid = (if joined ?j then resumedCommandMessageId (commandId b) else js ''command:'' @ commandId b)"
    using assms(2) by (simp add: commandCardId_def split: if_splits)
  have "\<exists>l \<in> set (log_links es). toCommandId l = Some d" if "cid = resumedCommandMessageId d" for d
  proof (cases "joined ?j")
    case True
    with that cid have "d = commandId b" by (simp add: resumedCommandMessageId_def)
    with True show ?thesis by (auto simp: joins_of_run_links set_log_links set_run_links_of Bex_def)
  next
    case False
    with that cid have "commandId b = js ''resumed:'' @ d"
      by (simp add: resumedCommandMessageId_def js_def)
    then have "take 8 (commandId b) = resumed_prefix" by (simp add: resumed_prefix_def js_def)
    with assms(3) show ?thesis by simp
  qed
  moreover have "take 8 cid = js ''command:''" by (simp add: cid)
  moreover have "\<exists>l \<in> set (log_links es). fromCommandId l = Some d" if "d \<in> set (resumed_from c)" for d
  proof -
    from that assms(4) obtain s where s: "map_of cs cid = Some s" "d \<in> set (resumed_from s)"
      by (auto split: option.splits)
    then have "(cid, s) \<in> set cs" by (simp add: map_of_SomeD)
    with s assms(1) show ?thesis by (fastforce simp: card_names_def)
  qed
  ultimately show ?thesis
    using assms(1) set_update_subset [of cid c cs] unfolding card_names_def by blast
qed

lemma put_message_shows:
  assumes plain: "\<forall>m \<in> set ms0. plain_message m" and cms: "list_all2 (shows_card over) cs cms"
    and keys: "distinct (map fst cs)" and nxt: "shows_card over (cid, c) nxt" and cid: "take 8 cid = js ''command:''"
  shows "\<exists>cms'. put_message (List.find (\<lambda>m. cm_id m = cid) (ms0 @ cms)) nxt (ms0 @ cms) = ms0 @ cms' \<and>
    list_all2 (shows_card over) (AList.update cid c cs) cms'"
proof -
  have foreign: "\<forall>m \<in> set ms0. cm_id m \<noteq> cid" using plain cid by (auto simp: plain_message_def)
  then have find: "List.find (\<lambda>m. cm_id m = cid) (ms0 @ cms) = None \<longleftrightarrow> map_of cs cid = None"
    by (simp add: find_append_plain find_shown(2) [OF cms])
  have id: "cm_id nxt = cid" using nxt by (simp add: shows_card_def)
  show ?thesis
  proof (cases "map_of cs cid = None")
    case True
    with find cms nxt show ?thesis
      by (simp add: put_message_def update_new list_all2_appendI)
  next
    case False
    have "map (\<lambda>m. if cm_id m = cid then nxt else m) ms0 = ms0" using foreign by (intro map_idI) auto
    then have "put_message (List.find (\<lambda>m. cm_id m = cid) (ms0 @ cms)) nxt (ms0 @ cms) =
        ms0 @ map (\<lambda>m. if cm_id m = cid then nxt else m) cms"
      using False find by (simp add: put_message_def id)
    moreover have "list_all2 (shows_card over) (map (\<lambda>(i, x). if i = cid then (cid, c) else (i, x)) cs)
        (map (\<lambda>m. if cm_id m = cid then nxt else m) cms)"
      unfolding list_all2_map1 list_all2_map2
      using cms by (rule list_all2_mono) (use nxt id in \<open>auto simp: shows_card_def\<close>)
    ultimately show ?thesis using False keys by (auto simp: update_old)
  qed
qed

text \<open>The card the client sees where the event goes, and what it makes of it.\<close>

lemma next_card_of_view:
  assumes plain: "\<forall>m \<in> set ms0. plain_message m" and m: "view_matches dp ms0 es v"
    and cid: "take 8 cid = js ''command:''"
  shows "nextCommandCard dp cid (shown_command (List.find (\<lambda>m. cm_id m = cid) (cv_messages v))) b =
    nextCommandCard dp cid (map_of (cards (raw_cards dp es)) cid) b"
proof -
  let ?s = "raw_cards dp es"
  obtain cms where cms: "cv_messages v = ms0 @ cms" "list_all2 (shows_card (finishedRuns ?s)) (cards ?s) cms"
    using m unfolding view_matches_def Let_def by blast
  have "\<forall>m \<in> set ms0. cm_id m \<noteq> cid" using plain cid by (auto simp: plain_message_def)
  then have "List.find (\<lambda>m. cm_id m = cid) (cv_messages v) = List.find (\<lambda>m. cm_id m = cid) cms"
    by (simp add: cms(1) find_append_plain)
  then show ?thesis by (simp only: find_shown(1) [OF cms(2)] next_card_settled)
qed

lemma command_matches:
  assumes owned: "\<forall>f \<in> set es. owned_event owner f" "owned_event owner e"
    and plain: "\<forall>m \<in> set ms0. plain_message m"
    and m: "view_matches dp ms0 es v" and fresh: "ce_id e \<notin> ce_id ` set es" and ids: "distinct (map ce_id es)"
    and body: "ce_body e = Command_recorded k (Some b)" and live: "\<not> run_over es (cb_runId b)"
  shows "view_matches dp ms0 (es @ [e]) (show_command dp to_iso e b v)"
proof -
  let ?s = "raw_cards dp es" and ?s' = "raw_cards dp (es @ [e])"
  have run: "ce_runId e = Some (cb_runId b)" "owner (commandId b) = cb_runId b" "resumedFrom b = None"
    "take 8 (commandId b) \<noteq> resumed_prefix" "event_link e = None"
    using owned(2) body by (simp_all add: owned_event_def event_ok_def event_link_def link_payload_def)
  have step: "?s' = take_block dp b (?s\<lparr>seen := ce_id e # seen ?s\<rparr>)"
    using body run fresh by (simp add: project_command_event_def seen_raw)
  have rl: "run_links ?s = run_links_of es"
    by (rule raw_links) (use owned(1) ids in \<open>simp_all add: owned_event_def\<close>)
  have lk: "cv_links (show_command dp to_iso e b v) = log_links (es @ [e])"
    using m by (simp add: show_command_def view_matches_def Let_def log_links_snoc run split: option.split)
  have fin: "cb_runId b \<notin> set (finishedRuns ?s)" "finishedRuns ?s' = finishedRuns ?s"
    using live unfolding step by (auto simp: finished_raw [OF ids] take_block_def Let_def split: option.split)
  let ?j = "commandJoins (map Some (run_links ?s (cb_runId b))) (commandId b)"
  have joins: "readerJoins (cv_messages v) (map Some (cv_links v)) (commandId b) = ?j"
    using reader_of_view [OF owned(1) plain m ids, of "commandId b"] by (simp add: run)
  consider "commandCardId (commandId b) ?j = None"
    | cid where "commandCardId (commandId b) ?j = Some cid" "nextCommandCard dp cid (map_of (cards ?s) cid) b = None"
    | cid c where "commandCardId (commandId b) ?j = Some cid" "nextCommandCard dp cid (map_of (cards ?s) cid) b = Some c"
    by blast
  then show ?thesis
  proof cases
    case 1
    show ?thesis
      by (rule view_unchanged [OF m _ fin(2) _ lk], unfold step)
        (use 1 in \<open>simp_all add: take_block_def show_command_def joins Let_def\<close>)
  next
    case (2 cid)
    have "take 8 cid = js ''command:''" using 2 by (auto simp: commandCardId_def split: if_splits)
    note nxt = next_card_of_view [OF plain m this]
    show ?thesis
      by (rule view_unchanged [OF m _ fin(2) _ lk], unfold step)
        (use 2 in \<open>simp_all add: take_block_def show_command_def joins nxt Let_def\<close>)
  next
    case (3 cid c)
    have cid: "take 8 cid = js ''command:''" using 3 by (auto simp: commandCardId_def split: if_splits)
    note nxt = next_card_of_view [OF plain m cid]
    obtain mess where msgs: "cv_messages (show_command dp to_iso e b v) =
        put_message (List.find (\<lambda>m. cm_id m = cid) (cv_messages v)) mess (cv_messages v)"
      and mess: "shows_card (finishedRuns ?s) (cid, c) mess"
      using 3 fin(1) next_card_run [OF 3(2)]
      by (auto simp: show_command_def joins nxt Let_def shows_card_def)
    have cards: "cards ?s' = AList.update cid c (cards ?s)"
      unfolding step using 3 by (simp_all add: take_block_def Let_def)
    have "card_names (es @ [e]) (AList.update cid c (cards ?s))"
      using m 3(1) rl command_card_names [OF _ _ run(4) next_card_resumed [OF 3(2) run(3)]]
      by (auto simp: view_matches_def Let_def intro: card_names_more)
    moreover have "distinct (map fst (AList.update cid c (cards ?s)))"
      using m by (auto simp: view_matches_def Let_def intro: distinct_update)
    moreover have "\<exists>cms'. cv_messages (show_command dp to_iso e b v) = ms0 @ cms' \<and>
        list_all2 (shows_card (finishedRuns ?s)) (AList.update cid c (cards ?s)) cms'"
      using m put_message_shows [OF plain _ _ mess cid] unfolding view_matches_def Let_def msgs by metis
    ultimately show ?thesis using lk unfolding view_matches_def Let_def cards fin(2) by blast
  qed
qed

lemma end_matches:
  assumes owned: "owned_event owner e" and plain: "\<forall>m \<in> set ms0. plain_message m"
    and m: "view_matches dp ms0 es v" and fresh: "ce_id e \<notin> ce_id ` set es" and body: "ce_body e = Run_ended"
  shows "view_matches dp ms0 (es @ [e]) (v\<lparr>cv_messages := end_run_cards (ce_runId e) (cv_messages v)\<rparr>)"
proof -
  let ?s = "raw_cards dp es"
  have lk: "log_links (es @ [e]) = log_links es"
    using body by (simp add: log_links_snoc event_link_def link_payload_def)
  have step: "raw_cards dp (es @ [e]) = (case ce_runId e of None \<Rightarrow> ?s\<lparr>seen := ce_id e # seen ?s\<rparr>
      | Some r \<Rightarrow> ?s\<lparr>seen := ce_id e # seen ?s, finishedRuns := r # finishedRuns ?s\<rparr>)"
    using body owned fresh
    by (auto simp: project_command_event_def seen_raw owned_event_def split: option.split)
  show ?thesis
  proof (cases "ce_runId e")
    case None
    with m show ?thesis
      by (intro view_unchanged [OF m])
        (simp_all only: step, simp_all add: end_run_cards_def lk view_matches_def Let_def)
  next
    case (Some r)
    have "end_run_cards (Some r) (ms0 @ cms) = ms0 @ end_run_cards (Some r) cms" for cms
      using end_run_plain [OF plain, of "Some r"] by (simp add: end_run_cards_def)
    then show ?thesis
      using m end_run_shows [of "finishedRuns ?s" "cards ?s" _ r] card_names_more
      unfolding view_matches_def Let_def step by (auto simp: Some lk)
  qed
qed

lemma event_matches:
  assumes owned: "\<forall>f \<in> set es. owned_event owner f" "owned_event owner e"
    and plain: "\<forall>m \<in> set ms0. plain_message m" and last: "ends_last (es @ [e])"
    and m: "view_matches dp ms0 es v" and fresh: "ce_id e \<notin> ce_id ` set es" and ids: "distinct (map ce_id es)"
  shows "view_matches dp ms0 (es @ [e]) (reduceCommandMessages dp to_iso e v)"
proof -
  let ?s = "raw_cards dp es"
  have links: "cv_links v = log_links es" using m by (simp add: view_matches_def Let_def)
  have unchanged: "view_matches dp ms0 (es @ [e]) v"
    if "cards (project_command_event dp e ?s) = cards ?s"
      "finishedRuns (project_command_event dp e ?s) = finishedRuns ?s" "event_link e = None"
    using that by (intro view_unchanged [OF m]) (simp_all add: links log_links_snoc)
  show ?thesis
  proof (cases "ce_body e")
    case (Command_recorded k p)
    with owned(2) obtain b where b: "p = Some b" "ce_runId e = Some (cb_runId b)" "cb_runId b \<noteq> []"
      "take 8 (commandId b) \<noteq> resumed_prefix"
      by (auto simp: owned_event_def event_ok_def split: option.splits)
    have "\<not> run_over es (cb_runId b)"
      using last b by (auto simp: run_over_def ends_last_def sorted_wrt_append)
    from command_matches [OF owned plain m fresh ids _ this] Command_recorded b
    show ?thesis using project_one [of e k b dp] by (simp add: reduceCommandMessages_def)
  next
    case (Call_resumed p)
    show ?thesis
    proof (cases "parsed_link p")
      case None
      with Call_resumed have "view_matches dp ms0 (es @ [e]) v"
        by (intro unchanged) (auto simp: project_command_event_def event_link_def link_payload_def Let_def
            split: option.split)
      with Call_resumed None show ?thesis by (simp add: reduceCommandMessages_def)
    next
      case (Some l)
      with resume_matches [OF owned plain m fresh ids Call_resumed Some] Call_resumed
      show ?thesis by (simp add: reduceCommandMessages_def)
    qed
  next
    case Run_ended
    with end_matches [OF owned(2) plain m fresh] show ?thesis by (simp add: reduceCommandMessages_def)
  qed (use unchanged in \<open>auto simp: reduceCommandMessages_def project_command_event_def take_tool_def
      event_link_def link_payload_def Let_def split: option.splits\<close>)
qed

lemma view_matches_all:
  assumes "\<forall>f \<in> set es. owned_event owner f" and "\<forall>m \<in> set ms0. plain_message m" and "ends_last es"
    and "distinct (map ce_id es)"
  shows "view_matches dp ms0 es (fold (reduceCommandMessages dp to_iso) es \<lparr>cv_messages = ms0, cv_links = []\<rparr>)"
  using assms
proof (induction es rule: rev_induct)
  case Nil
  then show ?case by (simp add: view_matches_def no_cards_def card_names_def log_links_def List.map_filter_simps)
next
  case (snoc e es)
  then have "ends_last es" by (simp add: ends_last_def sorted_wrt_append)
  with snoc have IH: "view_matches dp ms0 es (fold (reduceCommandMessages dp to_iso) es \<lparr>cv_messages = ms0, cv_links = []\<rparr>)"
    by simp
  have "view_matches dp ms0 (es @ [e]) (reduceCommandMessages dp to_iso e
      (fold (reduceCommandMessages dp to_iso) es \<lparr>cv_messages = ms0, cv_links = []\<rparr>))"
    by (rule event_matches [OF _ _ snoc.prems(2,3) IH]) (use snoc.prems in auto)
  then show ?case by simp
qed

definition loaded_commands :: "card_message list \<Rightarrow> command_block list" where
  "loaded_commands ms = concat (map (\<lambda>m. concat (map (\<lambda>blk.
     case blk of Command_card b \<Rightarrow> [b] | Other_block \<Rightarrow> []) (cm_blocks m))) ms)"

lemma card_runs: "\<forall>p \<in> set (cards (raw_cards dp es)). \<exists>e \<in> set es. ce_runId e = Some (cb_runId (snd p))"
proof (induction es rule: rev_induct)
  case (snoc e es)
  let ?s = "raw_cards dp es"
  have "p \<in> set (cards ?s) \<or> ce_runId e = Some (cb_runId (snd p)) \<or>
      (\<exists>q \<in> set (cards ?s). cb_runId (snd q) = cb_runId (snd p))"
    if "p \<in> set (cards (project_command_event dp e ?s))" for p
  proof -
    have handed: "\<exists>q \<in> set cs. cb_runId (snd q) = cb_runId (snd p)" if "p \<in> set (hand_card_over ids cs)" for ids cs
    proof (cases "p \<in> set cs")
      case False
      with that have "p \<in> (\<lambda>(i, b). if i = ids_from ids then (ids_to ids, resumeCommandCard b (ids_fromCommandId ids))
          else (i, b)) ` set cs"
        by (auto simp only: hand_card_over_def set_map split: if_splits)
      then obtain q where "q \<in> set cs" "p = (case q of (i, b) \<Rightarrow> if i = ids_from ids
          then (ids_to ids, resumeCommandCard b (ids_fromCommandId ids)) else (i, b))" by blast
      then show ?thesis by (intro bexI [of _ q]) (simp_all add: resumeCommandCard_def split: prod.split)
    qed blast
    have updated: "p \<in> set (cards ?s) \<or> cb_runId (snd p) = cb_runId b"
      if "p \<in> set (AList.update cid c (cards ?s))" "nextCommandCard dp cid x b = Some c" for cid c x b
      using that set_update_subset [of cid c "cards ?s"] next_card_run [OF that(2)] by auto
    show ?thesis
      using that
      by (auto simp: project_command_event_def take_link_def take_block_def take_tool_def Let_def
          split: command_event_body.splits option.splits if_splits dest: handed dest!: updated)
  qed
  with snoc show ?case by fastforce
qed (simp add: no_cards_def)



end
