(* ===== verification/Spec2Isabelle.thy ===== *)
theory Spec2Isabelle
  imports Action_Approval Authority Chief_Activity Evidence_Chain Redaction Thread_View Cron Coordination
    Endpoint_Guards Plan_Safety Command_View
begin

text \<open>
  Verification of the core of ardur-bot: a service in which people share rooms and threads with bots
  that run on models, use tools and connectors, delegate to each other and keep signed evidence of what
  they did. The repository is a TypeScript monorepo; the logic modelled here lives under \<open>src/packages\<close>
  (\<open>core\<close>, \<open>evidence\<close>, and parts of \<open>adapters\<close>, \<open>db\<close> and \<open>contracts\<close>).

  \<^bold>\<open>How the parts work together.\<close> A message in a room or thread becomes a run. The run goes through the
  statuses of the run state machine under a lease; the tool calls of its model pass the approval gate
  and the authority of the caller; what it streams becomes the live draft that readers see, redacted and
  repaired, until a lasting message replaces it. In a room the chief picks a member for the work, shows
  an activity line and reports a result; a coordinator asks members and collects their outcomes; bots
  message each other with prompts that frame untrusted text. A goal has a plan of steps that depend on
  each other; ready steps are handed out as runs, and what the runs report settles them. The shell
  commands of a run are shown as cards, kept as rows and rebuilt from the log. Routines start runs on a
  schedule. Requests that leave the service pass address guards. Decisions are signed into a hash-linked
  journal that anyone with the public key can check.

  \<^bold>\<open>The theories.\<close>
  \<^item> \<open>Prelude\<close>: results of code that throws, first matches, \<open>uniq\<close>, the stable sort.
  \<^item> \<open>JsString\<close>, \<open>JsPattern\<close>, \<open>JsNumber\<close>: ECMAScript strings (16-bit code units), the regular expressions
    in use as functions that list every match, and numbers (a double is the rational it stands for).
  \<^item> \<open>Json\<close>, \<open>Codec\<close>: JSON values, parsing, canonical text (\<open>evidence/src/jcs.ts\<close>), UTF-8 and base64url.
  \<^item> \<open>Run_State\<close>: \<open>core/src/run-state.ts\<close>, \<open>screen-lease.ts\<close>, \<open>adapters/src/computer-screens.ts\<close>.
  \<^item> \<open>Action_Approval\<close>: \<open>core/src/action-approval.ts\<close> and the gate of \<open>adapters/src/executor.ts\<close>.
  \<^item> \<open>Authority\<close>: \<open>core/src/integration-policy.ts\<close>, \<open>remote-policy.ts\<close>, \<open>delegation-policy.ts\<close>.
  \<^item> \<open>Chief_Policy\<close>, \<open>Chief_Activity\<close>: \<open>core/src/chief-loop-policy.ts\<close>, \<open>chief-activity.ts\<close> and the
    transactions of \<open>db/src/chief-activity.ts\<close>, with the shapes of \<open>contracts/src/chief-loop.ts\<close>.
  \<^item> \<open>Evidence_Receipt\<close>, \<open>Evidence_Verify\<close>, \<open>Evidence_Chain\<close>: the package \<open>evidence\<close>: receipts and their
    signatures, the verification of chains, seals and bundles, and what writing and checking promise
    each other.
  \<^item> \<open>Redaction\<close>, \<open>Live_Blocks\<close>, \<open>Thread_View\<close>: \<open>core/src/events.ts\<close> (secrets and broken text, the live
    draft, the projection of a thread) with \<open>cloud-agent.ts\<close> and \<open>message-pages.ts\<close>.
  \<^item> \<open>Cron\<close>: \<open>core/src/cron.ts\<close>.
  \<^item> \<open>Peer_Messages\<close>, \<open>Coordination\<close>: \<open>core/src/bot-messages.ts\<close>, \<open>coordination.ts\<close>, \<open>group-ask.ts\<close> and
    \<open>presenceText\<close> of \<open>bot-presence.ts\<close>.
  \<^item> \<open>Plan_Steps\<close>, \<open>Goal_Plan\<close>, \<open>Plan_Safety\<close>: the transactions of \<open>db/src/goal-plan.ts\<close>, the check of
    support work of \<open>goals.ts\<close>, the chief's tools of \<open>adapters/src/chief/project-plan.ts\<close> and the shapes
    of \<open>contracts/src/goal.ts\<close>: the rows and their statuses, every transaction, and what any sequence of
    transactions keeps.
  \<^item> \<open>Command_Blocks\<close>, \<open>Command_Rows\<close>, \<open>Command_View\<close>: the cards of shell commands,
    \<open>core/src/command-blocks.ts\<close> and \<open>db/src/command-blocks.ts\<close>, with \<open>appendEventInTransaction\<close> of
    \<open>db/src/events.ts\<close>: the operations, the stored rows against the projection, and the clients against it.
  \<^item> \<open>Network_Address\<close>, \<open>Safe_Fetch\<close>, \<open>Endpoint_Guards\<close>: \<open>adapters/src/network-address.ts\<close>,
    \<open>web-ssrf.ts\<close>, and the guards of \<open>remote-mcp.ts\<close>, \<open>openai-compatible-url.ts\<close>,
    \<open>pi-openai-compatible-provider.ts\<close>, \<open>serenity-client.ts\<close> and \<open>memory/semantic-http.ts\<close>.

  In each theory the data types and operations come first, in the order and under the names of the code,
  then the library lemmas, then the properties, each after a sentence that says what it states.
  Interfaces of the TypeScript code are records, unions are datatypes, an absent optional field is
  \<open>None\<close>, a thrown error is \<open>Inl\<close>, and a mutated object is a value that is returned updated.
\<close>

text \<open>
  \<^bold>\<open>What is shown.\<close>
  \<^item> Runs: the outcomes of a run come only from under a lease, terminal statuses end a life, and a screen
    stays with its holder until a release, with a fence that never decreases.
  \<^item> Approval and authority: what the gate lets through, the resolution of rules, the token reading of
    connector tool names, exactly when a paired device may run a tool, and that delegated authority
    never exceeds any layer. The locale \<open>authority_ceiling\<close> states the contract of an intersection
    of authority and is interpreted on the tool, remote and delegation policies.
  \<^item> Chief: the choice is a best eligible member, a stop ends dispatching, the control record is the sum of
    the owner's corrections, and activity never goes back.
  \<^item> Evidence: appended chains and sealed runs verify, a seal fixes the journal, nothing signed at or after
    the second of a revocation is trusted, a resumed chain continues as the uninterrupted one, canonical
    text and bundled journals read back.
  \<^item> Threads: redaction leaves no secret and does not depend on the chunks, repaired values are
    well-formed, a tool call is shown once, live rows are current, merged pages keep their order.
  \<^item> Schedules, peers and rounds: presets read back, the strict search rejects, peer text makes no tag,
    settled members keep their row, ask keys read back.
  \<^item> Goal plans: of two runs a step was handed to one is over, a reachable plan has unique ids and no cycle
    and blocks a step exactly when a cancelled one stops it, the search for cycles and the loop over
    statuses are exact and end.
  \<^item> Command cards: the rows that appends leave, and the messages of a client that follows the log, show
    what the projection of the log shows, which does not depend on order or repetition of deliveries.
  \<^item> Connections: an address is refused exactly when it lies in a reserved block in whatever form it is
    written, a fetch and its redirects reach only checked public hosts, every guard dials only what it
    accepts, a key in clear stays inside the network. The locale \<open>address_guard\<close> states the contract of
    a validator for the checked lookup; its four interpretations are the guards of the code.

  \<^bold>\<open>Parameters.\<close> Code outside the repository is an argument of the definitions that use it: SHA-256 and
  the P-256 signatures, PEM parsing, case mapping and \<open>localeCompare\<close>, the Unicode classes, the cron
  library and \<open>Intl\<close>, \<open>Date.parse\<close>, the URL parser, resolvers and the network, the
  ids the database draws, the admission of a delegation. What a theorem needs of
  them is a named hypothesis (\<open>crypto_works\<close>, \<open>comparator\<close>, \<open>href_reads_back\<close>, \<open>parsed_host\<close>), and its
  witness instantiates it.

  \<^bold>\<open>Loops and fuel.\<close> Recursion is structural or has a measure, except: the search for secrets in a JSON
  value and the loop over the statuses of a plan are each a \<open>partial_function\<close> and proved to return (the
  loop on every reachable plan); the JSON parser has fuel \<open>2 * length + 2\<close>, since
  every call consumes a character or passes to a smaller grammar level; the last place of a double below
  one is sought for 1074 steps, the exponent range of the format; the detail of a transport failure
  follows five causes, as the code does, and a fetch five redirects.

  \<^bold>\<open>Not modelled.\<close> User interfaces, the API router, the Prisma queries (but for chief activity,
  goal plans and command cards), who a room message wakes, the summaries and exports of commands, the model
  loop and sandboxes, protocol clients, memory stores, logging, scripts: they are effects on systems
  outside the repository or glue around the logic above. Deadlines appear as failures of the calls they
  cut off. Concurrency of transactions is modelled as their order.
\<close>

end
